(* ===== verification/Prelude.thy ===== *)
theory Prelude
  imports Main "HOL-Library.Word"
begin

text \<open>
  What every component shares: the names of Go's fixed-width integers, byte slices and
  the two operations the code performs on them (\<open>copy\<close> into a slice and the little- and
  big-endian accessors of \<^verbatim>\<open>encoding/binary\<close>), Go's run-time panics as values, and the
  generic lemmas on lists the component proofs rest on.

  Unsigned integers are words of their width (\<^verbatim>\<open>+\<close> wraps as it does in Go). Go's
  \<^verbatim>\<open>int\<close> and \<^verbatim>\<open>int64\<close> are \<open>int\<close> or \<open>nat\<close> where the values are bounded far below
  \<open>2 ^ 63\<close>; each theory says where that is so and writes the wrap-around out elsewhere.
\<close>

unbundle bit_operations_syntax

section \<open>Types\<close>

type_synonym u8 = "8 word"
type_synonym u16 = "16 word"
type_synonym u32 = "32 word"
type_synonym u64 = "64 word"
type_synonym bytes = "u8 list"

text \<open>A run-time panic of the Go program ends the goroutine: the left side of a sum.\<close>

datatype go_panic = IndexOutOfRange | SliceOutOfRange | DivideByZero | NilDereference

type_synonym 'a go = "go_panic + 'a"

definition go_bind :: "'a go \<Rightarrow> ('a \<Rightarrow> 'b go) \<Rightarrow> 'b go" where
  "go_bind x f = (case x of Inl p \<Rightarrow> Inl p | Inr a \<Rightarrow> f a)"

lemma go_bind_simps [simp]: "go_bind (Inl p) f = Inl p" "go_bind (Inr a) f = f a"
  by (simp_all add: go_bind_def)

lemma go_bind_cong [fundef_cong]:
  "x = x' \<Longrightarrow> (\<And>a. x' = Inr a \<Longrightarrow> f a = f' a) \<Longrightarrow> go_bind x f = go_bind x' f'"
  by (cases x') simp_all

lemma go_bind_Inr: "go_bind x f = Inr b \<longleftrightarrow> (\<exists>a. x = Inr a \<and> f a = Inr b)"
  by (cases x) simp_all

text \<open>A loop over a list that stops at the first panic.\<close>

fun go_fold :: "('b \<Rightarrow> 'a \<Rightarrow> 'b go) \<Rightarrow> 'b \<Rightarrow> 'a list \<Rightarrow> 'b go" where
  "go_fold f b [] = Inr b"
| "go_fold f b (x # xs) = go_bind (f b x) (\<lambda>b. go_fold f b xs)"

text \<open>A write to a slice element.\<close>

definition put_at :: "'a list \<Rightarrow> int \<Rightarrow> 'a \<Rightarrow> 'a list go" where
  "put_at xs i v = (if 0 \<le> i \<and> i < int (length xs) then Inr (xs[nat i := v]) else Inl IndexOutOfRange)"

definition get_at :: "'a list \<Rightarrow> int \<Rightarrow> 'a go" where
  "get_at xs i = (if 0 \<le> i \<and> i < int (length xs) then Inr (xs ! nat i) else Inl IndexOutOfRange)"

named_theorems wire_simps \<open>lengths and reads of encoded integers and of filled buffers\<close>

section \<open>Lists\<close>

lemma take_drop_split: "n \<le> length xs \<Longrightarrow> take n xs @ drop n xs = xs"
  by simp

lemma replicate_numeral_Cons: "replicate (numeral k) x = x # replicate (pred_numeral k) x"
  by (simp add: numeral_eq_Suc)

lemma drop_replicate_append: "drop n (xs @ replicate n' x) = drop n xs @ replicate (n' - (n - length xs)) x"
  by simp

text \<open>\<open>slice a b xs\<close> is Go's \<open>xs[a:b]\<close> where \<open>a \<le> b \<le> len(xs)\<close>.\<close>

definition slice :: "nat \<Rightarrow> nat \<Rightarrow> 'a list \<Rightarrow> 'a list" where
  "slice a b xs = take (b - a) (drop a xs)"

lemma length_slice [simp]: "b \<le> length xs \<Longrightarrow> length (slice a b xs) = b - a"
  by (simp add: slice_def)

lemma nth_slice [simp]: "b \<le> length xs \<Longrightarrow> i < b - a \<Longrightarrow> slice a b xs ! i = xs ! (a + i)"
  by (simp add: slice_def)

lemma slice_append_exact [simp]:
  "length xs = a \<Longrightarrow> b = a + length ys \<Longrightarrow> slice a b (xs @ ys @ zs) = ys"
  by (simp add: slice_def)

lemma slice_nths: "b \<le> length xs \<Longrightarrow> slice a b xs = map (nth xs) [a..<b]"
  by (rule nth_equalityI) auto

lemma slice_update_other [simp, wire_simps]:
  "i < a \<Longrightarrow> slice a b (xs[i := v]) = slice a b xs"
  "b \<le> i \<Longrightarrow> slice a b (xs[i := v]) = slice a b xs"
  by (simp add: slice_def) (cases "a \<le> b"; simp add: slice_def take_drop)

text \<open>
  \<open>blit off src dst\<close> is Go's \<open>copy(dst[off:], src)\<close>: it overwrites as much of the
  destination as the source fills and the destination holds.
\<close>

definition blit :: "nat \<Rightarrow> 'a list \<Rightarrow> 'a list \<Rightarrow> 'a list" where
  "blit off src dst = take off dst @ take (length dst - off) src @ drop (off + length src) dst"

lemma length_blit [simp, wire_simps]: "length (blit off src dst) = length dst"
  by (simp add: blit_def)

lemma blit_Nil [simp]: "blit off [] dst = dst"
  by (simp add: blit_def)

lemma nth_blit:
  "i < length dst \<Longrightarrow>
   blit off src dst ! i = (if off \<le> i \<and> i < off + length src then src ! (i - off) else dst ! i)"
  by (auto simp: blit_def nth_append min_def not_less intro!: arg_cong [where f = "nth dst"])

lemma blit_append_left:
  "off + length src \<le> length xs \<Longrightarrow> blit off src (xs @ ys) = blit off src xs @ ys"
  by (simp add: blit_def)

lemma blit_append_right:
  "length xs \<le> off \<Longrightarrow> blit off src (xs @ ys) = xs @ blit (off - length xs) src ys"
  by (simp add: blit_def add.commute)

lemma blit_whole: "length src = length dst \<Longrightarrow> blit 0 src dst = src"
  by (simp add: blit_def)

lemma slice_blit_same:
  "off + length src \<le> length dst \<Longrightarrow> slice off (off + length src) (blit off src dst) = src"
  by (simp add: slice_def blit_def)

lemma slice_blit_other:
  "b \<le> length dst \<Longrightarrow> b \<le> off \<or> off + length src \<le> a \<Longrightarrow>
   slice a b (blit off src dst) = slice a b dst"
  by (rule nth_equalityI) (auto simp: nth_blit)

section \<open>Sums modulo 256\<close>

text \<open>Both header checksums of the program add the bytes up and store the negated sum.\<close>

lemma sum_list_update_ring:
  "i < length xs \<Longrightarrow> sum_list (xs[i := v]) = sum_list xs - xs ! i + (v :: 'a::ab_group_add)"
  by (induction xs arbitrary: i) (auto split: nat.splits)

lemma foldl_plus_sum_list: "foldl (+) (a :: 'a::comm_monoid_add) xs = a + sum_list xs"
  by (induction xs arbitrary: a) (auto simp: ac_simps)

lemma unat_u8_less [simp]: "unat (x :: u8) < 256"
  using unsigned_less [of x] by simp

lemma foldl_mod_256:
  "a < 256 \<Longrightarrow>
   foldl (\<lambda>sum i. (sum + unat (f i)) mod 256) a is = unat (of_nat a + sum_list (map f is) :: u8)"
proof (induction "is" arbitrary: a)
  case Nil
  then show ?case by (simp add: unat_of_nat)
next
  case (Cons i "is")
  have "(of_nat ((a + unat (f i)) mod 256) :: u8) = of_nat a + f i"
    by (simp add: word_unat_eq_iff unat_of_nat unat_word_ariths mod_simps)
  with Cons.IH [of "(a + unat (f i)) mod 256"] show ?case
    by (simp add: add.assoc)
qed

section \<open>Integers on the wire\<close>

text \<open>The \<^verbatim>\<open>PutUint\<close> family of \<^verbatim>\<open>encoding/binary\<close>, as the bytes it writes.\<close>

definition le16 :: "u16 \<Rightarrow> bytes" where
  "le16 w = [ucast w, ucast (drop_bit 8 w)]"

definition be16 :: "u16 \<Rightarrow> bytes" where
  "be16 w = [ucast (drop_bit 8 w), ucast w]"

definition le32 :: "u32 \<Rightarrow> bytes" where
  "le32 w = [ucast w, ucast (drop_bit 8 w), ucast (drop_bit 16 w), ucast (drop_bit 24 w)]"

definition be32 :: "u32 \<Rightarrow> bytes" where
  "be32 w = [ucast (drop_bit 24 w), ucast (drop_bit 16 w), ucast (drop_bit 8 w), ucast w]"

definition be64 :: "u64 \<Rightarrow> bytes" where
  "be64 w = be32 (ucast (drop_bit 32 w)) @ be32 (ucast w)"

text \<open>The \<^verbatim>\<open>Uint\<close> family: the value of the two, four or eight bytes at an offset.\<close>

definition get_le16 :: "bytes \<Rightarrow> nat \<Rightarrow> u16" where
  "get_le16 b i = ucast (b ! i) OR push_bit 8 (ucast (b ! (i + 1)))"

definition get_be16 :: "bytes \<Rightarrow> nat \<Rightarrow> u16" where
  "get_be16 b i = push_bit 8 (ucast (b ! i)) OR ucast (b ! (i + 1))"

definition get_le32 :: "bytes \<Rightarrow> nat \<Rightarrow> u32" where
  "get_le32 b i =
     ucast (b ! i) OR push_bit 8 (ucast (b ! (i + 1))) OR push_bit 16 (ucast (b ! (i + 2)))
       OR push_bit 24 (ucast (b ! (i + 3)))"

definition get_be32 :: "bytes \<Rightarrow> nat \<Rightarrow> u32" where
  "get_be32 b i =
     push_bit 24 (ucast (b ! i)) OR push_bit 16 (ucast (b ! (i + 1)))
       OR push_bit 8 (ucast (b ! (i + 2))) OR ucast (b ! (i + 3))"

definition get_be64 :: "bytes \<Rightarrow> nat \<Rightarrow> u64" where
  "get_be64 b i = push_bit 32 (ucast (get_be32 b i)) OR ucast (get_be32 b (i + 4))"

lemma length_encoded [simp, wire_simps]:
  "length (le16 v) = 2" "length (be16 v) = 2" "length (le32 w) = 4" "length (be32 w) = 4"
  "length (be64 x) = 8"
  by (simp_all add: le16_def be16_def le32_def be32_def be64_def)

lemma get_le16_le16 [simp]: "get_le16 (le16 w) 0 = w"
  by (rule bit_word_eqI) (auto simp: get_le16_def le16_def bit_simps not_less)

lemma get_be16_be16 [simp]: "get_be16 (be16 w) 0 = w"
  by (rule bit_word_eqI) (auto simp: get_be16_def be16_def bit_simps not_less)

lemma get_le32_le32 [simp]: "get_le32 (le32 w) 0 = w"
proof (rule bit_word_eqI)
  fix n
  assume "n < LENGTH(32)"
  then show "bit (get_le32 (le32 w) 0) n = bit w n"
    by (cases "24 \<le> n"; cases "16 \<le> n"; cases "8 \<le> n")
      (auto simp: get_le32_def le32_def bit_simps not_less)
qed

lemma get_be32_be32 [simp]: "get_be32 (be32 w) 0 = w"
proof (rule bit_word_eqI)
  fix n
  assume "n < LENGTH(32)"
  then show "bit (get_be32 (be32 w) 0) n = bit w n"
    by (cases "24 \<le> n"; cases "16 \<le> n"; cases "8 \<le> n")
      (auto simp: get_be32_def be32_def bit_simps not_less)
qed

text \<open>
  An integer read at an offset sees only the bytes there: reading inside an append or a
  blit is a read at a shifted offset, and reading back what was put gives the value.
\<close>

lemma get_append_left [wire_simps]:
  "i + 2 \<le> length xs \<Longrightarrow> get_le16 (xs @ ys) i = get_le16 xs i"
  "i + 2 \<le> length xs \<Longrightarrow> get_be16 (xs @ ys) i = get_be16 xs i"
  "i + 4 \<le> length xs \<Longrightarrow> get_le32 (xs @ ys) i = get_le32 xs i"
  "i + 4 \<le> length xs \<Longrightarrow> get_be32 (xs @ ys) i = get_be32 xs i"
  by (simp_all add: get_le16_def get_be16_def get_le32_def get_be32_def nth_append)

lemma get_append_right [wire_simps]:
  "length xs \<le> i \<Longrightarrow> get_le16 (xs @ ys) i = get_le16 ys (i - length xs)"
  "length xs \<le> i \<Longrightarrow> get_be16 (xs @ ys) i = get_be16 ys (i - length xs)"
  "length xs \<le> i \<Longrightarrow> get_le32 (xs @ ys) i = get_le32 ys (i - length xs)"
  "length xs \<le> i \<Longrightarrow> get_be32 (xs @ ys) i = get_be32 ys (i - length xs)"
  by (simp_all add: get_le16_def get_be16_def get_le32_def get_be32_def nth_append Suc_diff_le
      flip: add_diff_assoc2)

lemma get_Cons [wire_simps]:
  "0 < i \<Longrightarrow> get_le16 (x # xs) i = get_le16 xs (i - 1)"
  "0 < i \<Longrightarrow> get_be16 (x # xs) i = get_be16 xs (i - 1)"
  "0 < i \<Longrightarrow> get_le32 (x # xs) i = get_le32 xs (i - 1)"
  "0 < i \<Longrightarrow> get_be32 (x # xs) i = get_be32 xs (i - 1)"
  using get_append_right [of "[x]" i xs] by simp_all

lemma get_le16_blit_same [wire_simps]:
  "off + 2 \<le> length b \<Longrightarrow> get_le16 (blit off (le16 w) b) off = w"
  using get_le16_le16 [of w] by (simp add: get_le16_def nth_blit)

lemma get_be16_blit_same [wire_simps]:
  "off + 2 \<le> length b \<Longrightarrow> get_be16 (blit off (be16 w) b) off = w"
  using get_be16_be16 [of w] by (simp add: get_be16_def nth_blit)

lemma get_le32_blit_same [wire_simps]:
  "off + 4 \<le> length b \<Longrightarrow> get_le32 (blit off (le32 w) b) off = w"
  using get_le32_le32 [of w] by (simp add: get_le32_def nth_blit numeral_2_eq_2)

lemma get_be32_blit_same [wire_simps]:
  "off + 4 \<le> length b \<Longrightarrow> get_be32 (blit off (be32 w) b) off = w"
  using get_be32_be32 [of w] by (simp add: get_be32_def nth_blit numeral_2_eq_2)

lemma get_blit_other [wire_simps]:
  "i + 2 \<le> length b \<Longrightarrow> i + 2 \<le> off \<or> off + length s \<le> i \<Longrightarrow>
   get_le16 (blit off s b) i = get_le16 b i"
  "i + 2 \<le> length b \<Longrightarrow> i + 2 \<le> off \<or> off + length s \<le> i \<Longrightarrow>
   get_be16 (blit off s b) i = get_be16 b i"
  "i + 4 \<le> length b \<Longrightarrow> i + 4 \<le> off \<or> off + length s \<le> i \<Longrightarrow>
   get_le32 (blit off s b) i = get_le32 b i"
  "i + 4 \<le> length b \<Longrightarrow> i + 4 \<le> off \<or> off + length s \<le> i \<Longrightarrow>
   get_be32 (blit off s b) i = get_be32 b i"
  by (auto simp: get_le16_def get_be16_def get_le32_def get_be32_def nth_blit)

lemma get_blit_inside [wire_simps]:
  "off \<le> i \<Longrightarrow> i + 2 \<le> off + length s \<Longrightarrow> off + length s \<le> length b \<Longrightarrow>
   get_le16 (blit off s b) i = get_le16 s (i - off)"
  "off \<le> i \<Longrightarrow> i + 4 \<le> off + length s \<Longrightarrow> off + length s \<le> length b \<Longrightarrow>
   get_le32 (blit off s b) i = get_le32 s (i - off)"
  by (simp_all add: get_le16_def get_le32_def nth_blit Suc_diff_le flip: add_diff_assoc2)

lemma get_list_update_other [wire_simps]:
  "j < i \<or> i + 2 \<le> j \<Longrightarrow> get_le16 (b[j := v]) i = get_le16 b i"
  "j < i \<or> i + 2 \<le> j \<Longrightarrow> get_be16 (b[j := v]) i = get_be16 b i"
  "j < i \<or> i + 4 \<le> j \<Longrightarrow> get_le32 (b[j := v]) i = get_le32 b i"
  "j < i \<or> i + 4 \<le> j \<Longrightarrow> get_be32 (b[j := v]) i = get_be32 b i"
  by (auto simp: get_le16_def get_be16_def get_le32_def get_be32_def)

text \<open>Go's \<^verbatim>\<open>%\<close> by a positive divisor has the sign of the dividend.\<close>

definition go_rem :: "int \<Rightarrow> int \<Rightarrow> int" where
  "go_rem a b = (if a < 0 then - ((- a) mod b) else a mod b)"

lemma go_rem_nonneg [simp]: "0 \<le> a \<Longrightarrow> go_rem a b = a mod b"
  by (simp add: go_rem_def)

text \<open>Go's division by a positive divisor, which truncates, and by any divisor.\<close>

definition go_quot :: "int \<Rightarrow> int \<Rightarrow> int" where
  "go_quot a b = (if a < 0 then - ((- a) div b) else a div b)"

definition go_div :: "int \<Rightarrow> int \<Rightarrow> int go" where
  "go_div a b = (if b = 0 then Inl DivideByZero else Inr (sgn a * sgn b * (\<bar>a\<bar> div \<bar>b\<bar>)))"

lemma go_quot_nonneg [simp]: "0 \<le> a \<Longrightarrow> go_quot a b = a div b"
  by (simp add: go_quot_def)

lemma go_quot_mono:
  assumes "a \<le> b" "0 < c"
  shows "go_quot a c \<le> go_quot b c"
proof (cases "a < 0 \<and> 0 \<le> b")
  case True
  then have "0 \<le> - a div c" "0 \<le> b div c" using assms(2) by (simp_all add: pos_imp_zdiv_nonneg_iff)
  with True show ?thesis by (simp add: go_quot_def)
next
  case False
  with assms show ?thesis by (auto simp: go_quot_def intro!: zdiv_mono1)
qed

lemma go_div_quot: "0 < b \<Longrightarrow> go_div a b = Inr (go_quot a b)"
  by (auto simp: go_div_def go_quot_def sgn_if)

text \<open>Go string constants are the bytes of their characters.\<close>

definition go_string :: "string \<Rightarrow> bytes" where
  "go_string s = map of_char s"

lemma length_go_string [simp, wire_simps]: "length (go_string s) = length s"
  by (simp add: go_string_def)

end
