(* ===== verification/GoIO.thy ===== *)
theory GoIO
  imports Prelude
begin

text \<open>
  Go's \<^verbatim>\<open>io\<close> as the program uses it. A connection or a \<^verbatim>\<open>bufio.Reader\<close> over one is the list
  of the bytes still to be received before the peer closes it: \<^verbatim>\<open>io.ReadFull\<close> and
  \<^verbatim>\<open>Reader.Discard\<close> take a prefix or fail at the end of it.

  The locale \<open>framing\<close> is the interface between the two packet formats of the program
  (the IVTP header of the KVM socket, the IUSB packet of the virtual-media socket) and the
  loops that read them: what a parser must promise about what the writer produced. Its
  lemmas say that a stream of written packets is read back packet by packet.
\<close>

section \<open>Errors\<close>

datatype io_err =
    EOF
  | UnexpectedEOF
  | NegativeReadOffset
  | NegativeWriteOffset
  | CacheReadOnly
  | ReadOnlyMedium
  | BrowserTimeout
  | BrowserIO
  | ContextCanceled
  | BackingFailure nat

section \<open>Reading a stream\<close>

definition read_full :: "nat \<Rightarrow> bytes \<Rightarrow> io_err + (bytes \<times> bytes)" where
  "read_full n s =
     (if length s < n then Inl (if s = [] then EOF else UnexpectedEOF)
      else Inr (take n s, drop n s))"

definition discard :: "nat \<Rightarrow> bytes \<Rightarrow> io_err + bytes" where
  "discard n s = (if length s < n then Inl EOF else Inr (drop n s))"

lemma read_full_append [simp]: "length xs = n \<Longrightarrow> read_full n (xs @ s) = Inr (xs, s)"
  by (simp add: read_full_def)

lemma read_full_whole [simp]: "length xs = n \<Longrightarrow> read_full n xs = Inr (xs, [])"
  by (simp add: read_full_def)

lemma read_full_0 [simp]: "read_full 0 s = Inr ([], s)"
  by (simp add: read_full_def)

lemma read_full_Inr:
  "read_full n s = Inr (xs, s') \<Longrightarrow> s = xs @ s' \<and> length xs = n"
  by (auto simp: read_full_def split: if_splits)

lemma read_full_short: "length s < n \<Longrightarrow> \<exists>e. read_full n s = Inl e"
  by (simp add: read_full_def)

lemma discard_append [simp]: "length xs = n \<Longrightarrow> discard n (xs @ s) = Inr s"
  by (simp add: discard_def)

lemma discard_0 [simp]: "discard 0 s = Inr s"
  by (simp add: discard_def)

lemma discard_Inr: "discard n s = Inr s' \<Longrightarrow> s' = drop n s \<and> n \<le> length s"
  by (auto simp: discard_def split: if_splits)

section \<open>Framing\<close>

text \<open>
  A parser \<open>dec\<close> of packets that \<open>enc\<close> writes: it reads back what was written, whatever
  follows, for every packet the writer may send (\<open>wf\<close>), and it consumes at least one byte.
\<close>

locale framing =
  fixes enc :: "'p \<Rightarrow> bytes"
    and dec :: "bytes \<Rightarrow> 'e + ('p \<times> bytes)"
    and wf :: "'p \<Rightarrow> bool"
  assumes dec_enc: "wf p \<Longrightarrow> dec (enc p @ s) = Inr (p, s)"
    and dec_consumes: "dec s = Inr (p, s') \<Longrightarrow> length s' < length s"
begin

lemma enc_nonempty: "wf p \<Longrightarrow> enc p \<noteq> []"
proof
  assume "wf p" and "enc p = []"
  then have "dec [] = Inr (p, [])"
    using dec_enc [of p "[]"] by simp
  from dec_consumes [OF this] show False by simp
qed

lemma enc_inj: "wf p \<Longrightarrow> wf q \<Longrightarrow> enc p @ s = enc q @ t \<Longrightarrow> p = q \<and> s = t"
  by (metis dec_enc prod.inject sum.inject(2))

text \<open>Reading \<open>n\<close> packets in a row.\<close>

primrec dec_n :: "nat \<Rightarrow> bytes \<Rightarrow> 'e + ('p list \<times> bytes)" where
  "dec_n 0 s = Inr ([], s)"
| "dec_n (Suc n) s =
     (case dec s of Inl e \<Rightarrow> Inl e
      | Inr (p, s') \<Rightarrow> (case dec_n n s' of Inl e \<Rightarrow> Inl e | Inr (ps, t) \<Rightarrow> Inr (p # ps, t)))"

lemma dec_n_concat:
  "\<forall>p \<in> set ps. wf p \<Longrightarrow> dec_n (length ps) (concat (map enc ps) @ s) = Inr (ps, s)"
  by (induction ps) (simp_all add: dec_enc)

lemma concat_enc_inj:
  assumes "\<forall>p \<in> set ps. wf p" "\<forall>q \<in> set qs. wf q"
    and "concat (map enc ps) = concat (map enc qs)"
  shows "ps = qs"
  using assms
proof (induction ps arbitrary: qs)
  case Nil
  then show ?case by (cases qs) (auto dest: enc_nonempty)
next
  case (Cons p ps)
  then obtain q qs' where qs: "qs = q # qs'"
    by (cases qs) (auto dest: enc_nonempty)
  with Cons.prems have "p = q \<and> concat (map enc ps) = concat (map enc qs')"
    by (intro enc_inj) auto
  with Cons.IH [of qs'] Cons.prems qs show ?case by simp
qed

end

end
