(* ===== verification/Ivtp.thy ===== *)
theory Ivtp
  imports GoIO
begin

text \<open>
  The IVTP packet header of the KVM video socket (\<^verbatim>\<open>internal/kvm/ivtp.go\<close>) and the
  fixed-width field writer used by the session packet. An IVTP message is the eight-byte
  header followed by as many payload bytes as its size field says.
\<close>

section \<open>Header\<close>

definition HeaderSize :: nat where
  "HeaderSize = 8"

definition opHIDPkt :: u16 where "opHIDPkt = 1"
definition opResumeRedirection :: u16 where "opResumeRedirection = 6"
definition opStopSession :: u16 where "opStopSession = 8"
definition opValidateVideo :: u16 where "opValidateVideo = 18"
definition opValidateVideoResp :: u16 where "opValidateVideoResp = 19"
definition opSessionAccepted :: u16 where "opSessionAccepted = 23"
definition opVideoFragment :: u16 where "opVideoFragment = 25"
definition opKeepAlive :: u16 where "opKeepAlive = 57"
definition opConnectionComplete :: u16 where "opConnectionComplete = 58"

lemmas ivtp_opcodes =
  opHIDPkt_def opResumeRedirection_def opStopSession_def opValidateVideo_def
  opValidateVideoResp_def opSessionAccepted_def opVideoFragment_def opKeepAlive_def
  opConnectionComplete_def

definition VideoPacketSize :: nat where
  "VideoPacketSize = 373"

record ivtp_header =
  Type :: u16
  Size :: u32
  Status :: u16

definition ivtp_marshal :: "ivtp_header \<Rightarrow> bytes" where
  "ivtp_marshal h =
     (let b = replicate HeaderSize 0;
          b = blit 0 (le16 (Type h)) b;
          b = blit 2 (le32 (Size h)) b
      in blit 6 (le16 (Status h)) b)"

definition readHeader :: "bytes \<Rightarrow> io_err + (ivtp_header \<times> bytes)" where
  "readHeader r =
     (case read_full HeaderSize r of
        Inl e \<Rightarrow> Inl e
      | Inr (b, r') \<Rightarrow>
          Inr (\<lparr>Type = get_le16 b 0, Size = get_le32 b 2, Status = get_le16 b 6\<rparr>, r'))"

lemma length_ivtp_marshal [simp]: "length (ivtp_marshal h) = 8"
  by (simp add: ivtp_marshal_def HeaderSize_def)

lemma readHeader_marshal [simp]: "readHeader (ivtp_marshal h @ r) = Inr (h, r)"
  by (simp add: readHeader_def HeaderSize_def, simp add: ivtp_marshal_def HeaderSize_def wire_simps)

lemma readHeader_consumes: "readHeader r = Inr (h, r') \<Longrightarrow> length r' + 8 = length r"
  by (auto simp: readHeader_def HeaderSize_def dest: read_full_Inr split: sum.splits)

lemma readHeader_short: "length r < 8 \<Longrightarrow> \<exists>e. readHeader r = Inl e"
  using read_full_short [of r 8] by (auto simp: readHeader_def HeaderSize_def)

interpretation ivtp: framing ivtp_marshal readHeader "\<lambda>_. True"
  by unfold_locales (auto dest: readHeader_consumes)

section \<open>Fixed-width fields\<close>

definition putFixed :: "bytes \<Rightarrow> bytes \<Rightarrow> bytes" where
  "putFixed dst s =
     (let n = min (length dst) (length s)
      in blit n (replicate (length dst - n) 0) (blit 0 s dst))"

lemma putFixed_eq:
  "putFixed dst s = take (length dst) s @ replicate (length dst - length s) 0"
  by (auto simp: putFixed_def Let_def blit_def min_def)

lemma length_putFixed [simp]: "length (putFixed dst s) = length dst"
  by (simp add: putFixed_eq)

end
