(* ===== verification/GoStrings.thy ===== *)
theory GoStrings
  imports Prelude
begin

text \<open>
  The string functions of Go's standard library the program parses with: \<^verbatim>\<open>TrimSpace\<close>,
  \<^verbatim>\<open>IndexByte\<close>, \<^verbatim>\<open>Atoi\<close> and \<^verbatim>\<open>ToUpper\<close>. A string is its bytes.
\<close>

section \<open>Trimming\<close>

text \<open>
  The UTF-8 encodings of the code points \<^verbatim>\<open>unicode.IsSpace\<close> accepts. A string starts or ends
  with such a code point exactly if it starts or ends with one of these byte strings.
\<close>

definition space_encodings :: "bytes list" where
  "space_encodings =
     map (\<lambda>b. [b]) [9, 10, 11, 12, 13, 32]
       @ [[0xC2, 0x85], [0xC2, 0xA0], [0xE1, 0x9A, 0x80]]
       @ map (\<lambda>b. [0xE2, 0x80, 0x80 + of_nat b]) ([0..<11] @ [0x28, 0x29, 0x2F])
       @ [[0xE2, 0x81, 0x9F], [0xE3, 0x80, 0x80]]"

definition starts_with :: "bytes \<Rightarrow> bytes \<Rightarrow> bool" where
  "starts_with p s = (take (length p) s = p)"

function trim_left :: "bytes list \<Rightarrow> bytes \<Rightarrow> bytes" where
  "trim_left ps s =
     (case find (\<lambda>p. p \<noteq> [] \<and> starts_with p s) ps of
        None \<Rightarrow> s
      | Some p \<Rightarrow> trim_left ps (drop (length p) s))"
  by pat_completeness auto
termination
proof (relation "measure (\<lambda>(ps, s). length s)")
  fix ps s p
  assume "find (\<lambda>p. p \<noteq> [] \<and> starts_with p s) ps = Some p"
  then have "p \<noteq> []" "take (length p) s = p"
    by (auto simp: find_Some_iff starts_with_def)
  then show "((ps, drop (length p) s), ps, s) \<in> measure (\<lambda>(ps, s). length s)"
    by (cases s) auto
qed simp

declare trim_left.simps [simp del]

definition TrimSpace :: "bytes \<Rightarrow> bytes" where
  "TrimSpace s =
     rev (trim_left (map rev space_encodings) (rev (trim_left space_encodings s)))"

lemma trim_left_id:
  assumes "\<forall>p \<in> set ps. p = [] \<or> \<not> starts_with p s"
  shows "trim_left ps s = s"
proof -
  have "find (\<lambda>p. p \<noteq> [] \<and> starts_with p s) ps = None"
    using assms by (auto simp: find_None_iff)
  then show ?thesis by (subst trim_left.simps) simp
qed

lemma length_trim_left: "length (trim_left ps s) \<le> length s"
proof (induction ps s rule: trim_left.induct)
  case (1 ps s)
  then show ?case
    by (subst trim_left.simps) (auto split: option.splits intro: le_trans)
qed

lemma starts_with_simps [simp]:
  "starts_with [] s" "\<not> starts_with (a # p) []" "starts_with (a # p) (b # s) = (a = b \<and> starts_with p s)"
  by (auto simp: starts_with_def)

text \<open>A string that starts and ends with a printable ASCII character is not trimmed.\<close>

definition printable :: "u8 \<Rightarrow> bool" where
  "printable c = (0x21 \<le> c \<and> c < 0x80)"

lemma space_ends:
  "list_all (\<lambda>p. p \<noteq> [] \<and> \<not> printable (hd p) \<and> \<not> printable (last p)) space_encodings"
  by code_simp

lemma TrimSpace_id:
  assumes "s \<noteq> []" "printable (hd s)" "printable (last s)"
  shows "TrimSpace s = s"
proof -
  have e: "p \<noteq> [] \<and> \<not> printable (hd p) \<and> \<not> printable (last p)" if "p \<in> set space_encodings" for p
    using space_ends that by (auto simp: list_all_iff)
  have "\<not> starts_with p s" if "p \<in> set space_encodings" for p
    using e [OF that] assms(1,2) by (cases p; cases s) auto
  then have 1: "trim_left space_encodings s = s" by (intro trim_left_id) blast
  have "\<not> starts_with (rev p) (rev s)" if "p \<in> set space_encodings" for p
    using e [OF that] assms(1,3) by (cases p rule: rev_cases; cases s rule: rev_cases) auto
  then have "trim_left (map rev space_encodings) (rev s) = rev s" by (intro trim_left_id) auto
  with 1 show ?thesis by (simp add: TrimSpace_def)
qed

section \<open>Searching\<close>

fun indexByte :: "bytes \<Rightarrow> u8 \<Rightarrow> nat option" where
  "indexByte [] c = None"
| "indexByte (x # b) c = (if x = c then Some 0 else map_option Suc (indexByte b c))"

lemma indexByte_None: "indexByte b c = None \<longleftrightarrow> c \<notin> set b"
  by (induction b) auto

lemma indexByte_Some:
  "indexByte b c = Some i \<Longrightarrow> i < length b \<and> b ! i = c \<and> c \<notin> set (take i b)"
  by (induction b arbitrary: i) (auto split: if_splits)

section \<open>Decimal integers\<close>

definition is_digit :: "u8 \<Rightarrow> bool" where
  "is_digit c = (0x30 \<le> c \<and> c \<le> 0x39)"

fun digits_value :: "bytes \<Rightarrow> nat \<Rightarrow> nat option" where
  "digits_value [] acc = Some acc"
| "digits_value (c # cs) acc =
     (if is_digit c then digits_value cs (acc * 10 + (unat c - 0x30)) else None)"

text \<open>\<^verbatim>\<open>strconv.Atoi\<close>: a sign, at least one digit, and a value that fits in 64 bits.\<close>

definition Atoi :: "bytes \<Rightarrow> int option" where
  "Atoi s =
     (let (neg, ds) = (case s of [] \<Rightarrow> (False, [])
                       | c # cs \<Rightarrow> if c = 0x2D then (True, cs) else if c = 0x2B then (False, cs)
                                   else (False, s))
      in if ds = [] then None
         else case digits_value ds 0 of
                None \<Rightarrow> None
              | Some n \<Rightarrow>
                  (if neg then if n \<le> 2 ^ 63 then Some (- int n) else None
                   else if n < 2 ^ 63 then Some (int n) else None))"

section \<open>Upper case\<close>

text \<open>\<^verbatim>\<open>strings.ToUpper\<close> on ASCII strings.\<close>

definition ToUpper :: "bytes \<Rightarrow> bytes" where
  "ToUpper s = map (\<lambda>c. if 0x61 \<le> c \<and> c \<le> 0x7A then c - 0x20 else c) s"

lemma length_ToUpper [simp]: "length (ToUpper s) = length s"
  by (simp add: ToUpper_def)

section \<open>Printing integers\<close>

text \<open>\<open>decimal\<close> is the verb \<^verbatim>\<open>%d\<close>.\<close>

fun decimal_nat :: "nat \<Rightarrow> bytes" where
  "decimal_nat n = (if n < 10 then [] else decimal_nat (n div 10)) @ [0x30 + of_nat (n mod 10)]"

definition decimal :: "int \<Rightarrow> bytes" where
  "decimal i = (if i < 0 then 0x2D # decimal_nat (nat (- i)) else decimal_nat (nat i))"

declare decimal_nat.simps [simp del]

lemma digits_value_append:
  "digits_value (a @ b) acc = (case digits_value a acc of None \<Rightarrow> None | Some n \<Rightarrow> digits_value b n)"
  by (induction a arbitrary: acc) auto

lemma digit_of: "n < 10 \<Longrightarrow> is_digit (0x30 + of_nat n) \<and> unat (0x30 + of_nat n :: u8) - 0x30 = n"
  by (simp add: is_digit_def word_le_nat_alt unat_word_ariths unat_of_nat)

lemma digits_value_decimal: "digits_value (decimal_nat n) 0 = Some n"
proof (induction n rule: decimal_nat.induct)
  case (1 n)
  have d: "digits_value [0x30 + of_nat (n mod 10)] acc = Some (acc * 10 + n mod 10)" for acc
    using digit_of [of "n mod 10"] by simp
  show ?case
  proof (cases "n < 10")
    case True
    then show ?thesis using d [of 0] by (subst decimal_nat.simps) simp
  next
    case False
    then show ?thesis using 1 d by (subst decimal_nat.simps) (simp add: digits_value_append)
  qed
qed

lemma decimal_nat_digits: "list_all is_digit (decimal_nat n) \<and> decimal_nat n \<noteq> []"
proof (induction n rule: decimal_nat.induct)
  case (1 n)
  then show ?case using digit_of [of "n mod 10"] by (cases "n < 10"; subst (1 2) decimal_nat.simps) auto
qed

lemma Atoi_decimal: "n < 2 ^ 63 \<Longrightarrow> Atoi (decimal_nat n) = Some (int n)"
proof -
  assume n: "n < 2 ^ 63"
  obtain c cs where c: "decimal_nat n = c # cs" "is_digit c"
    using decimal_nat_digits [of n] by (cases "decimal_nat n") auto
  then have "c \<noteq> 0x2D" "c \<noteq> 0x2B" by (auto simp: is_digit_def)
  then show ?thesis
    using digits_value_decimal [of n] n unfolding Atoi_def c by simp
qed

end
