(* ===== verification/KvmWeb.thy ===== *)
theory KvmWeb
  imports Ivtp GoStrings "HOL-Library.AList"
begin

text \<open>
  The web login of the KVM client and the packet that presents its token
  (\<^verbatim>\<open>internal/kvm/session.go\<close>). The two HTTP exchanges are parameters: what the BMC answers
  to the login and, given the session cookie, to the request for the launch file. The
  regular expressions are written out as the scans they denote: both have at most one way
  to match at a position.
\<close>

section \<open>The two patterns\<close>

definition argument_open :: bytes where "argument_open = go_string ''<argument>''"
definition argument_close :: bytes where "argument_close = go_string ''</argument>''"

text \<open>\<^verbatim>\<open><argument>([^<]*)</argument>\<close> at the start of a string: the group and what follows.\<close>

definition match_arg :: "bytes \<Rightarrow> (bytes \<times> bytes) option" where
  "match_arg s =
     (if starts_with argument_open s then
        (let s = drop (length argument_open) s;
             group = takeWhile (\<lambda>c. c \<noteq> 0x3C) s;
             s = dropWhile (\<lambda>c. c \<noteq> 0x3C) s
         in if starts_with argument_close s then Some (group, drop (length argument_close) s)
            else None)
      else None)"

lemma match_arg_shorter: "match_arg s = Some (g, r) \<Longrightarrow> length r < length s"
proof -
  assume m: "match_arg s = Some (g, r)"
  let ?t = "dropWhile (\<lambda>c. c \<noteq> 0x3C) (drop (length argument_open) s)"
  have r: "r = drop (length argument_close) ?t" and sw: "starts_with argument_open s"
    using m by (auto simp: match_arg_def Let_def split: if_splits)
  have "length r \<le> length (drop (length argument_open) s)"
    unfolding r using length_dropWhile_le [of "\<lambda>c. c \<noteq> 0x3C" "drop (length argument_open) s"]
    by simp
  moreover have "length argument_open \<le> length s"
  proof -
    have "length (take (length argument_open) s) = length argument_open"
      using sw by (metis starts_with_def)
    then show ?thesis by simp
  qed
  ultimately show ?thesis
    by (simp add: argument_open_def)
qed

function find_args :: "bytes \<Rightarrow> bytes list" where
  "find_args [] = []"
| "find_args (c # s) =
     (case match_arg (c # s) of
        Some (g, r) \<Rightarrow> g # find_args r
      | None \<Rightarrow> find_args s)"
  by pat_completeness auto
termination
  by (relation "measure length") (auto dest: match_arg_shorter)

declare find_args.simps(2) [simp del]

definition is_ws :: "u8 \<Rightarrow> bool" where
  "is_ws c = (c \<in> {9, 10, 12, 13, 32})"

text \<open>\<^verbatim>\<open>'SESSION_COOKIE'\s*:\s*'([^']*)'\<close> at the start of a string: the group.\<close>

definition match_cookie :: "bytes \<Rightarrow> bytes option" where
  "match_cookie s =
     (let key = [0x27] @ go_string ''SESSION_COOKIE'' @ [0x27]
      in if starts_with key s then
           (case dropWhile is_ws (drop (length key) s) of
              [] \<Rightarrow> None
            | c # s \<Rightarrow>
                if c \<noteq> 0x3A then None
                else case dropWhile is_ws s of
                       [] \<Rightarrow> None
                     | c # s \<Rightarrow>
                         if c \<noteq> 0x27 then None
                         else if 0x27 \<in> set s then Some (takeWhile (\<lambda>c. c \<noteq> 0x27) s) else None)
         else None)"

fun find_cookie :: "bytes \<Rightarrow> bytes option" where
  "find_cookie [] = None"
| "find_cookie (c # s) =
     (case match_cookie (c # s) of Some g \<Rightarrow> Some g | None \<Rightarrow> find_cookie s)"

fun contains :: "bytes \<Rightarrow> bytes \<Rightarrow> bool" where
  "contains [] p = (p = [])"
| "contains (c # s) p = (starts_with p (c # s) \<or> contains s p)"

section \<open>Login\<close>

type_synonym web_args = "(bytes \<times> bytes) list"

definition TrimPrefix :: "bytes \<Rightarrow> bytes \<Rightarrow> bytes" where
  "TrimPrefix s p = (if starts_with p s then drop (length p) s else s)"

fun pair_args :: "bytes list \<Rightarrow> web_args \<Rightarrow> web_args" where
  "pair_args (n # v # ms) out =
     pair_args ms (AList.update (TrimPrefix (TrimSpace n) [0x2D]) (TrimSpace v) out)"
| "pair_args _ out = out"

definition parseJNLPArgs :: "bytes \<Rightarrow> web_args" where
  "parseJNLPArgs body = pair_args (find_args body) []"

datatype web_err =
  WebLoginHTTP | NoSessionCookie | LaunchHTTP | SessionExpired | NoKvmToken

definition FetchLaunchArgs ::
  "bytes option \<Rightarrow> (bytes \<Rightarrow> bytes option) \<Rightarrow> web_err + (web_args \<times> bytes)" where
  "FetchLaunchArgs create jnlp =
     (case create of
        None \<Rightarrow> Inl WebLoginHTTP
      | Some body \<Rightarrow>
          (case find_cookie body of
             None \<Rightarrow> Inl NoSessionCookie
           | Some cookie \<Rightarrow>
               (case jnlp cookie of
                  None \<Rightarrow> Inl LaunchHTTP
                | Some body \<Rightarrow>
                    if contains body (go_string ''session_expired'') then Inl SessionExpired
                    else Inr (parseJNLPArgs body, cookie))))"

definition web_arg :: "web_args \<Rightarrow> string \<Rightarrow> bytes" where
  "web_arg args k = (case map_of args (go_string k) of None \<Rightarrow> [] | Some v \<Rightarrow> v)"

record web_session =
  Token :: bytes
  Cookie :: bytes

definition Login :: "bytes option \<Rightarrow> (bytes \<Rightarrow> bytes option) \<Rightarrow> web_err + web_session" where
  "Login create jnlp =
     (case FetchLaunchArgs create jnlp of
        Inl e \<Rightarrow> Inl e
      | Inr (args, cookie) \<Rightarrow>
          (let token = web_arg args ''kvmtoken''
           in if token = [] then Inl NoKvmToken
              else let webcookie = web_arg args ''webcookie'';
                       webcookie = (if webcookie = [] then cookie else webcookie)
                   in Inr \<lparr>Token = token, Cookie = webcookie\<rparr>))"

text \<open>The web sessions a logout request was sent for.\<close>

definition Logout :: "bytes \<Rightarrow> bytes list" where
  "Logout cookie = (if cookie = [] then [] else [cookie])"

section \<open>The validate packet\<close>

definition put_field :: "nat \<Rightarrow> nat \<Rightarrow> bytes \<Rightarrow> bytes \<Rightarrow> bytes" where
  "put_field off width s body = blit off (putFixed (slice off (off + width) body) s) body"

definition buildValidatePacket :: "bytes \<Rightarrow> bytes \<Rightarrow> bytes \<Rightarrow> bytes \<Rightarrow> bytes" where
  "buildValidatePacket token clientIP username mac =
     (let tokenField = 130; ipField = 65; userField = 129; macField = 49;
          h = \<lparr>Type = opValidateVideo, Size = of_nat VideoPacketSize, Status = 0\<rparr>;
          buf = replicate (HeaderSize + VideoPacketSize) 0;
          buf = blit 0 (ivtp_marshal h) buf;
          base = HeaderSize;
          buf = buf[base := 0];
          buf = put_field (base + 1) (tokenField - 1) token buf;
          off = base + tokenField;
          buf = put_field off ipField clientIP buf;
          off = off + ipField;
          buf = put_field off userField username buf;
          off = off + userField
      in put_field off macField mac buf)"

section \<open>Parsing what a launch file says\<close>

definition arg_element :: "bytes \<Rightarrow> bytes" where
  "arg_element v = argument_open @ v @ argument_close"

definition render_arg :: "bytes \<Rightarrow> bytes \<times> bytes \<Rightarrow> bytes" where
  "render_arg sep = (\<lambda>(n, v). arg_element (0x2D # n) @ sep @ arg_element v @ sep)"

lemma starts_with_append [simp]: "starts_with p (p @ s)"
  by (simp add: starts_with_def)

lemma match_arg_element: "0x3C \<notin> set v \<Longrightarrow> match_arg (arg_element v @ s) = Some (v, s)"
proof -
  assume v: "0x3C \<notin> set v"
  then have "takeWhile (\<lambda>c. c \<noteq> 0x3C) (v @ argument_close @ s) = v"
    and "dropWhile (\<lambda>c. c \<noteq> 0x3C) (v @ argument_close @ s) = argument_close @ s"
    by (auto simp: takeWhile_append dropWhile_append argument_close_def go_string_def)
  then show ?thesis
    by (simp add: match_arg_def arg_element_def Let_def)
qed

lemma find_args_element: "0x3C \<notin> set v \<Longrightarrow> find_args (arg_element v @ s) = v # find_args s"
proof -
  assume v: "0x3C \<notin> set v"
  obtain c t where "arg_element v @ s = c # t"
    by (cases "arg_element v @ s") (auto simp: arg_element_def argument_open_def go_string_def)
  then show ?thesis
    using match_arg_element [OF v, of s] by (simp add: find_args.simps(2))
qed

lemma find_args_skip: "0x3C \<notin> set sep \<Longrightarrow> find_args (sep @ s) = find_args s"
proof (induction sep)
  case (Cons c sep)
  then have "match_arg ((c # sep) @ s) = None"
    by (auto simp: match_arg_def starts_with_def argument_open_def go_string_def)
  with Cons show ?case by (simp add: find_args.simps(2))
qed simp

lemma find_args_render:
  assumes "0x3C \<notin> set sep" "\<forall>(n, v) \<in> set ps. 0x3C \<notin> set n \<and> 0x3C \<notin> set v"
  shows "find_args (concat (map (render_arg sep) ps)) = concat (map (\<lambda>(n, v). [0x2D # n, v]) ps)"
  using assms(2)
proof (induction ps)
  case (Cons p ps)
  obtain n v where p: "p = (n, v)" by force
  with Cons have "0x3C \<notin> set (0x2D # n)" "0x3C \<notin> set v" by auto
  with Cons p assms(1) show ?case
    by (simp add: render_arg_def find_args_element find_args_skip)
qed simp

lemma map_of_pair_args:
  assumes "\<forall>(n, v) \<in> set ps. TrimSpace (0x2D # n) = 0x2D # n \<and> TrimSpace v = v"
  shows "map_of (pair_args (concat (map (\<lambda>(n, v). [0x2D # n, v]) ps)) out) = map_of out ++ map_of (rev ps)"
  using assms
proof (induction ps arbitrary: out)
  case (Cons p ps)
  obtain n v where p: "p = (n, v)" by force
  have "TrimPrefix (0x2D # n) [0x2D] = n"
    by (simp add: TrimPrefix_def starts_with_def)
  with Cons p show ?case
    by (simp add: update_conv')
qed simp

text \<open>
  Parsing a launch file that lists arguments gives back the arguments: for any names and
  values without \<open><\<close> or surrounding white space, separated by any text without \<open><\<close>, a lookup
  in the parsed map returns the last value listed under the name.
\<close>

theorem launch_args_roundtrip:
  assumes "0x3C \<notin> set sep" "\<forall>(n, v) \<in> set ps. 0x3C \<notin> set n \<and> 0x3C \<notin> set v"
    and "\<forall>(n, v) \<in> set ps. TrimSpace (0x2D # n) = 0x2D # n \<and> TrimSpace v = v"
  shows "map_of (parseJNLPArgs (sep @ concat (map (render_arg sep) ps))) = map_of (rev ps)"
  using assms
  by (simp add: parseJNLPArgs_def find_args_skip find_args_render map_of_pair_args)

lemma launch_args_roundtrip_witness:
  "map_of (parseJNLPArgs ([32] @ concat (map (render_arg [32]) [([97], [49]), ([98], [50])]))) [98] = Some [50]"
proof -
  have "\<forall>(n, v) \<in> set [([97], [49]), ([98], [50])]. TrimSpace (0x2D # n) = 0x2D # n \<and> TrimSpace v = v"
    by code_simp
  then show ?thesis
    using launch_args_roundtrip [of "[32]" "[([97], [49]), ([98], [50])]"] by simp
qed

section \<open>The layout of the validate packet\<close>

definition field :: "nat \<Rightarrow> bytes \<Rightarrow> bytes" where
  "field k s = take k s @ replicate (k - length s) 0"

lemma length_field [simp]: "length (field k s) = k"
  by (simp add: field_def)

lemma put_field_append:
  assumes "length xs = off"
  shows "put_field off w s (xs @ replicate w 0 @ ys) = xs @ field w s @ ys"
  using assms by (simp add: put_field_def putFixed_eq field_def slice_def blit_def)

text \<open>
  The packet that presents the token is 381 bytes long: a header of type 18 and size 373,
  the token type 0, and the token, the client's address, the user name and the MAC address
  in fields of 129, 65, 129 and 49 bytes, each cut or padded with zeros; no field reaches
  into the next.
\<close>

theorem validate_packet_layout:
  "buildValidatePacket token ip user mac =
     ivtp_marshal \<lparr>Type = 18, Size = 373, Status = 0\<rparr>
       @ [0] @ field 129 token @ field 65 ip @ field 129 user @ field 49 mac
   \<and> length (buildValidatePacket token ip user mac) = 381"
proof -
  let ?m = "ivtp_marshal \<lparr>Type = 18, Size = 373, Status = 0\<rparr>"
  have z: "replicate (8 + VideoPacketSize) 0 = replicate 8 0 @ replicate 1 0 @ replicate 129 (0 :: u8)
      @ replicate 65 0 @ replicate 129 0 @ replicate 49 0 @ []"
    unfolding VideoPacketSize_def append_Nil2 replicate_add [symmetric] by simp
  have m: "blit 0 ?m (replicate 8 0 @ r) = ?m @ r" for r
    by (simp add: blit_def)
  have ty: "(?m @ replicate 1 0 @ r)[8 := 0] = ?m @ [0] @ r" for r
    by (simp add: list_update_append)
  have t: "put_field (8 + 1) (130 - 1) token (?m @ [0] @ replicate 129 0 @ r) = ?m @ [0] @ field 129 token @ r"
    for r using put_field_append [of "?m @ [0]" 9 129 token r] by simp
  have i: "put_field (8 + 130) 65 ip (?m @ [0] @ field 129 token @ replicate 65 0 @ r)
      = ?m @ [0] @ field 129 token @ field 65 ip @ r" for r
    using put_field_append [of "?m @ [0] @ field 129 token" 138 65 ip r] by simp
  have u: "put_field (8 + 130 + 65) 129 user (?m @ [0] @ field 129 token @ field 65 ip @ replicate 129 0 @ r)
      = ?m @ [0] @ field 129 token @ field 65 ip @ field 129 user @ r" for r
    using put_field_append [of "?m @ [0] @ field 129 token @ field 65 ip" 203 129 user r] by simp
  have a: "put_field (8 + 130 + 65 + 129) 49 mac
        (?m @ [0] @ field 129 token @ field 65 ip @ field 129 user @ replicate 49 0)
      = ?m @ [0] @ field 129 token @ field 65 ip @ field 129 user @ field 49 mac"
    using put_field_append [of "?m @ [0] @ field 129 token @ field 65 ip @ field 129 user" 332 49 mac "[]"]
    by simp
  have "\<lparr>Type = opValidateVideo, Size = of_nat VideoPacketSize, Status = 0\<rparr>
      = \<lparr>Type = 18, Size = 373, Status = 0\<rparr>"
    by (simp add: opValidateVideo_def VideoPacketSize_def)
  then have "buildValidatePacket token ip user mac =
      ?m @ [0] @ field 129 token @ field 65 ip @ field 129 user @ field 49 mac"
    by (simp only: buildValidatePacket_def Let_def z m HeaderSize_def ty t i u a append_Nil2)
  then show ?thesis by simp
qed

end
