(* ===== verification/UsbHid.thy ===== *)
theory UsbHid
  imports Prelude
begin

text \<open>
  USB HID usage codes and the keysym tables of \<^verbatim>\<open>internal/kvm/usbhid.go\<close>, with the
  clipboard's character table of \<^verbatim>\<open>internal/kvm/hid.go\<close>. A Go map literal is an
  association list; a lookup of a missing key yields the zero byte.
\<close>

section \<open>Modifiers\<close>

definition modLeftCtrl :: u8 where "modLeftCtrl = 0x01"
definition modLeftShift :: u8 where "modLeftShift = 0x02"
definition modLeftAlt :: u8 where "modLeftAlt = 0x04"
definition modLeftGUI :: u8 where "modLeftGUI = 0x08"
definition modRightCtrl :: u8 where "modRightCtrl = 0x10"
definition modRightShift :: u8 where "modRightShift = 0x20"
definition modRightAlt :: u8 where "modRightAlt = 0x40"
definition modRightGUI :: u8 where "modRightGUI = 0x80"

lemmas mod_bits =
  modLeftCtrl_def modLeftShift_def modLeftAlt_def modLeftGUI_def
  modRightCtrl_def modRightShift_def modRightAlt_def modRightGUI_def

definition modifierKeysym :: "(u32 \<times> u8) list" where
  "modifierKeysym =
    [(0xffe1, modLeftShift), (0xffe2, modRightShift), (0xffe3, modLeftCtrl),
     (0xffe4, modRightCtrl), (0xffe9, modLeftAlt), (0xffea, modRightAlt),
     (0xfe03, modRightAlt), (0xffeb, modLeftGUI), (0xffec, modRightGUI),
     (0xffe7, modLeftGUI), (0xffe8, modRightGUI)]"

section \<open>Keys\<close>

text \<open>A character keysym is the character's code.\<close>

definition ksym :: "char \<Rightarrow> u32" where
  "ksym c = of_char c"

definition usbUsage_literal :: "(u32 \<times> u8) list" where
  "usbUsage_literal =
    [(ksym CHR ''1'', 0x1e), (ksym CHR ''2'', 0x1f), (ksym CHR ''3'', 0x20),
     (ksym CHR ''4'', 0x21), (ksym CHR ''5'', 0x22), (ksym CHR ''6'', 0x23),
     (ksym CHR ''7'', 0x24), (ksym CHR ''8'', 0x25), (ksym CHR ''9'', 0x26),
     (ksym CHR ''0'', 0x27),
     (ksym CHR ''!'', 0x1e), (ksym CHR ''@'', 0x1f), (ksym CHR ''#'', 0x20),
     (ksym CHR ''$'', 0x21), (ksym CHR ''%'', 0x22), (ksym CHR ''^'', 0x23),
     (ksym CHR ''&'', 0x24), (ksym CHR ''*'', 0x25), (ksym CHR ''('', 0x26),
     (ksym CHR '')'', 0x27),
     (0xff0d, 0x28), (0xff1b, 0x29), (0xff08, 0x2a), (0xff09, 0x2b), (ksym CHR '' '', 0x2c),
     (ksym CHR ''-'', 0x2d), (ksym CHR ''_'', 0x2d), (ksym CHR ''='', 0x2e),
     (ksym CHR ''+'', 0x2e), (ksym CHR ''['', 0x2f), (ksym CHR ''{'', 0x2f),
     (ksym CHR '']'', 0x30), (ksym CHR ''}'', 0x30), (ksym (CHR 0x5C), 0x31),
     (ksym CHR ''|'', 0x31), (ksym CHR '';'', 0x33), (ksym CHR '':'', 0x33),
     (ksym (CHR 0x27), 0x34), (ksym (CHR 0x22), 0x34), (ksym (CHR 0x60), 0x35),
     (ksym CHR ''~'', 0x35), (ksym CHR '','', 0x36), (ksym CHR ''<'', 0x36),
     (ksym CHR ''.'', 0x37), (ksym CHR ''>'', 0x37), (ksym CHR ''/'', 0x38),
     (ksym CHR ''?'', 0x38),
     (0xffe5, 0x39),
     (0xffbe, 0x3a), (0xffbf, 0x3b), (0xffc0, 0x3c), (0xffc1, 0x3d), (0xffc2, 0x3e),
     (0xffc3, 0x3f), (0xffc4, 0x40), (0xffc5, 0x41), (0xffc6, 0x42), (0xffc7, 0x43),
     (0xffc8, 0x44), (0xffc9, 0x45),
     (0xff61, 0x46), (0xff14, 0x47), (0xff13, 0x48), (0xff63, 0x49), (0xff50, 0x4a),
     (0xff55, 0x4b), (0xffff, 0x4c), (0xff57, 0x4d), (0xff56, 0x4e), (0xff53, 0x4f),
     (0xff51, 0x50), (0xff54, 0x51), (0xff52, 0x52),
     (0xff7f, 0x53),
     (0xffaf, 0x54), (0xffaa, 0x55), (0xffad, 0x56), (0xffab, 0x57), (0xff8d, 0x58),
     (0xffb1, 0x59), (0xffb2, 0x5a), (0xffb3, 0x5b), (0xffb4, 0x5c), (0xffb5, 0x5d),
     (0xffb6, 0x5e), (0xffb7, 0x5f), (0xffb8, 0x60), (0xffb9, 0x61), (0xffb0, 0x62),
     (0xffae, 0x63), (0xffbd, 0x67),
     (0xff67, 0x65)]"

text \<open>The package's \<^verbatim>\<open>init\<close> adds the letters, upper and lower case on the same usage.\<close>

definition init_letters :: "(u32 \<times> u8) list \<Rightarrow> (u32 \<times> u8) list" where
  "init_letters m =
     foldl (\<lambda>m i. (ksym CHR ''A'' + of_nat i, 0x04 + of_nat i)
                 # (ksym CHR ''a'' + of_nat i, 0x04 + of_nat i) # m) m [0..<26]"

definition usbUsage :: "(u32 \<times> u8) list" where
  "usbUsage = init_letters usbUsage_literal"

fun map_get :: "('k \<times> u8) list \<Rightarrow> 'k \<Rightarrow> u8" where
  "map_get [] k = 0"
| "map_get ((a, v) # m) k = (if k = a then v else map_get m k)"

definition usageFor :: "u32 \<Rightarrow> u8" where
  "usageFor keysym = map_get usbUsage keysym"

definition modBitFor :: "u32 \<Rightarrow> u8" where
  "modBitFor keysym = map_get modifierKeysym keysym"

definition scancodePassthroughBase :: u32 where
  "scancodePassthroughBase = 0xF0000000"

definition usbUsageFromKeysym :: "u32 \<Rightarrow> u8 option" where
  "usbUsageFromKeysym keysym =
     (if keysym AND 0xFFFFFF00 = scancodePassthroughBase then Some (ucast (keysym AND 0xFF))
      else None)"

definition modBitForUsage :: "u8 \<Rightarrow> u8" where
  "modBitForUsage usage =
     (if usage = 0xE0 then modLeftCtrl
      else if usage = 0xE1 then modLeftShift
      else if usage = 0xE2 then modLeftAlt
      else if usage = 0xE3 then modLeftGUI
      else if usage = 0xE4 then modRightCtrl
      else if usage = 0xE5 then modRightShift
      else if usage = 0xE6 then modRightAlt
      else if usage = 0xE7 then modRightGUI
      else 0)"

section \<open>Characters of pasted text\<close>

definition shiftedASCII :: "nat list" where
  "shiftedASCII =
     map of_char [CHR ''!'', CHR ''@'', CHR ''#'', CHR ''$'', CHR ''%'', CHR ''^'', CHR ''&'',
       CHR ''*'', CHR ''('', CHR '')'', CHR ''_'', CHR ''+'', CHR ''{'', CHR ''}'', CHR ''|'',
       CHR '':'', CHR 0x22, CHR ''~'', CHR ''<'', CHR ''>'', CHR ''?'']"

text \<open>A rune is its code point; \<^verbatim>\<open>ok = false\<close> is \<^const>\<open>None\<close>.\<close>

definition asciiToUsage :: "nat \<Rightarrow> (u8 \<times> bool) option" where
  "asciiToUsage r =
     (if r = 10 \<or> r = 13 then Some (0x28, False)
      else if r = 9 then Some (0x2b, False)
      else if r < 0x20 \<or> 0x7e < r then None
      else let u = map_get usbUsage (of_nat r)
           in if u = 0 then None
              else Some (u, (65 \<le> r \<and> r \<le> 90) \<or> r \<in> set shiftedASCII))"

section \<open>Facts about the tables\<close>

lemma usbUsageFromKeysym_tagged:
  "usbUsageFromKeysym (scancodePassthroughBase OR ucast u) = Some u"
  for u :: u8
proof -
  have hi: "(scancodePassthroughBase OR ucast u) AND 0xFFFFFF00 = scancodePassthroughBase"
  proof -
    have "ucast u AND (0xFFFFFF00 :: u32) = 0"
    proof -
      have "(0xFFFFFF00 :: u32) = NOT (mask 8)"
        by (simp add: mask_eq_exp_minus_1)
      moreover have "ucast u AND NOT (mask 8) = (0 :: u32)"
        using bit_imp_le_length [of u] by (auto intro!: bit_word_eqI simp: bit_simps)
      ultimately show ?thesis by simp
    qed
    then show ?thesis
      by (simp add: scancodePassthroughBase_def bit.conj_disj_distrib2)
  qed
  have lo: "ucast ((scancodePassthroughBase OR ucast u :: u32) AND 0xFF) = u"
  proof -
    have "(scancodePassthroughBase OR ucast u :: u32) AND 0xFF = ucast u AND mask 8"
      by (simp add: scancodePassthroughBase_def bit.conj_disj_distrib2 mask_eq_exp_minus_1)
    then show ?thesis
      by (auto intro!: bit_word_eqI simp: bit_simps)
  qed
  from hi lo show ?thesis by (simp add: usbUsageFromKeysym_def)
qed

section \<open>The tables evaluated\<close>

text \<open>
  The table is evaluated once, to a list keyed by numbers, which the simplifier compares
  faster than words; only its character entries matter for pasted text.
\<close>

lemma map_get_unat: "map_get m k = map_get (map (map_prod unat id) m) (unat k)"
  for m :: "(u32 \<times> u8) list"
  by (induction m k rule: map_get.induct) (auto simp: word_unat_eq_iff)

lemma map_get_filter: "P k \<Longrightarrow> map_get (filter (\<lambda>(a, v). P a) m) k = map_get m k"
  by (induction m k rule: map_get.induct) auto

definition char_usages :: "(nat \<times> u8) list" where
  "char_usages = filter (\<lambda>(k, v). k < 128) (map (map_prod unat id) usbUsage)"

lemma usbUsage_eval: "usbUsage =
    [(90, 29), (122, 29), (89, 28), (121, 28), (88, 27), (120, 27), (87, 26), (119, 26),
     (86, 25), (118, 25), (85, 24), (117, 24), (84, 23), (116, 23), (83, 22), (115, 22),
     (82, 21), (114, 21), (81, 20), (113, 20), (80, 19), (112, 19), (79, 18), (111, 18),
     (78, 17), (110, 17), (77, 16), (109, 16), (76, 15), (108, 15), (75, 14), (107, 14),
     (74, 13), (106, 13), (73, 12), (105, 12), (72, 11), (104, 11), (71, 10), (103, 10),
     (70, 9), (102, 9), (69, 8), (101, 8), (68, 7), (100, 7), (67, 6), (99, 6), (66, 5),
     (98, 5), (65, 4), (97, 4), (49, 30), (50, 31), (51, 32), (52, 33), (53, 34), (54, 35),
     (55, 36), (56, 37), (57, 38), (48, 39), (33, 30), (64, 31), (35, 32), (36, 33),
     (37, 34), (94, 35), (38, 36), (42, 37), (40, 38), (41, 39), (65293, 40), (65307, 41),
     (65288, 42), (65289, 43), (32, 44), (45, 45), (95, 45), (61, 46), (43, 46), (91, 47),
     (123, 47), (93, 48), (125, 48), (92, 49), (124, 49), (59, 51), (58, 51), (39, 52),
     (34, 52), (96, 53), (126, 53), (44, 54), (60, 54), (46, 55), (62, 55), (47, 56),
     (63, 56), (65509, 57), (65470, 58), (65471, 59), (65472, 60), (65473, 61),
     (65474, 62), (65475, 63), (65476, 64), (65477, 65), (65478, 66), (65479, 67),
     (65480, 68), (65481, 69), (65377, 70), (65300, 71), (65299, 72), (65379, 73),
     (65360, 74), (65365, 75), (65535, 76), (65367, 77), (65366, 78), (65363, 79),
     (65361, 80), (65364, 81), (65362, 82), (65407, 83), (65455, 84), (65450, 85),
     (65453, 86), (65451, 87), (65421, 88), (65457, 89), (65458, 90), (65459, 91),
     (65460, 92), (65461, 93), (65462, 94), (65463, 95), (65464, 96), (65465, 97),
     (65456, 98), (65454, 99), (65469, 103), (65383, 101)]"
  by code_simp

lemmas char_usages_eval = char_usages_def [unfolded usbUsage_eval, simplified]

lemma map_get_char: "r < 128 \<Longrightarrow> map_get usbUsage (of_nat r) = map_get char_usages r"
  by (subst map_get_unat) (simp add: char_usages_def map_get_filter unat_of_nat)

lemma printable_upt: "[0x20..<0x7f] =
    [32, 33, 34, 35, 36, 37, 38, 39, 40, 41, 42, 43, 44, 45, 46, 47, 48, 49, 50, 51, 52,
     53, 54, 55, 56, 57, 58, 59, 60, 61, 62, 63, 64, 65, 66, 67, 68, 69, 70, 71, 72, 73,
     74, 75, 76, 77, 78, 79, 80, 81, 82, 83, 84, 85, 86, 87, 88, 89, 90, 91, 92, 93, 94,
     95, 96, 97, 98, 99, 100, 101, 102, 103, 104, 105, 106, 107, 108, 109, 110, 111, 112,
     113, 114, 115, 116, 117, 118, 119, 120, 121, 122, 123, 124, 125, 126]"
  by (simp add: upt_rec_numeral)

lemma shiftedASCII_eval:
  "shiftedASCII = [33, 64, 35, 36, 37, 94, 38, 42, 40, 41, 95, 43, 123, 125, 124, 58, 34, 126, 60, 62, 63]"
  by code_simp

lemma char_usages_printable: "map (map_get char_usages) [0x20..<0x7f] =
    [44, 30, 52, 32, 33, 34, 36, 52, 38, 39, 37, 46, 54, 45, 55, 56, 39, 30, 31, 32, 33,
     34, 35, 36, 37, 38, 51, 51, 54, 46, 55, 56, 31, 4, 5, 6, 7, 8, 9, 10, 11, 12, 13, 14,
     15, 16, 17, 18, 19, 20, 21, 22, 23, 24, 25, 26, 27, 28, 29, 47, 49, 48, 35, 45, 53, 4,
     5, 6, 7, 8, 9, 10, 11, 12, 13, 14, 15, 16, 17, 18, 19, 20, 21, 22, 23, 24, 25, 26, 27,
     28, 29, 47, 49, 48, 53]"
  by (simp only: printable_upt list.map list.inject)
    (intro conjI refl; simp only: char_usages_eval map_get.simps if_False if_True rel_simps
       simp_thms num.simps eq_numeral_simps)

end
