(* ===== verification/Utf8.thy ===== *)
theory Utf8
  imports Prelude
begin

text \<open>
  Go's \<^verbatim>\<open>for _, r := range text\<close>: the code points of a byte string, an invalid byte giving
  U+FFFD and consuming one byte. The clipboard paste is the only place where the program
  reads a string this way. Bytes are compared by their values.
\<close>

definition RuneError :: nat where
  "RuneError = 0xFFFD"

definition cont :: "nat \<Rightarrow> bool" where
  "cont b = (0x80 \<le> b \<and> b \<le> 0xBF)"

text \<open>The range the second byte must be in, by the first byte.\<close>

definition second_ok :: "nat \<Rightarrow> nat \<Rightarrow> bool" where
  "second_ok b0 b1 =
     (if b0 = 0xE0 then 0xA0 \<le> b1 \<and> b1 \<le> 0xBF
      else if b0 = 0xED then 0x80 \<le> b1 \<and> b1 \<le> 0x9F
      else if b0 = 0xF0 then 0x90 \<le> b1 \<and> b1 \<le> 0xBF
      else if b0 = 0xF4 then 0x80 \<le> b1 \<and> b1 \<le> 0x8F
      else cont b1)"

text \<open>The first code point of a nonempty string and the number of bytes it takes.\<close>

fun rune2 :: "nat \<Rightarrow> nat list \<Rightarrow> nat \<times> nat" where
  "rune2 b0 (b1 # _) =
     (if second_ok b0 b1 then (b0 mod 32 * 64 + b1 mod 64, 2) else (RuneError, 1))"
| "rune2 b0 _ = (RuneError, 1)"

fun rune3 :: "nat \<Rightarrow> nat list \<Rightarrow> nat \<times> nat" where
  "rune3 b0 (b1 # b2 # _) =
     (if second_ok b0 b1 \<and> cont b2
      then (b0 mod 16 * 4096 + b1 mod 64 * 64 + b2 mod 64, 3) else (RuneError, 1))"
| "rune3 b0 _ = (RuneError, 1)"

fun rune4 :: "nat \<Rightarrow> nat list \<Rightarrow> nat \<times> nat" where
  "rune4 b0 (b1 # b2 # b3 # _) =
     (if second_ok b0 b1 \<and> cont b2 \<and> cont b3
      then (b0 mod 8 * 262144 + b1 mod 64 * 4096 + b2 mod 64 * 64 + b3 mod 64, 4)
      else (RuneError, 1))"
| "rune4 b0 _ = (RuneError, 1)"

definition rune_head :: "nat \<Rightarrow> nat list \<Rightarrow> nat \<times> nat" where
  "rune_head b0 bs =
     (if b0 < 0x80 then (b0, 1)
      else if 0xC2 \<le> b0 \<and> b0 \<le> 0xDF then rune2 b0 bs
      else if 0xE0 \<le> b0 \<and> b0 \<le> 0xEF then rune3 b0 bs
      else if 0xF0 \<le> b0 \<and> b0 \<le> 0xF4 then rune4 b0 bs
      else (RuneError, 1))"

fun runes :: "nat list \<Rightarrow> nat list" where
  "runes [] = []"
| "runes (b # bs) = fst (rune_head b bs) # runes (drop (snd (rune_head b bs) - 1) bs)"

declare runes.simps(2) [simp del]

lemma runes_ascii: "b < 128 \<Longrightarrow> runes (b # bs) = b # runes bs"
  by (simp add: runes.simps(2) rune_head_def)

text \<open>
  A byte of 128 or more starts a code point of 128 or more, and the bytes that code point
  takes are all of 128 or more: no ASCII byte is ever swallowed.
\<close>

lemma second_ok_high: "second_ok b0 b1 \<Longrightarrow> 128 \<le> b1 \<and> b1 \<le> 191"
  by (auto simp: second_ok_def cont_def split: if_splits)

lemma mod64: "128 \<le> b \<Longrightarrow> b \<le> 191 \<Longrightarrow> b mod 64 = b - (128 :: nat)"
  using mod_mult_self1 [of "b - 128" 2 64] by simp

definition high_rune :: "nat list \<Rightarrow> nat \<times> nat \<Rightarrow> bool" where
  "high_rune bs = (\<lambda>(r, n). 128 \<le> r \<and> (\<forall>b \<in> set (take (n - 1) bs). 128 \<le> b))"

lemma high_rune2: "194 \<le> b0 \<Longrightarrow> b0 \<le> 223 \<Longrightarrow> high_rune bs (rune2 b0 bs)"
  using mod_mult_self1 [of "b0 - 192" 6 32]
  by (cases "(b0, bs)" rule: rune2.cases)
    (auto simp: high_rune_def RuneError_def dest: second_ok_high)

lemma high_rune3: "224 \<le> b0 \<Longrightarrow> b0 \<le> 239 \<Longrightarrow> high_rune bs (rune3 b0 bs)"
  using mod_mult_self1 [of "b0 - 224" 14 16]
  by (cases "(b0, bs)" rule: rune3.cases; cases "b0 = 224")
    (auto simp: high_rune_def RuneError_def mod64 second_ok_def cont_def)

lemma high_rune4: "240 \<le> b0 \<Longrightarrow> b0 \<le> 244 \<Longrightarrow> high_rune bs (rune4 b0 bs)"
  using mod_mult_self1 [of "b0 - 240" 30 8]
  by (cases "(b0, bs)" rule: rune4.cases; cases "b0 = 240")
    (auto simp: high_rune_def RuneError_def mod64 second_ok_def cont_def)

lemma high_rune_head: "128 \<le> b \<Longrightarrow> high_rune bs (rune_head b bs)"
  using high_rune2 [of b bs] high_rune3 [of b bs] high_rune4 [of b bs]
  by (auto simp: rune_head_def) (simp_all add: high_rune_def RuneError_def)

lemma runes_ascii_part:
  "filter (\<lambda>r. r < 128) (runes bs) = filter (\<lambda>b. b < 128) bs"
proof (induction bs rule: runes.induct)
  case 1
  then show ?case by simp
next
  case (2 b bs)
  let ?n = "snd (rune_head b bs) - 1"
  show ?case
  proof (cases "b < 128")
    case True
    with 2 show ?thesis by (simp add: runes_ascii rune_head_def)
  next
    case False
    then have hi: "high_rune bs (rune_head b bs)"
      by (intro high_rune_head) simp
    have "filter (\<lambda>b. b < 128) bs
        = filter (\<lambda>b. b < 128) (take ?n bs) @ filter (\<lambda>b. b < 128) (drop ?n bs)"
      by (metis append_take_drop_id filter_append)
    also have "filter (\<lambda>b. b < 128) (take ?n bs) = []"
      using hi by (fastforce simp: high_rune_def filter_empty_conv split: prod.splits)
    finally show ?thesis
      using 2 False hi by (auto simp: runes.simps(2) high_rune_def split: prod.splits)
  qed
qed

end
