(* ===== verification/Hid.thy ===== *)
theory Hid
  imports Ivtp UsbHid Utf8
begin

text \<open>
  Keyboard and mouse input (\<^verbatim>\<open>internal/kvm/hid.go\<close>): the USB HID reports inside IVTP
  packets and the sink that turns RFB input events into them.

  The state is the \<^verbatim>\<open>HIDSink\<close> with the process-wide sequence counter \<^verbatim>\<open>hidSeq\<close> and, in
  place of the client's socket, the list of packets written to it, oldest first (the code
  ignores the result of the write). Every event handler is one function; the code runs the
  state change of each under the sink's mutex.
\<close>

section \<open>Reports\<close>

definition iusbDeviceKeybd :: u8 where "iusbDeviceKeybd = 48"
definition iusbDeviceMouse :: u8 where "iusbDeviceMouse = 49"
definition iusbProtoKeybd :: u8 where "iusbProtoKeybd = 16"
definition iusbProtoMouse :: u8 where "iusbProtoMouse = 32"
definition iusbFromRemote :: u8 where "iusbFromRemote = 0x80"

lemmas hid_codes =
  iusbDeviceKeybd_def iusbDeviceMouse_def iusbProtoKeybd_def iusbProtoMouse_def
  iusbFromRemote_def

text \<open>The counter is read and incremented here; the second component is its new value.\<close>

definition fillIUSBHeader ::
  "u32 \<Rightarrow> bytes \<Rightarrow> u32 \<Rightarrow> u8 \<Rightarrow> u8 \<Rightarrow> u8 \<Rightarrow> u8 \<Rightarrow> bytes \<times> u32" where
  "fillIUSBHeader hidSeq buf reportField device proto ifnum dataLen =
     (let buf = blit 8 (go_string ''IUSB    '') buf;
          buf = buf[16 := 1, 17 := 0, 18 := 32, 19 := 0];
          buf = blit 20 (le32 reportField) buf;
          buf = buf[24 := 0, 25 := device, 26 := proto, 27 := iusbFromRemote, 28 := 2,
                    29 := ifnum, 30 := 0, 31 := 0];
          buf = blit 32 (le32 hidSeq) buf;
          buf = buf[36 := 0, 37 := 0, 38 := 0, 39 := 0, 40 := dataLen]
      in (buf, hidSeq + 1))"

definition finishChecksum :: "bytes \<Rightarrow> bytes" where
  "finishChecksum buf =
     (let sum = foldl (\<lambda>sum i. (sum + unat (buf ! i)) mod 256) 0 [8..<40]
      in buf[19 := word_of_int (- int (sum mod 256))])"

definition keyboardReport :: "u32 \<Rightarrow> bytes \<Rightarrow> bytes \<times> u32" where
  "keyboardReport hidSeq usb =
     (let payload = 41;
          buf = replicate (HeaderSize + payload) 0;
          buf = blit 0 (ivtp_marshal \<lparr>Type = opHIDPkt, Size = of_nat payload, Status = 0\<rparr>) buf;
          (buf, hidSeq) = fillIUSBHeader hidSeq buf 9 iusbDeviceKeybd iusbProtoKeybd 0 8;
          buf = blit 41 usb buf
      in (finishChecksum buf, hidSeq))"

definition mouseAbsReport :: "u32 \<Rightarrow> u8 \<Rightarrow> u16 \<Rightarrow> u16 \<Rightarrow> u8 \<Rightarrow> bytes \<times> u32" where
  "mouseAbsReport hidSeq btn x y wheel =
     (let payload = 39;
          buf = replicate (HeaderSize + payload) 0;
          buf = blit 0 (ivtp_marshal \<lparr>Type = opHIDPkt, Size = of_nat payload, Status = 0\<rparr>) buf;
          (buf, hidSeq) = fillIUSBHeader hidSeq buf 7 iusbDeviceMouse iusbProtoMouse 1 6;
          buf = buf[41 := btn];
          buf = blit 42 (le16 x) buf;
          buf = blit 44 (le16 y) buf;
          buf = buf[46 := wheel]
      in (finishChecksum buf, hidSeq))"

section \<open>The sink\<close>

record hid_sink =
  hidSeq :: u32
  fbW :: int
  fbH :: int
  mods :: u8
  pressed :: "u8 list"
  sent :: "bytes list"

definition NewSink :: "int \<Rightarrow> int \<Rightarrow> hid_sink" where
  "NewSink w h =
     (let (w, h) = (if w \<le> 0 \<or> h \<le> 0 then (1024, 768) else (w, h))
      in \<lparr>hidSeq = 0, fbW = w, fbH = h, mods = 0, pressed = [], sent = []\<rparr>)"

definition SetFrameSize :: "hid_sink \<Rightarrow> int \<Rightarrow> int \<Rightarrow> hid_sink" where
  "SetFrameSize s w h = (if w \<le> 0 \<or> h \<le> 0 then s else s\<lparr>fbW := w, fbH := h\<rparr>)"

definition SendHIDReport :: "hid_sink \<Rightarrow> bytes \<Rightarrow> hid_sink" where
  "SendHIDReport s report = s\<lparr>sent := sent s @ [report]\<rparr>"

definition addKey :: "hid_sink \<Rightarrow> u8 \<Rightarrow> hid_sink" where
  "addKey s usage =
     (if usage \<in> set (pressed s) then s
      else if length (pressed s) < 6 then s\<lparr>pressed := pressed s @ [usage]\<rparr>
      else s)"

definition removeKey :: "hid_sink \<Rightarrow> u8 \<Rightarrow> hid_sink" where
  "removeKey s usage = s\<lparr>pressed := remove1 usage (pressed s)\<rparr>"

definition usb_report :: "hid_sink \<Rightarrow> bytes" where
  "usb_report s = blit 2 (take 6 (pressed s)) ([mods s, 0] @ replicate 6 0)"

definition buildKeyboardReport :: "hid_sink \<Rightarrow> bytes \<times> hid_sink" where
  "buildKeyboardReport s =
     (let (report, n) = keyboardReport (hidSeq s) (usb_report s)
      in (report, s\<lparr>hidSeq := n\<rparr>))"

definition set_mod :: "hid_sink \<Rightarrow> u8 \<Rightarrow> bool \<Rightarrow> hid_sink" where
  "set_mod s m down =
     (if down then s\<lparr>mods := mods s OR m\<rparr> else s\<lparr>mods := mods s AND NOT m\<rparr>)"

definition set_key :: "hid_sink \<Rightarrow> u8 \<Rightarrow> bool \<Rightarrow> hid_sink" where
  "set_key s usage down = (if down then addKey s usage else removeKey s usage)"

text \<open>The state change of a key event, or \<^const>\<open>None\<close> for an unmapped key.\<close>

definition key_state :: "hid_sink \<Rightarrow> u32 \<Rightarrow> bool \<Rightarrow> hid_sink option" where
  "key_state s keysym down =
     (case usbUsageFromKeysym keysym of
        Some usage \<Rightarrow>
          (let m = modBitForUsage usage
           in Some (if m \<noteq> 0 then set_mod s m down else set_key s usage down))
      | None \<Rightarrow>
          (let m = modBitFor keysym; usage = usageFor keysym
           in if m \<noteq> 0 then Some (set_mod s m down)
              else if usage \<noteq> 0 then Some (set_key s usage down)
              else None))"

definition KeyEvent :: "hid_sink \<Rightarrow> u32 \<Rightarrow> bool \<Rightarrow> hid_sink" where
  "KeyEvent s keysym down =
     (case key_state s keysym down of
        None \<Rightarrow> s
      | Some s' \<Rightarrow> (let (report, s'') = buildKeyboardReport s' in SendHIDReport s'' report))"

section \<open>The pointer\<close>

definition rfbButtonsToUSB :: "u8 \<Rightarrow> u8" where
  "rfbButtonsToUSB buttons =
     (let btn = 0;
          btn = (if buttons AND 0x01 \<noteq> 0 then btn OR 0x01 else btn);
          btn = (if buttons AND 0x04 \<noteq> 0 then btn OR 0x02 else btn)
      in if buttons AND 0x02 \<noteq> 0 then btn OR 0x04 else btn)"

definition rfbWheel :: "u8 \<Rightarrow> u8" where
  "rfbWheel buttons =
     (if buttons AND 0x08 \<noteq> 0 then 1 else if buttons AND 0x10 \<noteq> 0 then 0xff else 0)"

definition clamp_to :: "int \<Rightarrow> int \<Rightarrow> int" where
  "clamp_to v m = (if v < 0 then 0 else if m < v then m else v)"

text \<open>
  After the clamping no operand of the divisions is negative, so Go's truncating division
  is \<open>div\<close>. \<open>scale1\<close> is the value before the conversion to \<^verbatim>\<open>int16\<close>.
\<close>

definition scale1 :: "int \<Rightarrow> int \<Rightarrow> int" where
  "scale1 x w = (clamp_to x w * 32767 + w div 2) div w"

definition scaleAbs :: "int \<Rightarrow> int \<Rightarrow> int \<Rightarrow> int \<Rightarrow> u16 \<times> u16" where
  "scaleAbs x y w h =
     (let w = (if w \<le> 0 then 1 else w);
          h = (if h \<le> 0 then 1 else h)
      in (word_of_int (scale1 x w), word_of_int (scale1 y h)))"

definition PointerEvent :: "hid_sink \<Rightarrow> int \<Rightarrow> int \<Rightarrow> u8 \<Rightarrow> hid_sink" where
  "PointerEvent s x y buttons =
     (let (ax, ay) = scaleAbs x y (fbW s) (fbH s);
          (report, n) = mouseAbsReport (hidSeq s) (rfbButtonsToUSB buttons) ax ay (rfbWheel buttons)
      in SendHIDReport (s\<lparr>hidSeq := n\<rparr>) report)"

section \<open>Pasting text\<close>

text \<open>
  \<open>CutText\<close> types every character of the clipboard that has a key as a press and a release.
  The code does this in a goroutine that stops when the session ends: \<open>alive k\<close> is the
  result of the \<open>k\<close>-th \<^verbatim>\<open>pasteDelay\<close>.
\<close>

definition paste_down :: "u8 \<Rightarrow> bool \<Rightarrow> bytes" where
  "paste_down usage shift =
     (let down = replicate 8 0;
          down = (if shift then down[0 := modLeftShift] else down)
      in down[2 := usage])"

definition paste_up :: bytes where
  "paste_up = replicate 8 0"

definition send_keyboard :: "hid_sink \<Rightarrow> bytes \<Rightarrow> hid_sink" where
  "send_keyboard s usb =
     (let (report, n) = keyboardReport (hidSeq s) usb in SendHIDReport (s\<lparr>hidSeq := n\<rparr>) report)"

fun paste_runes :: "(nat \<Rightarrow> bool) \<Rightarrow> nat \<Rightarrow> nat list \<Rightarrow> hid_sink \<Rightarrow> hid_sink" where
  "paste_runes alive k [] s = s"
| "paste_runes alive k (r # rs) s =
     (case asciiToUsage r of
        None \<Rightarrow> paste_runes alive k rs s
      | Some (usage, shift) \<Rightarrow>
          (let s = send_keyboard s (paste_down usage shift)
           in if \<not> alive k then s
              else let s = send_keyboard s paste_up
                   in if \<not> alive (k + 1) then s else paste_runes alive (k + 2) rs s))"

definition CutText :: "(nat \<Rightarrow> bool) \<Rightarrow> hid_sink \<Rightarrow> bytes \<Rightarrow> hid_sink" where
  "CutText alive s text =
     (if text = [] then s else paste_runes alive 0 (runes (map unat text)) s)"

section \<open>The reports on the wire\<close>

lemma length_fillIUSBHeader [simp]:
  "length (fst (fillIUSBHeader n buf f d p i l)) = length buf"
  by (simp add: fillIUSBHeader_def Let_def)

lemma snd_fillIUSBHeader [simp]: "snd (fillIUSBHeader n buf f d p i l) = n + 1"
  by (simp add: fillIUSBHeader_def Let_def)

lemma finishChecksum_eq:
  "40 \<le> length buf \<Longrightarrow> finishChecksum buf = buf[19 := - sum_list (slice 8 40 buf)]"
  by (simp add: finishChecksum_def foldl_mod_256 [where a = 0, simplified] slice_nths
      del: upt_rec_numeral)

lemma length_finishChecksum [simp]: "length (finishChecksum buf) = length buf"
  by (simp only: finishChecksum_def Let_def length_list_update)

lemma finishChecksum_sum:
  assumes "40 \<le> length buf" "buf ! 19 = 0"
  shows "sum_list (slice 8 40 (finishChecksum buf)) = 0"
proof -
  have "slice 8 40 (finishChecksum buf) = (slice 8 40 buf)[11 := - sum_list (slice 8 40 buf)]"
    using assms(1) by (simp add: finishChecksum_eq slice_def drop_update_swap take_update_swap)
  with assms show ?thesis
    by (simp add: sum_list_update_ring)
qed

text \<open>
  The layout the source documents: the IVTP header, the 32-byte IUSB header with its
  negated-sum checksum, the data length and the USB report.
\<close>

definition iusb_hid_header :: "u8 \<Rightarrow> u32 \<Rightarrow> u32 \<Rightarrow> u8 \<Rightarrow> u8 \<Rightarrow> u8 \<Rightarrow> bytes" where
  "iusb_hid_header chk n field device proto ifnum =
     go_string ''IUSB    '' @ [1, 0, 32, chk] @ le32 field
       @ [0, device, proto, iusbFromRemote, 2, ifnum, 0, 0] @ le32 n @ [0, 0, 0, 0]"

definition hid_packet :: "u32 \<Rightarrow> u32 \<Rightarrow> u8 \<Rightarrow> u8 \<Rightarrow> u8 \<Rightarrow> bytes \<Rightarrow> bytes" where
  "hid_packet n field device proto ifnum usb =
     ivtp_marshal \<lparr>Type = opHIDPkt, Size = of_nat (33 + length usb), Status = 0\<rparr>
       @ iusb_hid_header (- sum_list (iusb_hid_header 0 n field device proto ifnum))
           n field device proto ifnum
       @ [of_nat (length usb)] @ usb"

lemma length_iusb_hid_header [simp]: "length (iusb_hid_header c n f d p i) = 32"
  by (simp add: iusb_hid_header_def)

lemma ivtp_marshal_hid:
  "ivtp_marshal \<lparr>Type = opHIDPkt, Size = s, Status = 0\<rparr> = [1, 0] @ le32 s @ [0, 0]"
  by (simp add: ivtp_marshal_def HeaderSize_def blit_def le16_def le32_def opHIDPkt_def)

lemma fillIUSBHeader_zero:
  assumes "length m = 8"
  shows "fillIUSBHeader n (m @ replicate (33 + k) 0) f d p i l =
    (m @ iusb_hid_header 0 n f d p i @ [l] @ replicate k 0, n + 1)"
proof -
  have z: "replicate (33 + k) 0 = replicate 33 0 @ replicate k 0"
    by (rule replicate_add)
  have "blit 8 (go_string ''IUSB    '') (m @ replicate 33 0 @ r)
      = m @ go_string ''IUSB    '' @ replicate 25 0 @ r" for r
    using assms by (simp add: blit_def)
  then show ?thesis
    using assms
    by (simp add: fillIUSBHeader_def iusb_hid_header_def z replicate_numeral_Cons blit_def
        list_update_append le32_def go_string_def)
qed

lemma finishChecksum_hid:
  assumes "length m = 8"
  shows "finishChecksum (m @ iusb_hid_header 0 n f d p i @ rest) =
    m @ iusb_hid_header (- sum_list (iusb_hid_header 0 n f d p i)) n f d p i @ rest"
proof -
  have "(m @ iusb_hid_header 0 n f d p i @ rest)[19 := v]
      = m @ iusb_hid_header v n f d p i @ rest" for v
    using assms by (simp add: list_update_append) (simp add: iusb_hid_header_def go_string_def)
  then show ?thesis
    using assms by (simp add: finishChecksum_eq)
qed

lemma keyboardReport_packet:
  assumes "length usb = 8"
  shows "keyboardReport n usb = (hid_packet n 9 iusbDeviceKeybd iusbProtoKeybd 0 usb, n + 1)"
proof -
  let ?m = "ivtp_marshal \<lparr>Type = opHIDPkt, Size = of_nat 41, Status = 0\<rparr>"
  have buf: "blit 0 ?m (replicate (HeaderSize + 41) 0) = ?m @ replicate (33 + 8) 0"
    by (simp add: blit_def HeaderSize_def)
  have usb: "blit 41 usb (?m @ iusb_hid_header 0 n f d p i @ [l] @ replicate 8 0)
      = ?m @ iusb_hid_header 0 n f d p i @ [l] @ usb" for f d p i l
    using assms by (simp add: blit_def)
  show ?thesis
    using assms
    by (simp only: keyboardReport_def Let_def buf fillIUSBHeader_zero length_ivtp_marshal
        prod.case usb finishChecksum_hid hid_packet_def) simp
qed

lemma mouseAbsReport_packet:
  "mouseAbsReport n btn x y wheel =
     (hid_packet n 7 iusbDeviceMouse iusbProtoMouse 1 ([btn] @ le16 x @ le16 y @ [wheel]), n + 1)"
proof -
  let ?m = "ivtp_marshal \<lparr>Type = opHIDPkt, Size = of_nat 39, Status = 0\<rparr>"
  have buf: "blit 0 ?m (replicate (HeaderSize + 39) 0) = ?m @ replicate (33 + 6) 0"
    by (simp add: blit_def HeaderSize_def)
  have usb: "(blit 44 (le16 y) (blit 42 (le16 x)
        ((?m @ iusb_hid_header 0 n f d p i @ [l] @ replicate 6 0)[41 := btn])))[46 := wheel]
      = ?m @ iusb_hid_header 0 n f d p i @ [l] @ [btn] @ le16 x @ le16 y @ [wheel]" for f d p i l
    by (simp add: blit_def list_update_append le16_def replicate_numeral_Cons)
  show ?thesis
    by (simp only: mouseAbsReport_def Let_def buf fillIUSBHeader_zero length_ivtp_marshal
        prod.case usb finishChecksum_hid hid_packet_def) simp
qed

section \<open>Runs of the sink\<close>

text \<open>
  The steps of a sink that several goroutines drive: an event of the browser, a resize, or
  one report of a paste, in any order. A step builds its report and writes it.
\<close>

inductive hid_step :: "hid_sink \<Rightarrow> hid_sink \<Rightarrow> bool" where
  key: "hid_step s (KeyEvent s keysym down)"
| pointer: "hid_step s (PointerEvent s x y buttons)"
| resize: "hid_step s (SetFrameSize s w h)"
| paste_press: "hid_step s (send_keyboard s (paste_down usage shift))"
| paste_release: "hid_step s (send_keyboard s paste_up)"

lemma length_usb_report [simp]: "length (usb_report s) = 8"
  by (simp add: usb_report_def)

lemma length_paste [simp]: "length (paste_down u sh) = 8" "length paste_up = 8"
  by (simp_all add: paste_down_def paste_up_def Let_def)

lemma send_keyboard_eq:
  "length usb = 8 \<Longrightarrow> send_keyboard s usb = s\<lparr>hidSeq := hidSeq s + 1,
     sent := sent s @ [hid_packet (hidSeq s) 9 iusbDeviceKeybd iusbProtoKeybd 0 usb]\<rparr>"
  by (simp add: send_keyboard_def SendHIDReport_def keyboardReport_packet)

lemma key_state_keeps:
  "key_state s k d = Some s' \<Longrightarrow>
   hidSeq s' = hidSeq s \<and> sent s' = sent s \<and> fbW s' = fbW s \<and> fbH s' = fbH s"
  by (auto simp: key_state_def Let_def set_mod_def set_key_def addKey_def removeKey_def
      split: option.splits if_splits)

lemma KeyEvent_eq:
  "key_state s k d = Some s' \<Longrightarrow> KeyEvent s k d = s'\<lparr>hidSeq := hidSeq s + 1,
     sent := sent s @ [hid_packet (hidSeq s) 9 iusbDeviceKeybd iusbProtoKeybd 0 (usb_report s')]\<rparr>"
  using key_state_keeps [of s k d s']
  by (simp add: KeyEvent_def buildKeyboardReport_def SendHIDReport_def keyboardReport_packet)

lemma PointerEvent_eq:
  "PointerEvent s x y b =
     (let (ax, ay) = scaleAbs x y (fbW s) (fbH s) in
      s\<lparr>hidSeq := hidSeq s + 1,
        sent := sent s @ [hid_packet (hidSeq s) 7 iusbDeviceMouse iusbProtoMouse 1
          ([rfbButtonsToUSB b] @ le16 ax @ le16 ay @ [rfbWheel b])]\<rparr>)"
  by (simp add: PointerEvent_def SendHIDReport_def mouseAbsReport_packet split_def Let_def)

text \<open>What a packet of the sink looks like: the sequence number, then one of two shapes.\<close>

definition hid_wire :: "u32 \<Rightarrow> bytes \<Rightarrow> bool" where
  "hid_wire n p =
     ((\<exists>usb. length usb = 8 \<and> p = hid_packet n 9 iusbDeviceKeybd iusbProtoKeybd 0 usb) \<or>
      (\<exists>usb. length usb = 6 \<and> p = hid_packet n 7 iusbDeviceMouse iusbProtoMouse 1 usb))"

lemma hid_packet_checksum:
  "sum_list (slice 8 40 (hid_packet n f d p i usb)) = 0"
proof -
  let ?h = "\<lambda>c. iusb_hid_header c n f d p i"
  have slice: "slice 8 40 (hid_packet n f d p i usb) = ?h (- sum_list (?h 0))"
    by (simp add: hid_packet_def)
  have upd: "(?h 0)[11 := c] = ?h c" for c
    by (simp add: iusb_hid_header_def go_string_def)
  have "?h 0 ! 11 = 0"
    by (simp add: iusb_hid_header_def go_string_def)
  then have "sum_list (?h c) = sum_list (?h 0) + c" for c
    using sum_list_update_ring [of 11 "?h 0" c] by (simp add: upd)
  from this [of "- sum_list (?h 0)"] show ?thesis
    by (simp only: slice) simp
qed

lemma hid_wire_keyboard:
  "length usb = 8 \<Longrightarrow> hid_wire n (hid_packet n 9 iusbDeviceKeybd iusbProtoKeybd 0 usb)"
  by (auto simp: hid_wire_def)

lemma hid_wire_mouse:
  "length usb = 6 \<Longrightarrow> hid_wire n (hid_packet n 7 iusbDeviceMouse iusbProtoMouse 1 usb)"
  by (auto simp: hid_wire_def)

lemma hid_wire_lengths: "hid_wire n p \<Longrightarrow> length p = 49 \<or> length p = 47"
  by (auto simp: hid_wire_def hid_packet_def)

definition sink_inv :: "hid_sink \<Rightarrow> bool" where
  "sink_inv s =
     (0 < fbW s \<and> 0 < fbH s \<and> distinct (pressed s) \<and> length (pressed s) \<le> 6
      \<and> hidSeq s = of_nat (length (sent s))
      \<and> (\<forall>k < length (sent s). hid_wire (of_nat k) (sent s ! k)))"

lemma sink_inv_send:
  "sink_inv s \<Longrightarrow> hid_wire (hidSeq s) p \<Longrightarrow>
   sink_inv (s\<lparr>hidSeq := hidSeq s + 1, sent := sent s @ [p]\<rparr>)"
  by (auto simp: sink_inv_def nth_append less_Suc_eq)

lemma sink_inv_key_state: "sink_inv s \<Longrightarrow> key_state s k d = Some s' \<Longrightarrow> sink_inv s'"
  by (auto simp: sink_inv_def key_state_def Let_def set_mod_def set_key_def addKey_def
      removeKey_def length_remove1 split: option.splits if_splits)

lemma sink_inv_step: "hid_step s t \<Longrightarrow> sink_inv s \<Longrightarrow> sink_inv t"
proof (induction rule: hid_step.induct)
  case (key s k d)
  show ?case
  proof (cases "key_state s k d")
    case None
    with key show ?thesis by (simp add: KeyEvent_def)
  next
    case (Some s')
    with key have "sink_inv s'" by (auto intro: sink_inv_key_state)
    with Some key_state_keeps [OF Some] show ?thesis
      using sink_inv_send [OF _ hid_wire_keyboard, of s' "usb_report s'"] by (simp add: KeyEvent_eq)
  qed
next
  case (pointer s x y b)
  then show ?case
    by (simp add: PointerEvent_eq split_def Let_def sink_inv_send hid_wire_mouse)
next
  case (resize s w h)
  then show ?case by (auto simp: SetFrameSize_def sink_inv_def)
qed (simp_all add: send_keyboard_eq sink_inv_send hid_wire_keyboard)

lemma sink_inv_NewSink: "sink_inv (NewSink w h)"
  by (auto simp: sink_inv_def NewSink_def)

section \<open>Keys held and reported\<close>

definition key_target :: "u32 \<Rightarrow> (bool \<times> u8) option" where
  "key_target keysym =
     (case usbUsageFromKeysym keysym of
        Some u \<Rightarrow> Some (if modBitForUsage u \<noteq> 0 then (True, modBitForUsage u) else (False, u))
      | None \<Rightarrow>
          if modBitFor keysym \<noteq> 0 then Some (True, modBitFor keysym)
          else if usageFor keysym \<noteq> 0 then Some (False, usageFor keysym)
          else None)"

lemma key_state_target:
  "key_state s k d =
     (case key_target k of None \<Rightarrow> None
      | Some (m, v) \<Rightarrow> Some (if m then set_mod s v d else set_key s v d))"
  by (auto simp: key_state_def key_target_def Let_def split: option.splits)

lemma usb_report_eq:
  "length (pressed s) \<le> 6 \<Longrightarrow>
   usb_report s = [mods s, 0] @ pressed s @ replicate (6 - length (pressed s)) 0"
  by (simp add: usb_report_def blit_def)

lemma set_mod_simps [simp]:
  "mods (set_mod s m d) = (if d then mods s OR m else mods s AND NOT m)"
  "pressed (set_mod s m d) = pressed s"
  by (simp_all add: set_mod_def)

lemma set_key_simps [simp]:
  "mods (set_key s u d) = mods s"
  "pressed (set_key s u d) =
     (if \<not> d then remove1 u (pressed s)
      else if u \<in> set (pressed s) \<or> 6 \<le> length (pressed s) then pressed s
      else pressed s @ [u])"
  by (auto simp: set_key_def addKey_def removeKey_def)

text \<open>
  A key event of an unmapped key changes nothing and sends nothing; any other sets or
  clears its modifier bit, or adds or removes its usage (a press beyond six held keys or of
  a held key adds nothing), and sends exactly one packet, whose USB report shows the
  resulting modifiers and held keys in order.
\<close>

theorem key_event_report:
  assumes "length (pressed s) \<le> 6"
  shows "case key_target k of
      None \<Rightarrow> KeyEvent s k d = s
    | Some (m, v) \<Rightarrow>
        (let t = KeyEvent s k d in
         mods t = (if \<not> m then mods s else if d then mods s OR v else mods s AND NOT v)
         \<and> pressed t = (if m then pressed s else if \<not> d then remove1 v (pressed s)
              else if v \<in> set (pressed s) \<or> length (pressed s) = 6 then pressed s
              else pressed s @ [v])
         \<and> sent t = sent s @ [hid_packet (hidSeq s) 9 iusbDeviceKeybd iusbProtoKeybd 0
              ([mods t, 0] @ pressed t @ replicate (6 - length (pressed t)) 0)]
         \<and> hidSeq t = hidSeq s + 1)"
proof (cases "key_target k")
  case None
  then show ?thesis by (simp add: KeyEvent_def key_state_target)
next
  case (Some mv)
  obtain m v where mv: "mv = (m, v)" by force
  let ?s' = "if m then set_mod s v d else set_key s v d"
  have "key_state s k d = Some ?s'"
    by (simp add: key_state_target Some mv)
  moreover have "length (pressed ?s') \<le> 6"
    using assms by (auto simp: length_remove1)
  ultimately show ?thesis
    using assms by (simp add: Some mv KeyEvent_eq usb_report_eq Let_def)
qed

text \<open>
  Pressing and then releasing a key that is not held, while fewer than six are, shows the
  key in the state in between and restores the modifiers and the held keys.
\<close>

theorem key_press_release:
  assumes "key_target k = Some (m, v)" "length (pressed s) \<le> 6"
    and "if m then mods s AND v = 0 else v \<notin> set (pressed s) \<and> length (pressed s) < 6"
  shows "let t = KeyEvent s k True; u = KeyEvent t k False in
    mods u = mods s \<and> pressed u = pressed s
    \<and> (if m then mods t AND v = v else pressed t ! length (pressed s) = v)"
proof -
  have clear: "(x OR v) AND NOT v = x" if "x AND v = 0" for x :: u8
  proof (rule bit_word_eqI)
    fix n
    from that have "bit (x AND v) n = bit (0 :: u8) n"
      by simp
    then show "bit ((x OR v) AND NOT v) n = bit x n" if "n < LENGTH(8)"
      using that by (auto simp: bit_simps)
  qed
  have held: "(x OR v) AND v = v" for x
    by (auto intro!: bit_word_eqI simp: bit_simps)
  let ?t = "KeyEvent s k True"
  have down: "key_state s k True = Some (if m then set_mod s v True else set_key s v True)"
    and up: "key_state ?t k False = Some (if m then set_mod ?t v False else set_key ?t v False)"
    using assms(1) by (simp_all add: key_state_target)
  show ?thesis
    unfolding Let_def KeyEvent_eq [OF up]
    using assms(3) by (cases m) (simp_all add: KeyEvent_eq [OF down] clear held remove1_append)
qed

lemma key_event_report_witness:
  "let t = KeyEvent (NewSink 0 0) 0xF0000004 True in
   pressed t = [4] \<and> sent t = [hid_packet 0 9 iusbDeviceKeybd iusbProtoKeybd 0 [0, 0, 4, 0, 0, 0, 0, 0]]"
proof -
  have "key_target 0xF0000004 = Some (False, 4)"
    by code_simp
  then show ?thesis
    using key_event_report [of "NewSink 0 0" "0xF0000004" True]
    by (simp add: Let_def NewSink_def eval_nat_numeral)
qed

lemma key_press_release_witness:
  "pressed (KeyEvent (KeyEvent (NewSink 0 0) 0xF0000004 True) 0xF0000004 False) = []"
proof -
  have "key_target 0xF0000004 = Some (False, 4)"
    by code_simp
  then show ?thesis
    using key_press_release [of "0xF0000004" False 4 "NewSink 0 0"]
    by (simp add: Let_def NewSink_def)
qed

section \<open>Pointer scaling\<close>

lemma scale1_mono:
  assumes "0 < w" "x \<le> x'"
  shows "scale1 x w \<le> scale1 x' w"
proof -
  have "clamp_to x w \<le> clamp_to x' w"
    using assms by (auto simp: clamp_to_def)
  with assms(1) show ?thesis
    by (auto simp: scale1_def intro!: zdiv_mono1)
qed

lemma scale1_bounds:
  assumes "0 < w"
  shows "0 \<le> scale1 x w" "scale1 x w \<le> 32767"
proof -
  have "scale1 0 w \<le> scale1 (max 0 x) w" "scale1 x w \<le> scale1 (max w x) w"
    using assms by (auto intro: scale1_mono)
  moreover have "scale1 0 w = 0" "scale1 (max 0 x) w = scale1 x w"
    using assms by (auto simp: scale1_def clamp_to_def)
  moreover have "scale1 (max w x) w = 32767"
    using assms by (auto simp: scale1_def clamp_to_def)
  ultimately show "0 \<le> scale1 x w" "scale1 x w \<le> 32767" by simp_all
qed

text \<open>
  C13. Pointer coordinates are scaled into 0..0x7FFF, monotonically in each axis whatever the
  other coordinate is, with the origin at 0 and the frame's size at 0x7FFF, for every
  coordinate the viewer may send (those outside the frame are clamped).
\<close>

theorem pointer_scaling:
  assumes "0 < w" "0 < h"
  shows "uint (fst (scaleAbs x y w h)) \<le> 32767 \<and> uint (snd (scaleAbs x y w h)) \<le> 32767
    \<and> (x \<le> x' \<longrightarrow> fst (scaleAbs x y w h) \<le> fst (scaleAbs x' y' w h))
    \<and> (y \<le> y' \<longrightarrow> snd (scaleAbs x y w h) \<le> snd (scaleAbs x' y' w h))
    \<and> scaleAbs 0 0 w h = (0, 0) \<and> scaleAbs w h w h = (0x7fff, 0x7fff)"
proof -
  have word: "uint (word_of_int (scale1 a v) :: u16) = scale1 a v" if "0 < v" for a v
    using scale1_bounds [OF that, of a] by (simp add: uint_word_of_int)
  have ends: "scale1 0 v = 0" "scale1 v v = 32767" if "0 < v" for v
    using that by (simp_all add: scale1_def clamp_to_def)
  show ?thesis
    using assms
    by (simp add: scaleAbs_def word ends word_le_def scale1_bounds scale1_mono)
qed

text \<open>A key and its Shift state as one number.\<close>

definition key_code :: "u8 \<Rightarrow> bool \<Rightarrow> nat" where
  "key_code u sh = 2 * unat u + of_bool sh"

definition shifted :: "nat \<Rightarrow> bool" where
  "shifted r = ((65 \<le> r \<and> r \<le> 90) \<or> r \<in> set shiftedASCII)"

lemma key_codes_printable:
  "map2 key_code (map (map_get char_usages) [0x20..<0x7f]) (map shifted [0x20..<0x7f]) =
    [88, 61, 105, 65, 67, 69, 73, 104, 77, 79, 75, 93, 108, 90, 110, 112, 78, 60, 62, 64,
     66, 68, 70, 72, 74, 76, 103, 102, 109, 92, 111, 113, 63, 9, 11, 13, 15, 17, 19, 21,
     23, 25, 27, 29, 31, 33, 35, 37, 39, 41, 43, 45, 47, 49, 51, 53, 55, 57, 59, 94, 98,
     96, 71, 91, 106, 8, 10, 12, 14, 16, 18, 20, 22, 24, 26, 28, 30, 32, 34, 36, 38, 40,
     42, 44, 46, 48, 50, 52, 54, 56, 58, 95, 99, 97, 107]"
  unfolding char_usages_printable unfolding printable_upt
  by (simp only: list.map zip_Cons_Cons zip_Nil prod.case list.inject)
    (intro conjI refl; simp add: key_code_def shifted_def shiftedASCII_eval)

text \<open>
  Every printable ASCII character can be pasted, and no two of them are typed the same way:
  the key and the Shift state determine the character.
\<close>

theorem printable_characters_have_keys:
  "None \<notin> asciiToUsage ` {0x20..<0x7f} \<and> inj_on asciiToUsage {0x20..<0x7f}"
proof -
  have nz: "0 \<notin> set (map (map_get char_usages) [0x20..<0x7f])"
    by (simp only: char_usages_printable) simp
  have eq: "asciiToUsage r = Some (map_get char_usages r, shifted r)"
    if "r \<in> {0x20..<0x7f}" for r
  proof -
    have "map_get usbUsage (of_nat r) = map_get char_usages r"
      using that by (intro map_get_char) simp
    moreover have "map_get char_usages r \<noteq> 0"
      using nz that by (auto simp del: upt_rec_numeral)
    ultimately show ?thesis
      using that by (auto simp: asciiToUsage_def shifted_def Let_def)
  qed
  have "distinct (map2 key_code (map (map_get char_usages) [0x20..<0x7f]) (map shifted [0x20..<0x7f]))"
    unfolding key_codes_printable by simp
  then have "distinct (map (\<lambda>r. key_code (map_get char_usages r) (shifted r)) [0x20..<0x7f])"
    by (simp only: zip_map_map zip_same_conv_map map_map o_def split)
  then have "inj_on (\<lambda>r. key_code (map_get char_usages r) (shifted r)) {0x20..<0x7f}"
    by (simp only: distinct_map set_upt)
  then have "inj_on ((\<lambda>(u, sh). key_code u sh) \<circ> (\<lambda>r. (map_get char_usages r, shifted r))) {0x20..<0x7f}"
    by (simp only: o_def prod.case)
  then have "inj_on (\<lambda>r. (map_get char_usages r, shifted r)) {0x20..<0x7f}"
    by (rule inj_on_imageI2)
  then show ?thesis
    by (auto simp only: inj_on_def image_iff eq option.inject option.distinct)
qed

lemma pointer_scaling_witness:
  "uint (fst (scaleAbs 512 0 1024 768)) \<le> 32767 \<and> scaleAbs 1024 768 1024 768 = (0x7fff, 0x7fff)"
  using pointer_scaling [of 1024 768 512 0 600 0] by simp

section \<open>What a paste types\<close>

definition typed_reports :: "nat list \<Rightarrow> bytes list" where
  "typed_reports rs =
     concat (map (\<lambda>(u, sh). [paste_down u sh, paste_up]) (List.map_filter asciiToUsage rs))"

lemma typed_reports_simps [simp]:
  "typed_reports [] = []"
  "typed_reports (r # rs) =
     (case asciiToUsage r of None \<Rightarrow> [] | Some (u, sh) \<Rightarrow> [paste_down u sh, paste_up])
       @ typed_reports rs"
  by (simp_all add: typed_reports_def List.map_filter_simps split: option.splits)

lemma typed_reports_ascii: "typed_reports (filter (\<lambda>r. r < 128) rs) = typed_reports rs"
  by (induction rs) (auto simp: asciiToUsage_def split: option.splits)

lemma drop_hid_packet: "drop 41 (hid_packet n f d p i usb) = usb"
  by (simp add: hid_packet_def)

lemma send_keyboard_reports:
  "length usb = 8 \<Longrightarrow>
   map (drop 41) (sent (send_keyboard s usb)) = map (drop 41) (sent s) @ [usb]"
  by (simp add: send_keyboard_eq drop_hid_packet)

lemma paste_runes_prefix:
  "\<exists>n. map (drop 41) (sent (paste_runes alive k rs s))
     = map (drop 41) (sent s) @ take n (typed_reports rs)"
proof (induction alive k rs s rule: paste_runes.induct)
  case (1 alive k s)
  show ?case by simp
next
  case (2 alive k r rs s)
  show ?case
  proof (cases "asciiToUsage r")
    case None
    with 2(1) show ?thesis by simp
  next
    case (Some ush)
    obtain u sh where ush: "ush = (u, sh)" by force
    let ?s1 = "send_keyboard s (paste_down u sh)"
    let ?s2 = "send_keyboard ?s1 paste_up"
    note sent = send_keyboard_reports [of "paste_down u sh" s] send_keyboard_reports [of paste_up ?s1]
    show ?thesis
    proof (cases "alive k \<and> alive (k + 1)")
      case True
      with 2(2) [OF Some ush [symmetric] refl _ refl] obtain n where
        "map (drop 41) (sent (paste_runes alive (k + 2) rs ?s2))
          = map (drop 41) (sent ?s2) @ take n (typed_reports rs)"
        by auto
      with Some ush True sent show ?thesis
        by (intro exI [of _ "n + 2"]) simp
    next
      case False
      then show ?thesis
        using Some ush sent
        by (intro exI [of _ "if alive k then 2 else 1"]) auto
    qed
  qed
qed

lemma paste_runes_all:
  "(\<forall>k. alive k) \<Longrightarrow> map (drop 41) (sent (paste_runes alive k rs s))
     = map (drop 41) (sent s) @ typed_reports rs"
  by (induction alive k rs s rule: paste_runes.induct)
    (simp_all add: send_keyboard_reports Let_def split: option.splits)

lemma paste_runes_keeps:
  "mods (paste_runes alive k rs s) = mods s \<and> pressed (paste_runes alive k rs s) = pressed s"
  by (induction alive k rs s rule: paste_runes.induct)
    (auto simp: send_keyboard_eq Let_def split: option.splits)

text \<open>
  C11. Pasting a text sends a press and a release for each of its ASCII bytes that has a key, in
  the order of the text, and nothing for the rest (UTF-8 sequences of any length included);
  a paste that is interrupted has sent a prefix of those reports. The held keys and
  modifiers are untouched.
\<close>

theorem paste_types_text:
  "let before = map (drop 41) (sent s); t = CutText alive s text;
       reports = typed_reports (filter (\<lambda>b. b < 128) (map unat text)) in
   (\<exists>n. map (drop 41) (sent t) = before @ take n reports)
   \<and> ((\<forall>k. alive k) \<longrightarrow> map (drop 41) (sent t) = before @ reports)
   \<and> mods t = mods s \<and> pressed t = pressed s"
proof -
  let ?rs = "runes (map unat text)"
  have "typed_reports (filter (\<lambda>b. b < 128) (map unat text)) = typed_reports ?rs"
    by (metis typed_reports_ascii runes_ascii_part)
  then show ?thesis
    using paste_runes_prefix [of alive 0 ?rs s] paste_runes_all [of alive 0 ?rs s]
      paste_runes_keeps [of alive 0 ?rs s]
    by (auto simp: Let_def CutText_def)
qed

lemma paste_types_text_witness: "map (drop 41) (sent (CutText (\<lambda>_. True) (NewSink 0 0) (go_string ''A!''))) =
  [[2,0,4,0,0,0,0,0], paste_up, [2,0,30,0,0,0,0,0], paste_up]"
proof -
  have u: "map_get usbUsage 65 = 4" "map_get usbUsage 33 = 30"
    by (simp_all only: usbUsage_eval map_get.simps) simp_all
  have "asciiToUsage 65 = Some (4, True)" "asciiToUsage 33 = Some (30, True)"
    using u by (simp_all add: asciiToUsage_def Let_def shiftedASCII_eval)
  then show ?thesis
    using paste_types_text [of "NewSink 0 0" "\<lambda>_. True" "go_string ''A!''"]
    by (simp add: Let_def go_string_def NewSink_def paste_down_def mod_bits)
       (simp add: eval_nat_numeral)
qed

section \<open>Everything a sink sends\<close>

lemma hid_packet_fields:
  "get_le32 (hid_packet n f d p i usb) 32 = n"
proof -
  have "hid_packet n f d p i usb = (ivtp_marshal \<lparr>Type = opHIDPkt, Size = of_nat (33 + length usb), Status = 0\<rparr>
     @ take 24 (iusb_hid_header (- sum_list (iusb_hid_header 0 n f d p i)) n f d p i))
     @ le32 n @ [0, 0, 0, 0, of_nat (length usb)] @ usb"
    by (simp add: hid_packet_def) (simp add: iusb_hid_header_def go_string_def)
  then show ?thesis
    by (simp add: wire_simps)
qed

lemma sink_inv_reach: "hid_step\<^sup>*\<^sup>* s t \<Longrightarrow> sink_inv s \<Longrightarrow> sink_inv t"
  by (induction rule: rtranclp_induct) (auto intro: sink_inv_step)



end
