(* ===== verification/KvmClient.thy ===== *)
theory KvmClient
  imports KvmWeb Hid
begin

text \<open>
  The client of the KVM video socket (\<^verbatim>\<open>internal/kvm/client.go\<close>) and the sink that waits for it
  (\<^verbatim>\<open>internal/kvm/latesink.go\<close>): connecting, the handshake, and the loop that reassembles
  video frames from fragments.

  The socket's input is the bytes the BMC will send before it closes; its output is the
  packets written, in order, where \<open>write_ok k\<close> says whether the \<open>k\<close>-th write succeeds. The
  web exchanges, dialling and the machine's addresses are parameters. The decoder is a
  parameter too (\<open>decode\<close>, a function on its state): the loop hands it whole frames. Deadlines
  show up only as a socket that closes. Log output and the keep-alive ticker's timing are not
  modelled.
\<close>

section \<open>Handshake\<close>

definition maxFrameBytes :: nat where
  "maxFrameBytes = push_bit 20 8"

definition sendHeader :: "u16 \<Rightarrow> u16 \<Rightarrow> bytes" where
  "sendHeader typ status = ivtp_marshal \<lparr>Type = typ, Size = 0, Status = status\<rparr>"

datatype handshake_err =
    HandshakeRead io_err
  | SessionAcceptedBody io_err
  | SendConnectionComplete
  | SendValidate
  | ValidateBody io_err
  | SessionRejected bytes
  | SendResume
  | SessionRefused u16
  | SkipMessage u16 io_err

text \<open>Results: the bytes left unread, and the packets written so far.\<close>

function handshake ::
  "(nat \<Rightarrow> bool) \<Rightarrow> bytes \<Rightarrow> bytes \<Rightarrow> bytes list \<Rightarrow> bytes list \<times> (handshake_err + bytes)" where
  "handshake write_ok validate r out =
     (case readHeader r of
        Inl e \<Rightarrow> (out, Inl (HandshakeRead e))
      | Inr (h, r') \<Rightarrow>
          if Type h = opSessionAccepted then
            (case discard (unat (Size h)) r' of
               Inl e \<Rightarrow> (out, Inl (SessionAcceptedBody e))
             | Inr r'' \<Rightarrow>
                 if \<not> write_ok (length out) then (out, Inl SendConnectionComplete)
                 else let out = out @ [sendHeader opConnectionComplete 0]
                      in if \<not> write_ok (length out) then (out, Inl SendValidate)
                         else handshake write_ok validate r'' (out @ [validate]))
          else if Type h = opValidateVideoResp then
            (case read_full (unat (Size h)) r' of
               Inl e \<Rightarrow> (out, Inl (ValidateBody e))
             | Inr (body, r'') \<Rightarrow>
                 if body = [] \<or> body ! 0 \<noteq> 1 then (out, Inl (SessionRejected body))
                 else if \<not> write_ok (length out) then (out, Inl SendResume)
                 else (out @ [sendHeader opResumeRedirection 0], Inr r''))
          else if Type h = opStopSession then (out, Inl (SessionRefused (Status h)))
          else
            (case discard (unat (Size h)) r' of
               Inl e \<Rightarrow> (out, Inl (SkipMessage (Type h) e))
             | Inr r'' \<Rightarrow> handshake write_ok validate r'' out))"
  by pat_completeness auto
termination
  by (relation "measure (\<lambda>(w, v, r, out). length r)")
    (auto dest!: readHeader_consumes discard_Inr)

declare handshake.simps [simp del]

section \<open>Connecting\<close>

datatype connect_error =
  WebError web_err | NoToken | DialError | HandshakeError handshake_err

record kvm_client =
  k_in :: bytes
  k_sent :: "bytes list"
  webHost :: bytes
  webCookie :: bytes
  webToken :: bytes
  webArgs :: web_args

text \<open>The result of connecting, and the cookies of the web sessions logged out on the way.\<close>

definition kvm_connect ::
  "bytes option \<Rightarrow> (bytes \<Rightarrow> bytes option) \<Rightarrow> bytes option \<Rightarrow> (nat \<Rightarrow> bool) \<Rightarrow> bytes \<times> bytes
     \<Rightarrow> bytes \<Rightarrow> bytes \<Rightarrow> (connect_error + kvm_client) \<times> bytes list" where
  "kvm_connect create jnlp dialled write_ok local_addr host user =
     (case FetchLaunchArgs create jnlp of
        Inl e \<Rightarrow> (Inl (WebError e), [])
      | Inr (args, cookie) \<Rightarrow>
          (let token = web_arg args ''kvmtoken''
           in if token = [] then (Inl NoToken, Logout cookie)
              else let webcookie = web_arg args ''webcookie'';
                       webcookie = (if webcookie = [] then cookie else webcookie)
                   in case dialled of
                        None \<Rightarrow> (Inl DialError, Logout webcookie)
                      | Some conn \<Rightarrow>
                          (let validate = buildValidatePacket token (fst local_addr) user (snd local_addr)
                           in case handshake write_ok validate conn [] of
                                (out, Inl e) \<Rightarrow> (Inl (HandshakeError e), Logout webcookie)
                              | (out, Inr r) \<Rightarrow>
                                  (Inr \<lparr>k_in = r, k_sent = out, webHost = host, webCookie = webcookie,
                                        webToken = token, webArgs = args\<rparr>, []))))"

definition VMediaSession :: "kvm_client \<Rightarrow> bytes \<times> web_args" where
  "VMediaSession c = (webToken c, webArgs c)"

definition kvm_Close :: "kvm_client \<Rightarrow> kvm_client \<times> bytes list" where
  "kvm_Close c = (c\<lparr>webCookie := []\<rparr>, Logout (webCookie c))"

section \<open>The read loop\<close>

datatype loop_err = LoopIO io_err | FrameTooLarge

text \<open>
  \<open>frame\<close> is the partial frame; \<open>seq\<close> counts the frames, which are handed on in the order of
  the result.
\<close>

function readLoop ::
  "bytes \<Rightarrow> bytes \<Rightarrow> nat \<Rightarrow> (nat \<times> bytes) list \<Rightarrow> (nat \<times> bytes) list \<times> loop_err" where
  "readLoop r frame seq frames =
     (case readHeader r of
        Inl e \<Rightarrow> (frames, LoopIO e)
      | Inr (h, r') \<Rightarrow>
          if Type h = opVideoFragment then
            if unat (Size h) < 2 then
              (case discard (unat (Size h)) r' of
                 Inl e \<Rightarrow> (frames, LoopIO e)
               | Inr r'' \<Rightarrow> readLoop r'' frame seq frames)
            else
              (case read_full 2 r' of
                 Inl e \<Rightarrow> (frames, LoopIO e)
               | Inr (fn, r'') \<Rightarrow>
                   (let fragNum = get_le16 fn 0;
                        dataLen = unat (Size h) - 2;
                        frame = (if fragNum AND 0x7fff = 0 then [] else frame)
                    in if maxFrameBytes < length frame + dataLen then (frames, FrameTooLarge)
                       else case read_full dataLen r'' of
                              Inl e \<Rightarrow> (frames, LoopIO e)
                            | Inr (d, r''') \<Rightarrow>
                                (let frame = frame @ d
                                 in if fragNum AND 0x8000 \<noteq> 0
                                    then readLoop r''' [] (seq + 1) (frames @ [(seq + 1, frame)])
                                    else readLoop r''' frame seq frames)))
          else
            (case discard (unat (Size h)) r' of
               Inl e \<Rightarrow> (frames, LoopIO e)
             | Inr r'' \<Rightarrow> readLoop r'' frame seq frames))"
  by pat_completeness auto
termination
  by (relation "measure (\<lambda>(r, frame, seq, frames). length r)")
    (auto dest!: readHeader_consumes discard_Inr read_full_Inr)

declare readLoop.simps [simp del]

text \<open>A frame handed on is decoded; one that decodes is passed to the listener.\<close>

definition handleFrame :: "('d \<Rightarrow> bytes \<Rightarrow> 'd \<times> 'f option) \<Rightarrow> 'd \<times> 'f list \<Rightarrow> nat \<times> bytes \<Rightarrow> 'd \<times> 'f list" where
  "handleFrame decode st seq_frame =
     (let (d, shown) = st; (d', f) = decode d (snd seq_frame)
      in (d', case f of None \<Rightarrow> shown | Some f \<Rightarrow> shown @ [f]))"

definition client_run :: "('d \<Rightarrow> bytes \<Rightarrow> 'd \<times> 'f option) \<Rightarrow> 'd \<Rightarrow> bytes \<Rightarrow> ('d \<times> 'f list) \<times> loop_err" where
  "client_run decode d r =
     (let (frames, e) = readLoop r [] 0 [] in (foldl (handleFrame decode) (d, []) frames, e))"

text \<open>
  \<open>Run\<close> ends with the read loop or, having read \<open>n\<close> bytes, with the cancelled context, and closes the client. Its
  ticker sends a keep-alive packet per tick until a write fails.
\<close>

datatype run_end = RunCancelled | RunEnded loop_err

definition kvm_Run ::
  "('d \<Rightarrow> bytes \<Rightarrow> 'd \<times> 'f option) \<Rightarrow> 'd \<Rightarrow> nat option \<Rightarrow> kvm_client
     \<Rightarrow> kvm_client \<times> 'f list \<times> run_end \<times> bytes list" where
  "kvm_Run decode d cancelled c =
     (let stream = (case cancelled of None \<Rightarrow> k_in c | Some n \<Rightarrow> take n (k_in c));
          ((d, shown), e) = client_run decode d stream;
          (c, logouts) = kvm_Close c
      in (c, shown, (case cancelled of None \<Rightarrow> RunEnded e | Some _ \<Rightarrow> RunCancelled), logouts))"

fun keepAlive :: "(nat \<Rightarrow> bool) \<Rightarrow> nat \<Rightarrow> nat \<Rightarrow> bytes list" where
  "keepAlive write_ok k 0 = []"
| "keepAlive write_ok k (Suc ticks) =
     (if write_ok k then sendHeader opKeepAlive 0 # keepAlive write_ok (Suc k) ticks else [])"

section \<open>The late sink\<close>

text \<open>Input is discarded until the real sink is published.\<close>

type_synonym late_sink = "hid_sink option"

definition newLateSink :: late_sink where "newLateSink = None"
definition late_set :: "late_sink \<Rightarrow> hid_sink \<Rightarrow> late_sink" where "late_set l s = Some s"

definition late_KeyEvent :: "late_sink \<Rightarrow> u32 \<Rightarrow> bool \<Rightarrow> late_sink" where
  "late_KeyEvent l keysym down = (case l of None \<Rightarrow> None | Some s \<Rightarrow> Some (KeyEvent s keysym down))"

definition late_PointerEvent :: "late_sink \<Rightarrow> int \<Rightarrow> int \<Rightarrow> u8 \<Rightarrow> late_sink" where
  "late_PointerEvent l x y buttons =
     (case l of None \<Rightarrow> None | Some s \<Rightarrow> Some (PointerEvent s x y buttons))"

definition late_CutText :: "(nat \<Rightarrow> bool) \<Rightarrow> late_sink \<Rightarrow> bytes \<Rightarrow> late_sink" where
  "late_CutText alive l text = (case l of None \<Rightarrow> None | Some s \<Rightarrow> Some (CutText alive s text))"

section \<open>Reassembling frames\<close>

text \<open>
  What a BMC sends for a frame: its fragments, numbered from zero, the last one flagged, and
  before each fragment any messages of other types.
\<close>

definition enc_message :: "u16 \<times> u16 \<times> bytes \<Rightarrow> bytes" where
  "enc_message m =
     (let (typ, status, body) = m
      in ivtp_marshal \<lparr>Type = typ, Size = of_nat (length body), Status = status\<rparr> @ body)"

definition enc_fragment :: "nat \<Rightarrow> bool \<Rightarrow> bytes \<Rightarrow> bytes" where
  "enc_fragment k final d =
     enc_message (opVideoFragment, 0, le16 (of_nat k OR (if final then 0x8000 else 0)) @ d)"

type_synonym frame_part = "(u16 \<times> u16 \<times> bytes) list \<times> bytes"

fun enc_parts :: "nat \<Rightarrow> frame_part list \<Rightarrow> bytes" where
  "enc_parts k [] = []"
| "enc_parts k ((ms, d) # ps) =
     concat (map enc_message ms) @ enc_fragment k (ps = []) d @ enc_parts (k + 1) ps"

definition frame_data :: "frame_part list \<Rightarrow> bytes" where
  "frame_data ps = concat (map snd ps)"

definition other_message :: "u16 \<times> u16 \<times> bytes \<Rightarrow> bool" where
  "other_message m = (fst m \<noteq> opVideoFragment \<and> length (snd (snd m)) < 2 ^ 32)"

definition frame_wf :: "frame_part list \<Rightarrow> bool" where
  "frame_wf ps =
     (ps \<noteq> [] \<and> length ps \<le> 0x8000 \<and> length (frame_data ps) \<le> maxFrameBytes
      \<and> list_all (\<lambda>p. list_all other_message (fst p)) ps)"

lemma read_message:
  assumes "length body < 2 ^ 32"
  shows "readHeader (enc_message (typ, status, body) @ r)
           = Inr (\<lparr>Type = typ, Size = of_nat (length body), Status = status\<rparr>, body @ r)"
    and "unat (of_nat (length body) :: u32) = length body"
  using assms by (simp_all add: enc_message_def unat_of_nat take_bit_nat_eq_self)

lemma readLoop_message:
  assumes "other_message m"
  shows "readLoop (enc_message m @ r) frame seq frames = readLoop r frame seq frames"
proof -
  obtain ty status body where m: "m = (ty, status, body)" by (metis prod_cases3)
  with assms have "length body < 2 ^ 32" and "ty \<noteq> opVideoFragment"
    by (auto simp: other_message_def)
  then show ?thesis
    by (subst readLoop.simps) (simp add: m read_message)
qed

lemma readLoop_messages:
  "list_all other_message ms
     \<Longrightarrow> readLoop (concat (map enc_message ms) @ r) frame seq frames = readLoop r frame seq frames"
  by (induction ms) (simp_all add: readLoop_message)

lemma fragment_number:
  assumes "k < 0x8000"
  shows "((of_nat k OR (if final then 0x8000 else 0)) AND 0x7fff = (0 :: u16)) \<longleftrightarrow> k = 0"
    and "((of_nat k OR (if final then 0x8000 else 0)) AND 0x8000 \<noteq> (0 :: u16)) \<longleftrightarrow> final"
proof -
  have u: "unat (of_nat k :: u16) = k"
    using assms by (simp add: unat_of_nat take_bit_nat_eq_self)
  then have "(of_nat k :: u16) < 2 ^ 15"
    using assms by (simp add: word_less_nat_alt)
  then have low: "(of_nat k :: u16) AND 0x7fff = of_nat k"
    using less_mask_eq [of "of_nat k :: u16" 15] by (simp add: mask_eq_decr_exp)
  have high: "(of_nat k :: u16) AND 0x8000 = 0"
  proof -
    have "(of_nat k :: u16) AND 0x8000 = of_nat k AND (0x7fff AND 0x8000)"
      by (metis low and.assoc)
    then show ?thesis by simp
  qed
  have nz: "(of_nat k :: u16) = 0 \<longleftrightarrow> k = 0"
    using u by auto
  have split: "(of_nat k OR y) AND z = (of_nat k AND z) OR (y AND z)" for y z :: u16
    by (rule bit.conj_disj_distrib2)
  show "((of_nat k OR (if final then 0x8000 else 0)) AND 0x7fff = (0 :: u16)) \<longleftrightarrow> k = 0"
    by (cases final) (simp_all only: split low if_True if_False, simp_all add: nz)
  show "((of_nat k OR (if final then 0x8000 else 0)) AND 0x8000 \<noteq> (0 :: u16)) \<longleftrightarrow> final"
    by (cases final) (simp_all only: split high if_True if_False, simp_all)
qed

lemma readLoop_fragment_message:
  assumes body: "body = le16 n @ d" and len: "length frame + length d \<le> maxFrameBytes"
    and start: "n AND 0x7fff = 0 \<Longrightarrow> frame = []"
  shows "readLoop (enc_message (opVideoFragment, 0, body) @ r) frame seq frames =
     (if n AND 0x8000 \<noteq> 0 then readLoop r [] (seq + 1) (frames @ [(seq + 1, frame @ d)])
      else readLoop r (frame @ d) seq frames)"
proof -
  have l: "length body = length d + 2" and "length body < 2 ^ 32"
    using len by (simp_all add: body maxFrameBytes_def push_bit_eq_mult)
  note h = read_message [OF this(2)]
  have rf: "read_full 2 (body @ r) = Inr (le16 n, d @ r)" by (simp add: body)
  have fn: "get_le16 (le16 n) 0 = n" by (simp add: wire_simps)
  have f: "(if n AND 0x7fff = 0 then [] else frame) = frame"
    using start by simp
  have a: "\<not> length body < 2" and s: "length body - 2 = length d" using l by simp_all
  have g: "\<not> maxFrameBytes < length frame + length d" using len by simp
  show ?thesis
    by (subst readLoop.simps)
      (simp only: h sum.case prod.case ivtp_header.simps a s rf fn f g Let_def if_True if_False
        read_full_append [OF refl] refl)
qed

lemma readLoop_fragment:
  assumes k: "k < 0x8000" and len: "length frame + length d \<le> maxFrameBytes"
    and start: "k = 0 \<Longrightarrow> frame = []"
  shows "readLoop (enc_fragment k final d @ r) frame seq frames =
     (if final then readLoop r [] (seq + 1) (frames @ [(seq + 1, frame @ d)])
      else readLoop r (frame @ d) seq frames)"
  unfolding enc_fragment_def
  by (subst readLoop_fragment_message [OF refl len])
    (use start fragment_number [OF k, of final] in auto)

lemma readLoop_parts:
  assumes "ps \<noteq> []" "k + length ps \<le> 0x8000" "length frame + length (frame_data ps) \<le> maxFrameBytes"
    and "list_all (\<lambda>p. list_all other_message (fst p)) ps" "k = 0 \<Longrightarrow> frame = []"
  shows "readLoop (enc_parts k ps @ r) frame seq frames
           = readLoop r [] (seq + 1) (frames @ [(seq + 1, frame @ frame_data ps)])"
  using assms
proof (induction ps arbitrary: k frame)
  case (Cons p ps)
  obtain ms d where p: "p = (ms, d)" by force
  have ms: "list_all other_message ms" using Cons.prems p by simp
  have k: "k < 0x8000" and len: "length frame + length d \<le> maxFrameBytes"
    using Cons.prems p by (simp_all add: frame_data_def)
  note step = readLoop_fragment [OF k len Cons.prems(5)]
  show ?case
  proof (cases "ps = []")
    case True
    then show ?thesis
      by (simp add: p readLoop_messages [OF ms] step frame_data_def)
  next
    case False
    have "readLoop (enc_parts (k + 1) ps @ r) (frame @ d) seq frames
        = readLoop r [] (seq + 1) (frames @ [(seq + 1, (frame @ d) @ frame_data ps)])"
      using False Cons.prems p by (intro Cons.IH) (simp_all add: frame_data_def)
    with False show ?thesis
      by (simp add: p readLoop_messages [OF ms] step frame_data_def)
  qed
qed simp

lemma readLoop_frames:
  assumes "list_all frame_wf fs"
  shows "readLoop (concat (map (enc_parts 0) fs)) [] seq frames =
     (frames @ zip [seq + 1 ..< seq + 1 + length fs] (map frame_data fs), LoopIO EOF)"
  using assms
proof (induction fs arbitrary: seq frames)
  case Nil
  show ?case by (subst readLoop.simps) (simp add: readHeader_def read_full_def HeaderSize_def)
next
  case (Cons ps fs)
  have "readLoop (enc_parts 0 ps @ concat (map (enc_parts 0) fs)) [] seq frames
      = readLoop (concat (map (enc_parts 0) fs)) [] (seq + 1) (frames @ [(seq + 1, [] @ frame_data ps)])"
    using Cons.prems by (intro readLoop_parts) (simp_all add: frame_wf_def)
  moreover have "[seq + 1 ..< seq + 1 + length (ps # fs)] = (seq + 1) # [seq + 1 + 1 ..< seq + 1 + 1 + length fs]"
    by (simp add: upt_conv_Cons del: upt_Suc)
  ultimately show ?case
    using Cons.IH [of "seq + 1" "frames @ [(seq + 1, frame_data ps)]"] Cons.prems
    by (simp only: list.map concat.simps list.pred_inject zip_Cons_Cons append_Nil append_assoc append_Cons)
qed

text \<open>
  C25. The read loop reassembles frames: for any sequence of frames, each cut into at most
  32768 fragments of any sizes with any other messages between them and at most 8 MiB long
  in all, the loop hands on exactly the frames, in order and numbered from 1, and ends when the
  connection does.
\<close>

theorem video_frames_reassembled:
  assumes "list_all frame_wf fs"
  shows "readLoop (concat (map (enc_parts 0) fs)) [] 0 [] =
     (zip [1 ..< length fs + 1] (map frame_data fs), LoopIO EOF)"
proof -
  have "[0 + 1 ..< 0 + 1 + length fs] = [1 ..< length fs + 1]" by simp
  with readLoop_frames [OF assms, of 0 "[]"] show ?thesis by (simp only: append_Nil)
qed

lemma video_frames_reassembled_witness:
  "readLoop (concat (map (enc_parts 0)
       [[([], [1, 2]), ([(57, 0, [9, 9, 9])], [3])], [([(23, 1, [])], [4, 5])]])) [] 0 []
     = ([(1, [1, 2, 3]), (2, [4, 5])], LoopIO EOF)"
  using video_frames_reassembled
    [of "[[([], [1, 2]), ([(57, 0, [9, 9, 9])], [3])], [([(23, 1, [])], [4, 5])]]"]
  by (simp add: frame_wf_def frame_data_def other_message_def maxFrameBytes_def opVideoFragment_def
      push_bit_eq_mult upt_rec del: enc_parts.simps)

definition frames_ok :: "(nat \<times> bytes) list \<Rightarrow> bool" where
  "frames_ok fs =
     (list_all (\<lambda>f. length (snd f) \<le> maxFrameBytes) fs \<and> map fst fs = [1 ..< length fs + 1])"

lemma frames_ok_snoc:
  "frames_ok fs \<Longrightarrow> length f \<le> maxFrameBytes \<Longrightarrow> frames_ok (fs @ [(length fs + 1, f)])"
  by (simp add: frames_ok_def)

lemma readLoop_frames_ok:
  assumes "frames_ok frames" and "readLoop r frame (length frames) frames = (out, e)"
  shows "frames_ok out"
  using assms
proof (induction "length r" arbitrary: r frame frames rule: less_induct)
  case less
  have rec: "frames_ok out"
    if "readLoop r' f (length frames) frames = (out, e)" "length r' < length r" for r' f
    using less that by blast
  have snoc: "frames_ok out"
    if "readLoop r' [] (Suc (length frames)) (frames @ [(Suc (length frames), f)]) = (out, e)"
      "length f \<le> maxFrameBytes" "length r' < length r" for r' f
    using less.hyps [OF that(3) frames_ok_snoc [OF less.prems(1) that(2)]] that(1) by simp
  have fin: "frames = out \<Longrightarrow> frames_ok out"
    using less.prems(1) by simp
  note [dest!] = readHeader_consumes discard_Inr read_full_Inr
  show ?case
    using less.prems(2)
    by (subst (asm) readLoop.simps)
      (auto simp: Let_def not_less intro: fin rec snoc split: sum.splits prod.splits if_splits)
qed

text \<open>
  Whatever a peer sends, and in whatever fragments, no frame longer than 8 MiB is handed
  on, and the frames are numbered without a gap from 1.
\<close>

theorem video_frames_bounded:
  "list_all (\<lambda>f. length (snd f) \<le> maxFrameBytes) (fst (readLoop r [] 0 []))
   \<and> map fst (fst (readLoop r [] 0 [])) = [1 ..< length (fst (readLoop r [] 0 [])) + 1]"
  using readLoop_frames_ok [of "[]" r "[]" "fst (readLoop r [] 0 [])" "snd (readLoop r [] 0 [])"]
  by (simp add: frames_ok_def)

section \<open>The handshake and the session's lifetime\<close>

lemma le16_get [simp]: "length b = 2 \<Longrightarrow> le16 (get_le16 b 0) = b"
proof -
  assume "length b = 2"
  then obtain x y where b: "b = [x, y]"
    by (auto simp: numeral_2_eq_2 length_Suc_conv)
  show ?thesis
    by (simp add: b le16_def get_le16_def, intro conjI; rule bit_word_eqI)
      (auto simp: bit_simps dest: bit_imp_le_length)
qed

lemma le32_get [simp]: "length b = 4 \<Longrightarrow> le32 (get_le32 b 0) = b"
proof -
  assume "length b = 4"
  then obtain x y z w where b: "b = [x, y, z, w]"
    by (auto simp: eval_nat_numeral length_Suc_conv)
  show ?thesis
    by (simp add: b le32_def get_le32_def, intro conjI; rule bit_word_eqI)
      (auto simp: bit_simps dest: bit_imp_le_length)
qed

lemma get_slice:
  "off + 2 \<le> length b \<Longrightarrow> get_le16 b off = get_le16 (slice off (off + 2) b) 0"
  "off + 4 \<le> length b \<Longrightarrow> get_le32 b off = get_le32 (slice off (off + 4) b) 0"
  by (simp_all add: get_le16_def get_le32_def slice_def)

lemma readHeader_Inr: "readHeader r = Inr (h, r') \<Longrightarrow> r = ivtp_marshal h @ r'"
proof -
  assume r: "readHeader r = Inr (h, r')"
  then obtain b where b: "r = b @ r'" "length b = 8"
    and h: "h = \<lparr>Type = get_le16 b 0, Size = get_le32 b 2, Status = get_le16 b 6\<rparr>"
    by (auto simp: readHeader_def HeaderSize_def dest: read_full_Inr split: sum.splits)
  have parts: "b = slice 0 2 b @ slice 2 6 b @ slice 6 8 b"
    using append_take_drop_id [of 2 b] append_take_drop_id [of 4 "drop 2 b"] b(2)
    by (simp add: slice_def)
  have "ivtp_marshal h = slice 0 2 b @ slice 2 6 b @ slice 6 8 b"
    using b(2) get_slice(1) [of 0 b] get_slice(2) [of 2 b] get_slice(1) [of 6 b]
    by (simp add: ivtp_marshal_def h HeaderSize_def blit_def slice_def numeral_2_eq_2)
  with parts b show ?thesis by simp
qed

definition handshake_ms :: "(u16 \<times> u16 \<times> bytes) list \<Rightarrow> bool" where
  "handshake_ms ms =
     list_all (\<lambda>m. fst m \<noteq> opValidateVideoResp \<and> fst m \<noteq> opStopSession \<and> length (snd (snd m)) < 2 ^ 32) ms"

definition session_replies :: "bytes \<Rightarrow> (u16 \<times> u16 \<times> bytes) list \<Rightarrow> bytes list" where
  "session_replies validate ms =
     concat (map (\<lambda>m. if fst m = opSessionAccepted then [sendHeader opConnectionComplete 0, validate] else []) ms)"

lemma ivtp_header_eta [simp]: "\<lparr>Type = Type h, Size = Size h, Status = Status h\<rparr> = h"
  by simp

lemma discarded_message:
  assumes "readHeader r = Inr (h, r')" "discard (unat (Size h)) r' = Inr r''"
  obtains body where "r = enc_message (Type h, Status h, body) @ r''" "length body < 2 ^ 32"
proof -
  let ?body = "take (unat (Size h)) r'"
  have r'': "r'' = drop (unat (Size h)) r'" and l: "length ?body = unat (Size h)"
    using discard_Inr [OF assms(2)] by auto
  have "unat (Size h) < 2 ^ LENGTH(32)" by (rule unsigned_less)
  with l have "length ?body < 2 ^ 32" by simp
  moreover have "of_nat (length ?body) = Size h"
    unfolding l by simp
  then have "r = enc_message (Type h, Status h, ?body) @ r''"
    using readHeader_Inr [OF assms(1)] r'' by (simp add: enc_message_def)
  ultimately show ?thesis using that by blast
qed

lemma read_message_inv:
  assumes "readHeader r = Inr (h, r')" "read_full (unat (Size h)) r' = Inr (body, r'')"
  shows "r = enc_message (Type h, Status h, body) @ r'' \<and> length body < 2 ^ 32"
proof -
  have "r' = body @ r''" "length body = unat (Size h)"
    using read_full_Inr [OF assms(2)] by auto
  moreover have "unat (Size h) < 2 ^ LENGTH(32)" by (rule unsigned_less)
  ultimately show ?thesis
    using readHeader_Inr [OF assms(1)] by (simp add: enc_message_def)
qed

lemma handshake_Inr:
  assumes "handshake write_ok validate r out = (out', Inr r')"
  shows "\<exists>ms status body. handshake_ms ms \<and> length body < 2 ^ 32
     \<and> r = concat (map enc_message ms) @ enc_message (opValidateVideoResp, status, body) @ r'
     \<and> body \<noteq> [] \<and> body ! 0 = 1
     \<and> out' = out @ session_replies validate ms @ [sendHeader opResumeRedirection 0]"
  using assms
proof (induction "length r" arbitrary: r out rule: less_induct)
  case less
  obtain h r1 where h: "readHeader r = Inr (h, r1)"
    using less.prems by (subst (asm) handshake.simps) (auto split: sum.splits)
  have more: ?case
    if d: "discard (unat (Size h)) r1 = Inr r2" and t: "Type h \<notin> {opValidateVideoResp, opStopSession}"
      and rec: "handshake write_ok validate r2 (out @ session_replies validate [(Type h, Status h, [])]) = (out', Inr r')"
    for r2
  proof -
    obtain body0 where b0: "r = enc_message (Type h, Status h, body0) @ r2" "length body0 < 2 ^ 32"
      using discarded_message [OF h d] by metis
    have "length r2 < length r" by (simp add: b0 enc_message_def)
    from less.hyps [OF this rec] obtain ms status body where
      "handshake_ms ms" "length body < 2 ^ 32"
      "r2 = concat (map enc_message ms) @ enc_message (opValidateVideoResp, status, body) @ r'"
      "body \<noteq> []" "body ! 0 = 1"
      "out' = (out @ session_replies validate [(Type h, Status h, [])]) @ session_replies validate ms
                @ [sendHeader opResumeRedirection 0]"
      by blast
    with b0 t show ?thesis
      by (intro exI [of _ "(Type h, Status h, body0) # ms"] exI [of _ status] exI [of _ body])
        (auto simp: handshake_ms_def session_replies_def)
  qed
  consider (resp) "Type h = opValidateVideoResp" | (stop) "Type h = opStopSession"
    | (other) "Type h \<notin> {opValidateVideoResp, opStopSession}" by blast
  then show ?case
  proof cases
    case resp
    with less.prems h obtain body where b: "read_full (unat (Size h)) r1 = Inr (body, r')"
      "body \<noteq> []" "body ! 0 = 1" "out' = out @ [sendHeader opResumeRedirection 0]"
      by (subst (asm) handshake.simps)
        (auto simp: ivtp_opcodes split: sum.splits prod.splits if_splits)
    with read_message_inv [OF h b(1)] resp show ?thesis
      by (intro exI [of _ "[]"] exI [of _ "Status h"] exI [of _ body])
        (auto simp: handshake_ms_def session_replies_def)
  next
    case stop
    with less.prems h show ?thesis
      by (subst (asm) handshake.simps) (simp add: ivtp_opcodes)
  next
    case other
    with less.prems h obtain r2 where "discard (unat (Size h)) r1 = Inr r2"
      "handshake write_ok validate r2 (out @ session_replies validate [(Type h, Status h, [])]) = (out', Inr r')"
      by (subst (asm) handshake.simps)
        (auto simp: session_replies_def Let_def split: sum.splits if_splits)
    then show ?thesis using other by (intro more)
  qed
qed

lemma handshake_runs:
  assumes "handshake_ms ms" "length body < 2 ^ 32" "body \<noteq> []" "body ! 0 = 1"
  shows "handshake (\<lambda>_. True) validate
       (concat (map enc_message ms) @ enc_message (opValidateVideoResp, status, body) @ r') out
     = (out @ session_replies validate ms @ [sendHeader opResumeRedirection 0], Inr r')"
  using assms(1)
proof (induction ms arbitrary: out)
  case Nil
  show ?case
    using assms by (subst handshake.simps)
      (simp add: read_message ivtp_opcodes session_replies_def)
next
  case (Cons m ms)
  obtain ty st b where m: "m = (ty, st, b)" by (metis prod_cases3)
  with Cons.prems have "length b < 2 ^ 32" "ty \<noteq> opValidateVideoResp" "ty \<noteq> opStopSession" "handshake_ms ms"
    by (auto simp: handshake_ms_def)
  with m show ?case
    by (subst list.map, subst concat.simps, subst append_assoc, subst handshake.simps)
      (simp add: read_message Cons.IH session_replies_def Let_def)
qed

text \<open>
  The client answers and never starts: while no write fails, the handshake succeeds exactly
  on a stream of messages other than validate responses and stops, followed by a validate
  response whose first byte is 1. It has then answered each SESSION_ACCEPTED with CONNECTION_COMPLETE
  and the validate packet, in this order, has sent the resume request last and nothing else, and
  leaves the bytes after the response for the read loop.
\<close>

theorem handshake_outcome:
  "handshake (\<lambda>_. True) validate r [] = (out, Inr r') \<longleftrightarrow>
     (\<exists>ms status body. handshake_ms ms \<and> length body < 2 ^ 32
        \<and> r = concat (map enc_message ms) @ enc_message (opValidateVideoResp, status, body) @ r'
        \<and> body \<noteq> [] \<and> body ! 0 = 1
        \<and> out = session_replies validate ms @ [sendHeader opResumeRedirection 0])"
  using handshake_Inr [of "\<lambda>_. True" validate r "[]" out r'] handshake_runs by fastforce

text \<open>The cookie by which the client knows its web session.\<close>

definition session_cookie :: "web_args \<Rightarrow> bytes \<Rightarrow> bytes" where
  "session_cookie args cookie =
     (if web_arg args ''webcookie'' = [] then cookie else web_arg args ''webcookie'')"

text \<open>
  C31. A web session opened by connecting is not left behind once the launch file is read: if the
  file has no token, if dialling fails or if the handshake fails, one logout is sent, for this
  session's cookie; if connecting succeeds none is sent, the client keeps token and cookie, and
  closing it sends exactly one, however often it is closed. (Before that point, when the
  launch file cannot be fetched, no logout is sent.)
\<close>

theorem connect_session_lifetime:
  "case FetchLaunchArgs create jnlp of
     Inl e \<Rightarrow> kvm_connect create jnlp dialled write_ok local_addr host user = (Inl (WebError e), [])
   | Inr (args, cookie) \<Rightarrow>
       (case kvm_connect create jnlp dialled write_ok local_addr host user of
          (Inl e, logouts) \<Rightarrow>
            logouts = Logout (if web_arg args ''kvmtoken'' = [] then cookie else session_cookie args cookie)
        | (Inr c, logouts) \<Rightarrow>
            logouts = [] \<and> VMediaSession c = (web_arg args ''kvmtoken'', args) \<and> webToken c \<noteq> []
            \<and> snd (kvm_Close c) = Logout (session_cookie args cookie)
            \<and> snd (kvm_Close (fst (kvm_Close c))) = [])"
  by (auto simp: kvm_connect_def Let_def session_cookie_def VMediaSession_def kvm_Close_def Logout_def
      split: sum.splits option.splits prod.splits)

lemma launch_failure_keeps_session:
  assumes "find_cookie body = Some cookie" "jnlp cookie = None"
  shows "kvm_connect (Some body) jnlp dialled write_ok local_addr host user = (Inl (WebError LaunchHTTP), [])"
  using assms by (simp add: kvm_connect_def FetchLaunchArgs_def)

text \<open>However a run ends, the client's web session is logged out once and for all.\<close>

lemma run_logs_out_once:
  assumes "kvm_Run decode d cancelled c = (c', shown, e, logouts)"
  shows "logouts = Logout (webCookie c) \<and> snd (kvm_Close c') = []"
  using assms by (auto simp: kvm_Run_def kvm_Close_def Logout_def Let_def split: prod.splits)

lemma keepAlive_packets: "set (keepAlive write_ok k ticks) \<subseteq> {sendHeader opKeepAlive 0} \<and> length (keepAlive write_ok k ticks) \<le> ticks"
  by (induction write_ok k ticks rule: keepAlive.induct) auto

section \<open>Input before the connection\<close>

text \<open>Input that comes before the sink is published leaves no trace; after it, all reaches the sink.\<close>

lemma late_sink_forwards:
  "late_KeyEvent (late_set newLateSink s) k d = Some (KeyEvent s k d)"
  "late_PointerEvent (late_set newLateSink s) x y b = Some (PointerEvent s x y b)"
  "late_CutText alive (late_set newLateSink s) t = Some (CutText alive s t)"
  "late_set (late_KeyEvent newLateSink k d) s = late_set newLateSink s"
  by (simp_all add: late_KeyEvent_def late_PointerEvent_def late_CutText_def late_set_def)

end
