(* ===== verification/Rfb.thy ===== *)
theory Rfb
  imports GoIO
begin

text \<open>
  The RFB server that feeds the browser (\<^verbatim>\<open>internal/rfb\<close>): the frame source the decoder updates,
  the test pattern, the protocol's handshake, the parser of client messages and the loop that
  answers update requests.

  The reader goroutine and the serving loop communicate through a channel of capacity one (a
  pending request) and the frame source's signal of capacity one. \<open>Serve\<close> runs a schedule: each
  step either parses one client message, lets the decoder publish a frame, or lets the loop
  take a request or stop waiting. The connection's output is the bytes flushed; \<open>flush_ok k\<close> says
  whether the \<open>k\<close>-th flush succeeds, a failed one counting as not sent.
\<close>

section \<open>Frames and their source\<close>

record frame =
  W :: int
  H :: int
  Pix :: bytes

record frame_source =
  fs_frame :: frame
  changed :: bool

definition NewFrameSource :: "int \<Rightarrow> int \<Rightarrow> frame_source" where
  "NewFrameSource w h =
     (let (w, h) = (if w \<le> 0 \<or> h \<le> 0 then (640, 480) else (w, h))
      in \<lparr>fs_frame = \<lparr>W = w, H = h, Pix = replicate (nat (w * h * 4)) 0\<rparr>, changed = False\<rparr>)"

definition Update :: "frame_source \<Rightarrow> int \<Rightarrow> int \<Rightarrow> bytes \<Rightarrow> frame_source" where
  "Update s w h pix =
     (if w \<le> 0 \<or> h \<le> 0 \<or> int (length pix) < w * h * 4 then s
      else s\<lparr>fs_frame := \<lparr>W = w, H = h, Pix = pix\<rparr>, changed := True\<rparr>)"

definition fs_Frame :: "frame_source \<Rightarrow> frame" where
  "fs_Frame s = fs_frame s"

section \<open>The test pattern\<close>

record test_pattern =
  tp_w :: int
  tp_h :: int
  tp_frame :: "frame option"
  tick :: int

text \<open>Go's \<^verbatim>\<open>/\<close> and \<^verbatim>\<open>%\<close> truncate towards zero.\<close>

definition truncated_rem :: "int \<Rightarrow> int \<Rightarrow> int" where
  "truncated_rem a b = sgn a * (\<bar>a\<bar> mod \<bar>b\<bar>)"

definition pattern_pixel :: "int \<Rightarrow> int \<Rightarrow> int \<Rightarrow> int \<Rightarrow> int \<Rightarrow> bytes" where
  "pattern_pixel h off box x y =
     (if box \<le> x \<and> x < box + 80 \<and> h div 2 - 40 \<le> y \<and> y < h div 2 + 40 then [255, 200, 0, 0]
      else [of_int (x + y), of_int (y + off), of_int (x + off), 0])"

definition render :: "test_pattern \<Rightarrow> test_pattern go" where
  "render tp =
     (if tp_w tp * tp_h tp < 0 then Inl SliceOutOfRange
      else if tp_w tp = 80 then Inl DivideByZero
      else let w = tp_w tp; h = tp_h tp;
               off = truncated_rem (tick tp * 4) 256;
               box = truncated_rem (tick tp * 6) (w - 80);
               pix = concat (map (\<lambda>y. concat (map (\<lambda>x. pattern_pixel h off box (int x) (int y)) [0 ..< nat w]))
                       [0 ..< nat h])
           in Inr (tp\<lparr>tp_frame := Some \<lparr>W = w, H = h, Pix = pix\<rparr>\<rparr>))"

definition NewTestPattern :: "int \<Rightarrow> int \<Rightarrow> test_pattern go" where
  "NewTestPattern w h = render \<lparr>tp_w = w, tp_h = h, tp_frame = None, tick = 0\<rparr>"

definition tp_tick :: "test_pattern \<Rightarrow> test_pattern go" where
  "tp_tick tp = render (tp\<lparr>tick := tick tp + 1\<rparr>)"

section \<open>What the server writes\<close>

definition encDesktopSize :: u32 where
  "encDesktopSize = - 223"

definition u16_of :: "int \<Rightarrow> u16" where
  "u16_of n = of_int n"

definition update_header :: "int \<Rightarrow> int \<Rightarrow> u32 \<Rightarrow> bytes" where
  "update_header w h encoding =
     (let hdr = replicate 16 0;
          hdr = hdr[0 := 0];
          hdr = blit 2 (be16 1) hdr;
          hdr = blit 4 (be16 0) hdr;
          hdr = blit 6 (be16 0) hdr;
          hdr = blit 8 (be16 (u16_of w)) hdr;
          hdr = blit 10 (be16 (u16_of h)) hdr
      in blit 12 (be32 encoding) hdr)"

definition writeDesktopSize :: "int \<Rightarrow> int \<Rightarrow> bytes" where
  "writeDesktopSize newW newH = update_header newW newH encDesktopSize"

definition writeServerInit :: "int \<Rightarrow> int \<Rightarrow> bytes \<Rightarrow> bytes" where
  "writeServerInit width height name =
     (let b = replicate 24 0;
          b = blit 0 (be16 (u16_of width)) b;
          b = blit 2 (be16 (u16_of height)) b;
          b = b[4 := 32, 5 := 24, 6 := 0, 7 := 1];
          b = blit 8 (be16 255) b;
          b = blit 10 (be16 255) b;
          b = blit 12 (be16 255) b;
          b = b[14 := 0, 15 := 8, 16 := 16];
          b = blit 20 (be32 (of_nat (length name))) b
      in b @ name)"

definition writeFrame :: "frame \<Rightarrow> bytes" where
  "writeFrame f =
     (if W f = 0 \<or> H f = 0 then [] else update_header (W f) (H f) 0 @ Pix f)"

section \<open>Handshake\<close>

datatype rfb_err = RfbIO io_err | WriteError | UnknownMessage u8 | CutTextTooLong nat | ContextDone

text \<open>
  The three reads of the handshake and what is flushed before each; the result keeps the
  unread input.
\<close>

definition rfb_handshake :: "(nat \<Rightarrow> bool) \<Rightarrow> frame \<Rightarrow> bytes \<Rightarrow> bytes \<times> (rfb_err + bytes)" where
  "rfb_handshake flush_ok f r =
     (if \<not> flush_ok 0 then ([], Inl WriteError)
      else let out = go_string ''RFB 003.008'' @ [10]
      in case read_full 12 r of
           Inl e \<Rightarrow> (out, Inl (RfbIO e))
         | Inr (ver, r) \<Rightarrow>
     (if \<not> flush_ok 1 then (out, Inl WriteError)
      else let out = out @ [1, 1]
      in case read_full 1 r of
           Inl e \<Rightarrow> (out, Inl (RfbIO e))
         | Inr (sec, r) \<Rightarrow>
     (if \<not> flush_ok 2 then (out, Inl WriteError)
      else let out = out @ be32 0
      in case read_full 1 r of
           Inl e \<Rightarrow> (out, Inl (RfbIO e))
         | Inr (ci, r) \<Rightarrow>
     (if \<not> flush_ok 3 then (out, Inl WriteError)
      else (out @ writeServerInit (W f) (H f) (go_string ''RD450X KVM''), Inr r)))))"

section \<open>Client messages\<close>

datatype client_event =
    NoEvent
  | UpdateRequest bool
  | Key u32 bool
  | Pointer int int u8
  | Cut bytes
  | Encodings bool

fun read_encodings :: "nat \<Rightarrow> bytes \<Rightarrow> bool \<Rightarrow> bool \<times> (io_err + bytes)" where
  "read_encodings 0 r seen = (seen, Inr r)"
| "read_encodings (Suc n) r seen =
     (case read_full 4 r of
        Inl e \<Rightarrow> (seen, Inl e)
      | Inr (b, r) \<Rightarrow> read_encodings n r (seen \<or> get_be32 b 0 = encDesktopSize))"

text \<open>
  One round of \<^verbatim>\<open>readMessages\<close>: what the message asks for, and the unread input or the error that
  ends the reader. An encoding list that is cut off can still have announced \<^verbatim>\<open>DesktopSize\<close>.
\<close>

definition read_message_fixed :: "nat \<Rightarrow> bytes \<Rightarrow> (bytes \<Rightarrow> client_event) \<Rightarrow> client_event \<times> (rfb_err + bytes)" where
  "read_message_fixed n r k =
     (case read_full n r of Inl e \<Rightarrow> (NoEvent, Inl (RfbIO e)) | Inr (b, r) \<Rightarrow> (k b, Inr r))"

definition readMessage :: "bytes \<Rightarrow> client_event \<times> (rfb_err + bytes)" where
  "readMessage r =
     (case r of
        [] \<Rightarrow> (NoEvent, Inl (RfbIO EOF))
      | ty # r \<Rightarrow>
          if ty = 0 then
            (case discard 19 r of Inl e \<Rightarrow> (NoEvent, Inl (RfbIO e)) | Inr r \<Rightarrow> (NoEvent, Inr r))
          else if ty = 2 then
            (case read_full 3 r of
               Inl e \<Rightarrow> (NoEvent, Inl (RfbIO e))
             | Inr (b, r) \<Rightarrow>
                 (case read_encodings (unat (get_be16 b 1)) r False of
                    (seen, Inl e) \<Rightarrow> (Encodings seen, Inl (RfbIO e))
                  | (seen, Inr r) \<Rightarrow> (Encodings seen, Inr r)))
          else if ty = 3 then read_message_fixed 9 r (\<lambda>b. UpdateRequest (b ! 0 \<noteq> 0))
          else if ty = 4 then read_message_fixed 7 r (\<lambda>b. Key (get_be32 b 3) (b ! 0 \<noteq> 0))
          else if ty = 5 then
            read_message_fixed 5 r
              (\<lambda>b. Pointer (uint (get_be16 b 1)) (uint (get_be16 b 3)) (b ! 0))
          else if ty = 6 then
            (case read_full 7 r of
               Inl e \<Rightarrow> (NoEvent, Inl (RfbIO e))
             | Inr (b, r) \<Rightarrow>
                 (let n = unat (get_be32 b 3)
                  in if push_bit 20 1 < n then (NoEvent, Inl (CutTextTooLong n))
                     else read_message_fixed n r Cut))
          else (NoEvent, Inl (UnknownMessage ty)))"

section \<open>Serving\<close>

record serve =
  input :: bytes
  buffered :: bytes
  wire :: bytes
  flushes :: nat
  src :: frame_source
  seen :: "client_event list"
  reqc :: "bool option"
  errc :: "rfb_err option"
  desktopSizeOK :: bool
  waiting :: bool
  lastW :: int
  lastH :: int

text \<open>
  What can happen next: the reader parses a message, the decoder publishes a frame, or the loop
  takes what is ready in one of its channels. Taking from a channel with nothing in it is no step.
\<close>

datatype sched =
  ReadNext | Publish int int bytes | TakeRequest | TakeChanged | TakeError | TakeDone

definition read_next :: "serve \<Rightarrow> serve" where
  "read_next st =
     (if errc st \<noteq> None then st
      else let (ev, r) = readMessage (input st);
               st = st\<lparr>seen := seen st @ [ev]\<rparr>;
               st = (case ev of
                       UpdateRequest incremental \<Rightarrow>
                         (if reqc st = None then st\<lparr>reqc := Some incremental\<rparr> else st)
                     | Encodings True \<Rightarrow> st\<lparr>desktopSizeOK := True\<rparr>
                     | _ \<Rightarrow> st)
           in case r of Inl e \<Rightarrow> st\<lparr>errc := Some e\<rparr> | Inr rest \<Rightarrow> st\<lparr>input := rest\<rparr>)"

definition send_frame :: "(nat \<Rightarrow> bool) \<Rightarrow> serve \<Rightarrow> serve \<times> rfb_err option" where
  "send_frame flush_ok st =
     (let f = fs_Frame (src st);
          resize = (if (W f \<noteq> lastW st \<or> H f \<noteq> lastH st) \<and> desktopSizeOK st
                    then writeDesktopSize (W f) (H f) else []);
          pending = buffered st @ resize;
          st = st\<lparr>lastW := W f, lastH := H f, waiting := False, buffered := pending\<rparr>
      in if W f = 0 \<or> H f = 0 then (st, None)
         else let st = st\<lparr>flushes := flushes st + 1, buffered := []\<rparr>
              in if flush_ok (flushes st) then (st\<lparr>wire := wire st @ pending @ writeFrame f\<rparr>, None)
                 else (st, Some WriteError))"

definition serve_step :: "(nat \<Rightarrow> bool) \<Rightarrow> serve \<Rightarrow> sched \<Rightarrow> serve \<times> rfb_err option" where
  "serve_step flush_ok st a =
     (case a of
        ReadNext \<Rightarrow> (read_next st, None)
      | Publish w h pix \<Rightarrow> (st\<lparr>src := Update (src st) w h pix\<rparr>, None)
      | TakeDone \<Rightarrow> (st, Some ContextDone)
      | TakeError \<Rightarrow> (st, errc st)
      | TakeRequest \<Rightarrow>
          (if waiting st then (st, None)
           else case reqc st of
                  None \<Rightarrow> (st, None)
                | Some incremental \<Rightarrow>
                    (let st = st\<lparr>reqc := None\<rparr>
                     in if incremental then (st\<lparr>waiting := True\<rparr>, None) else send_frame flush_ok st))
      | TakeChanged \<Rightarrow>
          (if waiting st \<and> changed (src st)
           then send_frame flush_ok (st\<lparr>src := (src st)\<lparr>changed := False\<rparr>\<rparr>)
           else (st, None)))"

fun serve_run :: "(nat \<Rightarrow> bool) \<Rightarrow> serve \<Rightarrow> sched list \<Rightarrow> serve \<times> rfb_err option" where
  "serve_run flush_ok st [] = (st, None)"
| "serve_run flush_ok st (a # as) =
     (case serve_step flush_ok st a of
        (st, Some e) \<Rightarrow> (st, Some e)
      | (st, None) \<Rightarrow> serve_run flush_ok st as)"

text \<open>
  \<open>s0\<close> is the source when ServerInit is written, \<open>s1\<close> when the loop notes the size it believes
  it has told the client.
\<close>

definition serve_start :: "bytes \<Rightarrow> bytes \<Rightarrow> frame_source \<Rightarrow> serve" where
  "serve_start out r s1 =
     \<lparr>input = r, buffered = [], wire = out, flushes = 3, src = s1, seen = [], reqc = None, errc = None,
      desktopSizeOK = False, waiting = False, lastW = W (fs_Frame s1), lastH = H (fs_Frame s1)\<rparr>"

definition rfb_Serve ::
  "(nat \<Rightarrow> bool) \<Rightarrow> frame_source \<Rightarrow> frame_source \<Rightarrow> bytes \<Rightarrow> sched list \<Rightarrow> rfb_err + (serve \<times> rfb_err option)" where
  "rfb_Serve flush_ok s0 s1 r as =
     (case rfb_handshake flush_ok (fs_Frame s0) r of
        (out, Inl e) \<Rightarrow> Inl e
      | (out, Inr r) \<Rightarrow> Inr (serve_run flush_ok (serve_start out r s1) as))"

text \<open>The input events that reach the sink.\<close>

definition to_sink :: "client_event list \<Rightarrow> client_event list" where
  "to_sink evs =
     filter (\<lambda>ev. case ev of Key _ _ \<Rightarrow> True | Pointer _ _ _ \<Rightarrow> True | Cut _ \<Rightarrow> True | _ \<Rightarrow> False) evs"

section \<open>Client messages arrive in order\<close>

definition flag_byte :: "bool \<Rightarrow> u8" where
  "flag_byte b = (if b then 1 else 0)"

text \<open>The messages as a client writes them; an encoding list may announce DesktopSize or be empty.\<close>

fun enc_client :: "client_event \<Rightarrow> bytes" where
  "enc_client NoEvent = [0] @ replicate 19 0"
| "enc_client (UpdateRequest i) = [3] @ [flag_byte i] @ replicate 8 0"
| "enc_client (Key keysym down) = [4] @ [flag_byte down, 0, 0] @ be32 keysym"
| "enc_client (Pointer x y buttons) = [5] @ [buttons] @ be16 (u16_of x) @ be16 (u16_of y)"
| "enc_client (Cut t) = [6] @ ([0, 0, 0] @ be32 (of_nat (length t))) @ t"
| "enc_client (Encodings s) =
     [2] @ ([0] @ be16 (if s then 1 else 0)) @ (if s then be32 encDesktopSize else [])"

fun client_event_wf :: "client_event \<Rightarrow> bool" where
  "client_event_wf (Pointer x y buttons) = (0 \<le> x \<and> x < 65536 \<and> 0 \<le> y \<and> y < 65536)"
| "client_event_wf (Cut t) = (length t \<le> 1048576)"
| "client_event_wf _ = True"

definition parse_client :: "bytes \<Rightarrow> rfb_err + (client_event \<times> bytes)" where
  "parse_client s = (case readMessage s of (ev, Inl e) \<Rightarrow> Inl e | (ev, Inr r) \<Rightarrow> Inr (ev, r))"

lemma uint_u16_of: "0 \<le> x \<Longrightarrow> x < 65536 \<Longrightarrow> uint (u16_of x) = x"
  by (simp add: u16_of_def uint_word_of_int)

lemma flag_byte_nz [simp]: "flag_byte b \<noteq> 0 \<longleftrightarrow> b" "flag_byte b = 0 \<longleftrightarrow> \<not> b"
  by (simp_all add: flag_byte_def)

lemma read_message_fixed_append [simp]:
  "length b = n \<Longrightarrow> read_message_fixed n (b @ s) k = (k b, Inr s)"
  by (simp add: read_message_fixed_def)

lemma parse_client_enc: "client_event_wf ev \<Longrightarrow> parse_client (enc_client ev @ s) = Inr (ev, s)"
proof (cases ev)
  case (Key keysym down)
  have "read_message_fixed 7 (([flag_byte down, 0, 0] @ be32 keysym) @ s) k
      = (k ([flag_byte down, 0, 0] @ be32 keysym), Inr s)" for k
    by (rule read_message_fixed_append) simp
  with Key show ?thesis
    by (simp add: parse_client_def readMessage_def wire_simps)
next
  case (Pointer x y buttons)
  assume "client_event_wf ev"
  moreover have "read_message_fixed 5 (([buttons] @ be16 (u16_of x) @ be16 (u16_of y)) @ s) k
      = (k ([buttons] @ be16 (u16_of x) @ be16 (u16_of y)), Inr s)" for k
    by (rule read_message_fixed_append) simp
  ultimately show ?thesis
    using Pointer by (simp add: parse_client_def readMessage_def wire_simps uint_u16_of)
next
  case (UpdateRequest i)
  have "read_message_fixed 9 (([flag_byte i] @ replicate 8 0) @ s) k = (k ([flag_byte i] @ replicate 8 0), Inr s)" for k
    by (rule read_message_fixed_append) simp
  with UpdateRequest show ?thesis
    by (simp add: parse_client_def readMessage_def)
next
  case (Cut t)
  assume "client_event_wf ev"
  with Cut have "length t \<le> 1048576" by simp
  then have u: "unat (of_nat (length t) :: u32) = length t"
    by (simp add: unat_of_nat)
  have "read_full 7 (([0, 0, 0] @ be32 (of_nat (length t))) @ t @ s)
      = Inr ([0, 0, 0] @ be32 (of_nat (length t)), t @ s)"
    by (rule read_full_append) simp
  with Cut u \<open>length t \<le> 1048576\<close> show ?thesis
    by (simp add: parse_client_def readMessage_def wire_simps push_bit_eq_mult)
next
  case NoEvent
  have "discard 19 (replicate 19 0 @ s) = Inr s" by simp
  with NoEvent show ?thesis
    by (simp add: parse_client_def readMessage_def)
next
  case (Encodings b)
  have "read_full 3 (([0] @ be16 (if b then 1 else 0)) @ t) = Inr ([0] @ be16 (if b then 1 else 0), t)" for t
    by (rule read_full_append) simp
  moreover have "read_encodings (unat (1 :: u16)) (be32 encDesktopSize @ s) False = (True, Inr s)"
    by simp
  ultimately show ?thesis
    using Encodings by (cases b) (simp_all add: parse_client_def readMessage_def wire_simps)
qed

lemma read_encodings_length: "read_encodings n r b = (c, Inr r') \<Longrightarrow> length r' \<le> length r"
proof (induction n arbitrary: r b)
  case (Suc n)
  then obtain x r1 where "read_full 4 r = Inr (x, r1)" "read_encodings n r1 (b \<or> get_be32 x 0 = encDesktopSize) = (c, Inr r')"
    by (auto split: sum.splits)
  with Suc.IH show ?case by (fastforce dest: read_full_Inr)
qed simp

lemma read_full_length: "read_full n s = Inr (b, r) \<Longrightarrow> length r + n = length s"
  by (auto simp: read_full_def split: if_splits)

lemma readMessage_consumes: "readMessage s = (ev, Inr r) \<Longrightarrow> length r < length s"
  by (auto simp: readMessage_def read_message_fixed_def Let_def
      dest!: discard_Inr read_full_length read_encodings_length
      split: list.splits sum.splits if_splits prod.splits)

lemma parse_client_consumes: "parse_client s = Inr (ev, r) \<Longrightarrow> length r < length s"
  by (auto simp: parse_client_def split: prod.splits sum.splits dest: readMessage_consumes)

interpretation rfb_client: framing enc_client parse_client client_event_wf
  by unfold_locales (fact parse_client_enc, fact parse_client_consumes)

text \<open>What a step does to the reader's side of the state.\<close>

definition reader_ok :: "client_event list \<Rightarrow> serve \<Rightarrow> bool" where
  "reader_ok evs st =
     (if errc st = None
      then \<exists>k. k \<le> length evs \<and> seen st = take k evs \<and> input st = concat (map enc_client (drop k evs))
      else seen st = evs @ [NoEvent])"

lemma reader_ok_cong:
  "seen st = seen st' \<Longrightarrow> input st = input st' \<Longrightarrow> errc st = errc st' \<Longrightarrow> reader_ok evs st = reader_ok evs st'"
  by (simp add: reader_ok_def)

lemma read_next_reader:
  "errc st = None \<Longrightarrow> readMessage (input st) = (ev, r) \<Longrightarrow> seen (read_next st) = seen st @ [ev]
     \<and> errc (read_next st) = (case r of Inl e \<Rightarrow> Some e | Inr _ \<Rightarrow> None)
     \<and> input (read_next st) = (case r of Inl e \<Rightarrow> input st | Inr rest \<Rightarrow> rest)"
  by (auto simp: read_next_def Let_def split: client_event.split sum.split bool.split)

lemma reader_ok_read:
  assumes "list_all client_event_wf evs" "reader_ok evs st"
  shows "reader_ok evs (read_next st)"
proof (cases "errc st")
  case (Some e)
  then show ?thesis using assms by (simp add: read_next_def)
next
  case None
  then obtain k where k: "k \<le> length evs" "seen st = take k evs" "input st = concat (map enc_client (drop k evs))"
    using assms by (auto simp: reader_ok_def)
  show ?thesis
  proof (cases "k = length evs")
    case True
    with k have "readMessage (input st) = (NoEvent, Inl (RfbIO EOF))" by (simp add: readMessage_def)
    from read_next_reader [OF None this] k True show ?thesis by (simp add: reader_ok_def)
  next
    case False
    with k have lt: "k < length evs" by simp
    then have "input st = enc_client (evs ! k) @ concat (map enc_client (drop (Suc k) evs))"
      using k(3) by (simp flip: Cons_nth_drop_Suc)
    moreover have "client_event_wf (evs ! k)" using assms(1) lt by (simp add: list_all_length)
    ultimately have "parse_client (input st) = Inr (evs ! k, concat (map enc_client (drop (Suc k) evs)))"
      by (simp add: rfb_client.dec_enc)
    then have "readMessage (input st) = (evs ! k, Inr (concat (map enc_client (drop (Suc k) evs))))"
      by (auto simp: parse_client_def split: prod.splits sum.splits)
    from read_next_reader [OF None this] k lt show ?thesis
      by (auto simp: reader_ok_def take_Suc_conv_app_nth intro!: exI [of _ "Suc k"])
  qed
qed

lemma send_frame_reader [simp]:
  "seen (fst (send_frame ok st)) = seen st" "input (fst (send_frame ok st)) = input st"
  "errc (fst (send_frame ok st)) = errc st"
  by (simp_all add: send_frame_def Let_def)

lemma reader_ok_step:
  assumes "list_all client_event_wf evs" "reader_ok evs st"
  shows "reader_ok evs (fst (serve_step ok st a))"
proof (cases a)
  case ReadNext
  with reader_ok_read [OF assms] show ?thesis by (simp add: serve_step_def)
qed (use assms in \<open>auto simp: serve_step_def Let_def reader_ok_def split: option.split\<close>)

lemma reader_ok_run:
  assumes "list_all client_event_wf evs" "reader_ok evs st" "serve_run ok st as = (st', e)"
  shows "reader_ok evs st'"
  using assms(2,3)
proof (induction "as" arbitrary: st)
  case (Cons a as)
  obtain st1 r where s: "serve_step ok st a = (st1, r)" by force
  with reader_ok_step [OF assms(1) Cons.prems(1), of ok a] have "reader_ok evs st1" by simp
  with Cons s show ?case by (cases r) auto
qed simp



section \<open>What the client is told\<close>

datatype rect = Resize int int | Raw int int bytes

fun enc_rect :: "rect \<Rightarrow> bytes" where
  "enc_rect (Resize w h) = writeDesktopSize w h"
| "enc_rect (Raw w h p) = writeFrame \<lparr>W = w, H = h, Pix = p\<rparr>"

definition size_ok :: "int \<Rightarrow> int \<Rightarrow> bool" where
  "size_ok w h = (0 < w \<and> w < 65536 \<and> 0 < h \<and> h < 65536)"

fun rect_wf :: "rect \<Rightarrow> bool" where
  "rect_wf (Resize w h) = size_ok w h"
| "rect_wf (Raw w h p) = (size_ok w h \<and> int (length p) = w * h * 4)"

text \<open>The client's side: an update of one rectangle, as RFB defines it.\<close>

definition decode_rect :: "bytes \<Rightarrow> io_err + (rect \<times> bytes)" where
  "decode_rect s =
     (case read_full 16 s of
        Inl e \<Rightarrow> Inl e
      | Inr (b, s) \<Rightarrow>
          (let w = uint (get_be16 b 8); h = uint (get_be16 b 10)
           in if get_be32 b 12 = encDesktopSize then Inr (Resize w h, s)
              else case read_full (nat (w * h * 4)) s of
                     Inl e \<Rightarrow> Inl e
                   | Inr (p, s) \<Rightarrow> Inr (Raw w h p, s)))"

lemma update_header_fields [simp]:
  "length (update_header w h e) = 16" "get_be16 (update_header w h e) 8 = u16_of w"
  "get_be16 (update_header w h e) 10 = u16_of h" "get_be32 (update_header w h e) 12 = e"
  by (simp_all add: update_header_def Let_def wire_simps)

lemma decode_rect_enc: "rect_wf u \<Longrightarrow> decode_rect (enc_rect u @ s) = Inr (u, s)"
proof (cases u)
  case (Resize w h)
  assume "rect_wf u"
  with Resize show ?thesis
    by (simp add: decode_rect_def writeDesktopSize_def size_ok_def uint_u16_of)
next
  case (Raw w h p)
  assume "rect_wf u"
  with Raw have "int (length p) = w * h * 4" and sz: "size_ok w h" by simp_all
  then have "length p = nat (w * h * 4)" by (metis nat_int)
  moreover have "encDesktopSize \<noteq> 0" by (simp add: encDesktopSize_def)
  ultimately show ?thesis
    using Raw sz by (simp add: decode_rect_def writeFrame_def size_ok_def uint_u16_of)
qed

lemma decode_rect_consumes: "decode_rect s = Inr (u, r) \<Longrightarrow> length r < length s"
  by (auto simp: decode_rect_def Let_def split: sum.splits if_splits dest!: read_full_Inr)

interpretation rfb_server: framing enc_rect decode_rect rect_wf
  by unfold_locales (fact decode_rect_enc, fact decode_rect_consumes)

text \<open>Every picture has the size the client was told last, starting from \<open>d\<close>; \<open>told\<close> is that size in the end.\<close>

fun consistent :: "int \<times> int \<Rightarrow> rect list \<Rightarrow> bool" where
  "consistent d [] = True"
| "consistent d (Resize w h # us) = consistent (w, h) us"
| "consistent d (Raw w h p # us) = ((w, h) = d \<and> consistent d us)"

fun told :: "int \<times> int \<Rightarrow> rect list \<Rightarrow> int \<times> int" where
  "told d [] = d"
| "told d (Resize w h # us) = told (w, h) us"
| "told d (Raw w h p # us) = told d us"

lemma consistent_append [simp]: "consistent d (us @ vs) = (consistent d us \<and> consistent (told d us) vs)"
  by (induction d us rule: consistent.induct) simp_all

lemma told_append [simp]: "told d (us @ vs) = told (told d us) vs"
  by (induction d us rule: told.induct) simp_all

definition frame_ok :: "frame \<Rightarrow> bool" where
  "frame_ok f = (size_ok (W f) (H f) \<and> int (length (Pix f)) = W f * H f * 4)"

definition requests :: "client_event list \<Rightarrow> nat" where
  "requests evs = length (filter (\<lambda>ev. case ev of UpdateRequest _ \<Rightarrow> True | _ \<Rightarrow> False) evs)"

definition pictures :: "rect list \<Rightarrow> nat" where
  "pictures us = length (filter (\<lambda>u. case u of Raw _ _ _ \<Rightarrow> True | _ \<Rightarrow> False) us)"

text \<open>
  \<open>us\<close> is what has been written since the output was \<open>out\<close> and the client believed \<open>d\<close>; each picture
  is a frame in \<open>F\<close> and answers a request of its own, one of which may be pending in the channel and one waiting
  for a change.
\<close>

definition shows_only :: "(frame \<Rightarrow> bool) \<Rightarrow> rect \<Rightarrow> bool" where
  "shows_only F u = (case u of Raw w h p \<Rightarrow> F \<lparr>W = w, H = h, Pix = p\<rparr> | _ \<Rightarrow> True)"

definition sender_ok :: "(frame \<Rightarrow> bool) \<Rightarrow> bytes \<Rightarrow> int \<times> int \<Rightarrow> rect list \<Rightarrow> serve \<Rightarrow> bool" where
  "sender_ok F out d us st =
     (frame_ok (fs_Frame (src st)) \<and> F (fs_Frame (src st)) \<and> list_all (shows_only F) us
      \<and> desktopSizeOK st \<and> buffered st = []
      \<and> wire st = out @ concat (map enc_rect us) \<and> list_all rect_wf us \<and> consistent d us
      \<and> told d us = (lastW st, lastH st)
      \<and> pictures us + (if waiting st then 1 else 0) + (if reqc st = None then 0 else 1) \<le> requests (seen st))"

lemma frame_eta [simp]: "\<lparr>W = W f, H = H f, Pix = Pix f\<rparr> = f"
  by simp

lemma send_frame_ok:
  assumes "sender_ok F out d us (st\<lparr>waiting := True\<rparr>)" "send_frame ok st = (st', None)"
  shows "\<exists>us'. sender_ok F out d us' st'"
proof -
  let ?f = "fs_Frame (src st)"
  let ?vs = "(if W ?f \<noteq> lastW st \<or> H ?f \<noteq> lastH st then [Resize (W ?f) (H ?f)] else []) @ [Raw (W ?f) (H ?f) (Pix ?f)]"
  have f: "frame_ok ?f" using assms(1) by (simp add: sender_ok_def)
  then have nz: "W ?f \<noteq> 0" "H ?f \<noteq> 0" by (auto simp: frame_ok_def size_ok_def)
  have w: "wire st' = wire st @ concat (map enc_rect ?vs)"
    using assms nz by (auto simp: send_frame_def Let_def sender_ok_def split: if_splits)
  have rest: "src st' = src st" "seen st' = seen st" "reqc st' = reqc st" "desktopSizeOK st' = desktopSizeOK st"
    "buffered st' = []" "lastW st' = W ?f" "lastH st' = H ?f" "\<not> waiting st'"
    using assms(2) nz by (auto simp: send_frame_def Let_def split: if_splits)
  have "sender_ok F out d (us @ ?vs) st'"
    using assms(1) f unfolding sender_ok_def
    by (auto simp: rest w frame_ok_def pictures_def shows_only_def)
  then show ?thesis by blast
qed

lemma read_next_same:
  "src (read_next st) = src st" "waiting (read_next st) = waiting st" "buffered (read_next st) = buffered st"
  "wire (read_next st) = wire st" "lastW (read_next st) = lastW st" "lastH (read_next st) = lastH st"
  "desktopSizeOK st \<Longrightarrow> desktopSizeOK (read_next st)"
  by (simp_all add: read_next_def Let_def split: prod.split client_event.split bool.split sum.split)

lemma read_next_requests:
  "requests (seen st) + (if reqc (read_next st) = None then 0 else 1)
     \<le> requests (seen (read_next st)) + (if reqc st = None then 0 else 1)"
  by (auto simp: read_next_def Let_def requests_def split: prod.split client_event.split bool.split sum.split)

lemma read_next_sender:
  "sender_ok F out d us st \<Longrightarrow> sender_ok F out d us (read_next st)"
  using read_next_requests [of st] by (auto simp: sender_ok_def read_next_same split: if_splits)

definition publishes_in :: "(frame \<Rightarrow> bool) \<Rightarrow> sched list \<Rightarrow> bool" where
  "publishes_in F as = list_all (\<lambda>a. case a of Publish w h p \<Rightarrow> F \<lparr>W = w, H = h, Pix = p\<rparr> | _ \<Rightarrow> True) as"

definition publishes_ok :: "sched list \<Rightarrow> bool" where
  "publishes_ok as =
     list_all (\<lambda>a. case a of Publish w h p \<Rightarrow> size_ok w h \<and> int (length p) = w * h * 4 | _ \<Rightarrow> True) as"

lemma serve_step_sender:
  assumes "sender_ok F out d us st" "publishes_ok [a]" "publishes_in F [a]" "serve_step ok st a = (st', None)"
  shows "\<exists>us'. sender_ok F out d us' st'"
proof (cases a)
  case ReadNext
  have "sender_ok F out d us (read_next st)" by (rule read_next_sender [OF assms(1)])
  with assms ReadNext show ?thesis by (auto simp: serve_step_def)
next
  case (Publish w h p)
  with assms show ?thesis
    by (intro exI [of _ us]) (auto simp: serve_step_def sender_ok_def publishes_ok_def publishes_in_def Update_def fs_Frame_def frame_ok_def size_ok_def)
next
  case TakeRequest
  show ?thesis
  proof (cases "waiting st \<or> reqc st = None")
    case True
    with assms TakeRequest show ?thesis by (auto simp: serve_step_def split: option.splits)
  next
    case False
    then obtain i where i: "reqc st = Some i" "\<not> waiting st" by auto
    have w: "sender_ok F out d us (st\<lparr>reqc := None, waiting := True\<rparr>)"
      using assms(1) i by (simp add: sender_ok_def)
    with assms TakeRequest i send_frame_ok [of F out d us "st\<lparr>reqc := None\<rparr>" ok st'] show ?thesis
      by (cases i) (auto simp: serve_step_def)
  qed
next
  case TakeChanged
  show ?thesis
  proof (cases "waiting st \<and> changed (src st)")
    case True
    have "sender_ok F out d us (st\<lparr>src := (src st)\<lparr>changed := False\<rparr>, waiting := True\<rparr>)"
      using assms(1) True by (simp add: sender_ok_def fs_Frame_def)
    with assms TakeChanged True send_frame_ok [of F out d us "st\<lparr>src := (src st)\<lparr>changed := False\<rparr>\<rparr>" ok st'] show ?thesis
      by (auto simp: serve_step_def)
  next
    case False
    with assms TakeChanged show ?thesis by (auto simp: serve_step_def)
  qed
qed (use assms in \<open>auto simp: serve_step_def\<close>)

lemma serve_run_sender:
  assumes "sender_ok F out d us st" "publishes_ok as" "publishes_in F as" "serve_run ok st as = (st', None)"
  shows "\<exists>us'. sender_ok F out d us' st'"
  using assms
proof (induction "as" arbitrary: st us)
  case (Cons a as)
  obtain st1 where s: "serve_step ok st a = (st1, None)" "serve_run ok st1 as = (st', None)"
    using Cons.prems(4) by (auto split: prod.splits option.splits)
  have p: "publishes_ok [a]" "publishes_ok as" "publishes_in F [a]" "publishes_in F as"
    using Cons.prems(2,3) by (simp_all add: publishes_ok_def publishes_in_def)
  from serve_step_sender [OF Cons.prems(1) p(1,3) s(1)] obtain us1 where "sender_ok F out d us1 st1" by blast
  with Cons.IH p(2,4) s(2) show ?case by blast
qed auto

lemma updates_sent:
  assumes "desktopSizeOK st" "buffered st = []" "frame_ok (fs_Frame (src st))"
    and "seen st = []" "\<not> waiting st" "reqc st = None"
    and "publishes_ok schedule" "serve_run flush_ok st schedule = (st', None)"
    and "F (fs_Frame (src st))" "publishes_in F schedule"
  shows "\<exists>us. wire st' = wire st @ concat (map enc_rect us) \<and> list_all rect_wf us
     \<and> consistent (lastW st, lastH st) us \<and> pictures us \<le> requests (seen st')
     \<and> rfb_server.dec_n (length us) (concat (map enc_rect us)) = Inr (us, []) \<and> list_all (shows_only F) us"
proof -
  have "sender_ok F (wire st) (lastW st, lastH st) [] st"
    using assms by (simp add: sender_ok_def pictures_def requests_def)
  from serve_run_sender [OF this assms(7,10,8)]
  obtain us where us: "sender_ok F (wire st) (lastW st, lastH st) us st'" by blast
  then have "list_all rect_wf us" by (simp add: sender_ok_def)
  then have "rfb_server.dec_n (length us) (concat (map enc_rect us)) = Inr (us, [])"
    using rfb_server.dec_n_concat [of us "[]"] by (simp add: list_all_iff)
  with us show ?thesis by (auto simp: sender_ok_def)
qed



section \<open>Where the promise ends\<close>

text \<open>
  A frame published between ServerInit and the loop's start: the client is never told the new size.
\<close>

lemma resize_before_loop_is_missed:
  "\<exists>st. rfb_Serve (\<lambda>_. True) (NewFrameSource 1 1) (Update (NewFrameSource 1 1) 2 1 (replicate 8 7))
          (replicate 14 0 @ [2, 0, 0, 1] @ be32 encDesktopSize @ [3, 0, 0, 0, 0, 0, 0, 0, 0, 0])
          [ReadNext, ReadNext, TakeRequest] = Inr (st, None)
     \<and> desktopSizeOK st
     \<and> wire st = fst (rfb_handshake (\<lambda>_. True) (fs_Frame (NewFrameSource 1 1)) (replicate 14 0))
                 @ enc_rect (Raw 2 1 (replicate 8 7))"
proof -
  let ?r = "rfb_Serve (\<lambda>_. True) (NewFrameSource 1 1) (Update (NewFrameSource 1 1) 2 1 (replicate 8 7))
          (replicate 14 0 @ [2, 0, 0, 1] @ be32 encDesktopSize @ [3, 0, 0, 0, 0, 0, 0, 0, 0, 0])
          [ReadNext, ReadNext, TakeRequest]"
  have "(case ?r of Inl e \<Rightarrow> False | Inr (st, e) \<Rightarrow> e = None \<and> desktopSizeOK st
     \<and> wire st = fst (rfb_handshake (\<lambda>_. True) (fs_Frame (NewFrameSource 1 1)) (replicate 14 0))
                 @ enc_rect (Raw 2 1 (replicate 8 7)))"
    by code_simp
  then show ?thesis by (auto split: sum.splits)
qed

text \<open>A frame with bytes beyond its pixels is accepted, and all of them are sent.\<close>

lemma excess_pixels_are_sent:
  assumes "0 < w" "0 < h" "w * h * 4 < int (length pix)"
  shows "length (writeFrame (fs_Frame (Update s w h pix))) = 16 + length pix"
  using assms by (simp add: Update_def fs_Frame_def writeFrame_def)

end
