(* ===== verification/CodecTables.thy ===== *)
theory CodecTables
  imports Prelude
begin

text \<open>
  The constant tables of the video decoder (\<^verbatim>\<open>internal/kvm/codec\<close>): scan orders, the standard Huffman
  tables and the quantization tables of \<^verbatim>\<open>tables.go\<close>; the lookup tables built from them by
  \<^verbatim>\<open>huffman.go\<close>, \<^verbatim>\<open>quant.go\<close> and the constructor in \<^verbatim>\<open>decoder.go\<close>.

  Entries are natural numbers or integers in the range of their Go type. The decoder builds the
  Huffman and colour tables once and never changes them: they are constants here. The
  quantization tables are folded with floating-point scale factors; \<open>f64\<close> is a positive double as
  mantissa and binary exponent, rounded to 53 bits, ties to even.
\<close>

section \<open>Scan orders\<close>

definition zigzag :: "nat list" where
  "zigzag =
     [0, 1, 5, 6, 14, 15, 27, 28, 2, 4, 7, 13, 16, 26, 29, 42, 3, 8, 12, 17, 25, 30, 41, 43, 9,
     11, 18, 24, 31, 40, 44, 53, 10, 19, 23, 32, 39, 45, 52, 54, 20, 22, 33, 38, 46, 51, 55, 60,
     21, 34, 37, 47, 50, 56, 59, 61, 35, 36, 48, 49, 57, 58, 62, 63]"

definition dezigzag :: "nat list" where
  "dezigzag =
     [0, 1, 8, 16, 9, 2, 3, 10, 17, 24, 32, 25, 18, 11, 4, 5, 12, 19, 26, 33, 40, 48, 41, 34,
     27, 20, 13, 6, 7, 14, 21, 28, 35, 42, 49, 56, 57, 50, 43, 36, 29, 22, 15, 23, 30, 37, 44,
     51, 58, 59, 52, 45, 38, 31, 39, 46, 53, 60, 61, 54, 47, 55, 62] @ replicate 16 63"

section \<open>Huffman code lengths, values and codes\<close>

definition stdDCLuminanceNrcodes :: "nat list" where
  "stdDCLuminanceNrcodes =
     [0, 0, 1, 5, 1, 1, 1, 1, 1, 1, 0, 0, 0, 0, 0, 0, 0]"

definition stdDCLuminanceValues :: "nat list" where
  "stdDCLuminanceValues =
     [0, 1, 2, 3, 4, 5, 6, 7, 8, 9, 10, 11]"

definition stdDCChrominanceNrcodes :: "nat list" where
  "stdDCChrominanceNrcodes =
     [0, 0, 3] @ replicate 9 1 @ [0, 0, 0, 0, 0]"

definition stdDCChrominanceValues :: "nat list" where
  "stdDCChrominanceValues =
     [0, 1, 2, 3, 4, 5, 6, 7, 8, 9, 10, 11]"

definition stdACLuminanceNrcodes :: "nat list" where
  "stdACLuminanceNrcodes =
     [0, 0, 2, 1, 3, 3, 2, 4, 3, 5, 5, 4, 4, 0, 0, 1, 125]"

definition stdACLuminanceValues :: "nat list" where
  "stdACLuminanceValues =
     [1, 2, 3, 0, 4, 17, 5, 18, 33, 49, 65, 6, 19, 81, 97, 7, 34, 113, 20, 50, 129, 145, 161, 8,
     35, 66, 177, 193, 21, 82, 209, 240, 36, 51, 98, 114, 130, 9, 10, 22, 23, 24, 25, 26, 37,
     38, 39, 40, 41, 42, 52, 53, 54, 55, 56, 57, 58, 67, 68, 69, 70, 71, 72, 73, 74, 83, 84, 85,
     86, 87, 88, 89, 90, 99, 100, 101, 102, 103, 104, 105, 106, 115, 116, 117, 118, 119, 120,
     121, 122, 131, 132, 133, 134, 135, 136, 137, 138, 146, 147, 148, 149, 150, 151, 152, 153,
     154, 162, 163, 164, 165, 166, 167, 168, 169, 170, 178, 179, 180, 181, 182, 183, 184, 185,
     186, 194, 195, 196, 197, 198, 199, 200, 201, 202, 210, 211, 212, 213, 214, 215, 216, 217,
     218, 225, 226, 227, 228, 229, 230, 231, 232, 233, 234, 241, 242, 243, 244, 245, 246, 247,
     248, 249, 250]"

definition stdACChrominanceNrcodes :: "nat list" where
  "stdACChrominanceNrcodes =
     [0, 0, 2, 1, 2, 4, 4, 3, 4, 7, 5, 4, 4, 0, 1, 2, 119]"

definition stdACChrominanceValues :: "nat list" where
  "stdACChrominanceValues =
     [0, 1, 2, 3, 17, 4, 5, 33, 49, 6, 18, 65, 81, 7, 97, 113, 19, 34, 50, 129, 8, 20, 66, 145,
     161, 177, 193, 9, 35, 51, 82, 240, 21, 98, 114, 209, 10, 22, 36, 52, 225, 37, 241, 23, 24,
     25, 26, 38, 39, 40, 41, 42, 53, 54, 55, 56, 57, 58, 67, 68, 69, 70, 71, 72, 73, 74, 83, 84,
     85, 86, 87, 88, 89, 90, 99, 100, 101, 102, 103, 104, 105, 106, 115, 116, 117, 118, 119,
     120, 121, 122, 130, 131, 132, 133, 134, 135, 136, 137, 138, 146, 147, 148, 149, 150, 151,
     152, 153, 154, 162, 163, 164, 165, 166, 167, 168, 169, 170, 178, 179, 180, 181, 182, 183,
     184, 185, 186, 194, 195, 196, 197, 198, 199, 200, 201, 202, 210, 211, 212, 213, 214, 215,
     216, 217, 218, 226, 227, 228, 229, 230, 231, 232, 233, 234, 242, 243, 244, 245, 246, 247,
     248, 249, 250]"

definition dcLuminanceHuffmancode :: "nat list" where
  "dcLuminanceHuffmancode =
     [0, 0, 16384, 2, 24576, 3, 32768, 3, 40960, 3, 49152, 3, 57344, 3, 61440, 4, 63488, 5,
     64512, 6, 65024, 7, 65280, 8, 65535, 9]"

definition dcChrominanceHuffmancode :: "nat list" where
  "dcChrominanceHuffmancode =
     [0, 0, 16384, 2, 32768, 2, 49152, 2, 57344, 3, 61440, 4, 63488, 5, 64512, 6, 65024, 7,
     65280, 8, 65408, 9, 65472, 10, 65535, 11]"

definition acLuminanceHuffmancode :: "nat list" where
  "acLuminanceHuffmancode =
     [0, 0, 16384, 2, 32768, 2, 40960, 3, 45056, 4, 49152, 4, 53248, 4, 55296, 5, 57344, 5,
     59392, 5, 60416, 6, 61440, 6, 61952, 7, 62464, 7, 62976, 7, 63488, 7, 63744, 8, 64000, 8,
     64256, 8, 64384, 9, 64512, 9, 64640, 9, 64768, 9, 64896, 9, 64960, 10, 65024, 10, 65088,
     10, 65152, 10, 65216, 10, 65248, 11, 65280, 11, 65312, 11, 65344, 11, 65360, 12, 65376, 12,
     65392, 12, 65408, 12, 65410, 15, 65535, 16]"

definition acChrominanceHuffmancode :: "nat list" where
  "acChrominanceHuffmancode =
     [0, 0, 16384, 2, 32768, 2, 40960, 3, 45056, 4, 49152, 4, 51200, 5, 53248, 5, 55296, 5,
     57344, 5, 58368, 6, 59392, 6, 60416, 6, 61440, 6, 61952, 7, 62464, 7, 62976, 7, 63232, 8,
     63488, 8, 63744, 8, 64000, 8, 64128, 9, 64256, 9, 64384, 9, 64512, 9, 64640, 9, 64768, 9,
     64896, 9, 64960, 10, 65024, 10, 65088, 10, 65152, 10, 65216, 10, 65248, 11, 65280, 11,
     65312, 11, 65344, 11, 65360, 12, 65376, 12, 65392, 12, 65408, 12, 65412, 14, 65414, 15,
     65416, 15, 65535, 16]"

section \<open>Quantization tables, by selector\<close>

definition tbl100Y :: "int list" where
  "tbl100Y =
     [2, 1, 1, 2, 3, 5, 6, 7, 1, 1, 1, 2, 3, 7, 7, 6, 1, 1, 2, 3, 5, 7, 8, 7, 1, 2, 2, 3, 6, 10,
     10, 7, 2, 2, 4, 7, 8, 13, 12, 9, 3, 4, 6, 8, 10, 13, 14, 11, 6, 8, 9, 10, 12, 15, 15, 12,
     9, 11, 11, 12, 14, 12, 12, 12]"

definition tbl100UV :: "int list" where
  "tbl100UV =
     [3, 3, 4, 8, 18, 18, 18, 18, 3, 3, 4, 12, 18, 18, 18, 18, 4, 4, 10, 18, 18, 18, 18, 18, 8,
     12] @ replicate 38 18"

definition tbl086Y :: "int list" where
  "tbl086Y =
     [3, 2, 1, 3, 4, 7, 9, 11, 2, 2, 2, 3, 4, 10, 11, 10, 2, 2, 3, 4, 7, 10, 12, 10, 2, 3, 4, 5,
     9, 16, 15, 11, 3, 4, 6, 10, 12, 20, 19, 14, 4, 6, 10, 12, 15, 19, 21, 17, 9, 12, 14, 16,
     19, 22, 22, 18, 13, 17, 17, 18, 21, 18, 19, 18]"

definition tbl086UV :: "int list" where
  "tbl086UV =
     [4, 5, 6, 13, 27, 27, 27, 27, 5, 5, 7, 18, 27, 27, 27, 27, 6, 7, 15, 27, 27, 27, 27, 27,
     13, 18] @ replicate 38 27"

definition tbl071Y :: "int list" where
  "tbl071Y =
     [6, 4, 3, 6, 9, 15, 19, 22, 4, 4, 5, 7, 9, 21, 22, 20, 5, 4, 6, 9, 15, 21, 25, 21, 5, 6, 8,
     10, 19, 32, 30, 23, 6, 8, 13, 21, 25, 40, 38, 28, 9, 13, 20, 24, 30, 39, 42, 34, 18, 24,
     29, 32, 38, 45, 45, 37, 27, 34, 35, 36, 42, 37, 38, 37]"

definition tbl071UV :: "int list" where
  "tbl071UV =
     [9, 10, 13, 26, 55, 55, 55, 55, 10, 11, 14, 37, 55, 55, 55, 55, 13, 14, 31, 55, 55, 55, 55,
     55, 26, 37] @ replicate 38 55"

definition tbl057Y :: "int list" where
  "tbl057Y =
     [9, 6, 5, 9, 13, 22, 28, 34, 6, 6, 7, 10, 14, 32, 33, 30, 7, 7, 9, 13, 22, 32, 38, 31, 7,
     9, 12, 16, 28, 48, 45, 34, 10, 12, 20, 31, 38, 61, 57, 43, 13, 19, 30, 36, 45, 58, 63, 51,
     27, 36, 43, 48, 57, 68, 67, 56, 40, 51, 53, 55, 63, 56, 57, 55]"

definition tbl057UV :: "int list" where
  "tbl057UV =
     [13, 14, 19, 38, 80, 80, 80, 80, 14, 17, 21, 53, 80, 80, 80, 80, 19, 21, 45, 80, 80, 80,
     80, 80, 38, 53] @ replicate 38 80"

definition tbl043Y :: "int list" where
  "tbl043Y =
     [11, 7, 7, 11, 17, 28, 36, 43, 8, 8, 10, 13, 18, 41, 43, 39, 10, 9, 11, 17, 28, 40, 49, 40,
     10, 12, 15, 20, 36, 62, 57, 44, 12, 15, 26, 40, 48, 78, 74, 55, 17, 25, 39, 46, 58, 74, 81,
     66, 35, 46, 56, 62, 74, 86, 86, 72, 51, 66, 68, 70, 80, 71, 74, 71]"

definition tbl043UV :: "int list" where
  "tbl043UV =
     [18, 19, 26, 51, 108, 108, 108, 108, 19, 22, 28, 72, 108, 108, 108, 108, 26, 28, 61, 108,
     108, 108, 108, 108, 51, 72] @ replicate 38 108"

definition tbl029Y :: "int list" where
  "tbl029Y =
     [14, 9, 9, 14, 21, 36, 46, 55, 10, 10, 12, 17, 23, 52, 54, 49, 12, 11, 14, 21, 36, 51, 62,
     50, 12, 15, 19, 26, 46, 78, 72, 56, 16, 19, 33, 50, 61, 98, 93, 69, 21, 31, 49, 58, 73, 94,
     102, 83, 44, 58, 70, 78, 93, 109, 108, 91, 65, 83, 86, 88, 101, 90, 93, 89]"

definition tbl029UV :: "int list" where
  "tbl029UV =
     [22, 24, 32, 63, -123, -123, -123, -123, 24, 28, 34, 88, -123, -123, -123, -123, 32, 34,
     75, -123, -123, -123, -123, -123, 63, 88] @ replicate 38 (-123)"

definition tbl014Y :: "int list" where
  "tbl014Y =
     [17, 12, 10, 17, 26, 43, 55, 66, 13, 13, 15, 20, 28, 63, 65, 60, 15, 14, 17, 26, 43, 62,
     75, 61, 15, 18, 24, 31, 55, 95, 87, 67, 19, 24, 40, 61, 74, 119, 112, 84, 26, 38, 60, 70,
     88, 113, 123, 100, 53, 70, 85, 95, 112, -124, -125, 110, 78, 100, 103, 107, 122, 109, 112,
     108]"

definition tbl014UV :: "int list" where
  "tbl014UV =
     [27, 29, 39, 76, -96, -96, -96, -96, 29, 34, 42, 107, -96, -96, -96, -96, 39, 42, 91, -96,
     -96, -96, -96, -96, 76, 107] @ replicate 38 (-96)"

definition tbl000Y :: "int list" where
  "tbl000Y =
     [20, 13, 12, 20, 30, 50, 63, 76, 15, 15, 17, 23, 32, 72, 75, 68, 17, 16, 20, 30, 50, 71,
     86, 70, 17, 21, 27, 36, 63, 108, 100, 77, 22, 27, 46, 70, 85, -120, -128, 96, 30, 43, 68,
     80, 101, -126, -115, 115, 61, 80, 97, 108, -128, -105, -106, 126, 90, 115, 118, 122, -116,
     125, -128, 123]"

definition tbl000UV :: "int list" where
  "tbl000UV =
     [31, 33, 45, 88, -71, -71, -71, -71, 33, 39, 48, 123, -71, -71, -71, -71, 45, 48, 105, -71,
     -71, -71, -71, -71, 88, 123] @ replicate 38 (-71)"

definition tblY :: "int list list" where
  "tblY = [tbl000Y, tbl014Y, tbl029Y, tbl043Y, tbl057Y, tbl071Y, tbl086Y, tbl100Y]"

definition tblUV :: "int list list" where
  "tblUV = [tbl000UV, tbl014UV, tbl029UV, tbl043UV, tbl057UV, tbl071UV, tbl086UV, tbl100UV]"

section \<open>Doubles\<close>

text \<open>\<open>(m, e)\<close> is \<open>m / 2 ^ e\<close>.\<close>

type_synonym f64 = "int \<times> nat"

fun bit_length :: "nat \<Rightarrow> nat" where
  "bit_length n = (if n = 0 then 0 else Suc (bit_length (n div 2)))"

declare bit_length.simps [simp del]

definition round_ratio :: "int \<Rightarrow> int \<Rightarrow> int" where
  "round_ratio n d =
     (let q = n div d; r = n mod d
      in if 2 * r < d \<or> (2 * r = d \<and> even q) then q else q + 1)"

definition f64_round :: "f64 \<Rightarrow> f64" where
  "f64_round x =
     (let (m, e) = x; s = bit_length (nat m) - 53
      in if s = 0 then (m, e) else (round_ratio m (2 ^ s), e - s))"

definition f64_literal :: "int \<Rightarrow> int \<Rightarrow> f64" where
  "f64_literal n d =
     (let e = 53 + bit_length (nat d) - bit_length (nat n);
          e = (if 53 < bit_length (nat (n * 2 ^ e div d)) then e - 1 else e)
      in (round_ratio (n * 2 ^ e) d, e))"

definition f64_mul :: "f64 \<Rightarrow> f64 \<Rightarrow> f64" where
  "f64_mul x y = f64_round (fst x * fst y, snd x + snd y)"

definition f64_trunc :: "f64 \<Rightarrow> int" where
  "f64_trunc x = fst x div 2 ^ snd x"

section \<open>Quantization\<close>

definition aanScaleFactor :: "f64 list" where
  "aanScaleFactor =
     [f64_literal 1 1, f64_literal 13870399 (10 ^ 7), f64_literal 1306563 (10 ^ 6),
      f64_literal 11758755 (10 ^ 7), f64_literal 1 1, f64_literal 78569496 (10 ^ 8),
      f64_literal 5411961 (10 ^ 7), f64_literal 27589938 (10 ^ 8)]"

definition quant_value :: "int \<Rightarrow> int \<Rightarrow> int" where
  "quant_value scale s =
     (let v = go_quot (s * 16) scale; v = (if v \<le> 0 then 1 else v)
      in if 255 < v then 255 else v)"

definition setQuantizationTable :: "int list \<Rightarrow> int \<Rightarrow> int list" where
  "setQuantizationTable src scale =
     foldl (\<lambda>out i. out[zigzag ! i := quant_value scale (src ! i)]) (replicate 64 0) [0 ..< 64]"

definition applyAANScale :: "int list \<Rightarrow> int list" where
  "applyAANScale qt =
     map (\<lambda>idx. f64_trunc (f64_mul (f64_mul (qt ! idx, 0) (aanScaleFactor ! (idx div 8)))
                             (aanScaleFactor ! (idx mod 8))) * 65536) [0 ..< 64]"

text \<open>The body the four loaders share.\<close>

definition loadQuantizationTable :: "int list \<Rightarrow> int \<Rightarrow> int list" where
  "loadQuantizationTable src scale =
     (let tmp = setQuantizationTable src scale
      in applyAANScale (map (\<lambda>i. tmp ! (zigzag ! i)) [0 ..< 64]))"

definition table_at :: "int list list \<Rightarrow> int \<Rightarrow> int list go" where
  "table_at t k = (if 0 \<le> k \<and> k < int (length t) then Inr (t ! nat k) else Inl IndexOutOfRange)"

definition loadLuminanceQuantizationTable :: "int \<Rightarrow> int list go" where
  "loadLuminanceQuantizationTable sel =
     (case table_at tblY sel of Inl p \<Rightarrow> Inl p | Inr src \<Rightarrow> Inr (loadQuantizationTable src 16))"

definition loadChrominanceQuantizationTable :: "int \<Rightarrow> int \<Rightarrow> int list go" where
  "loadChrominanceQuantizationTable mapping sel =
     (case table_at (if mapping = 1 then tblY else tblUV) sel of
        Inl p \<Rightarrow> Inl p | Inr src \<Rightarrow> Inr (loadQuantizationTable src 16))"

text \<open>The second pass has loaders of its own, for the other selector.\<close>

definition loadPass2LuminanceQuantizationTable :: "int \<Rightarrow> int list go" where
  "loadPass2LuminanceQuantizationTable sel =
     (case table_at tblY sel of Inl p \<Rightarrow> Inl p | Inr src \<Rightarrow> Inr (loadQuantizationTable src 16))"

definition loadPass2ChrominanceQuantizationTable :: "int \<Rightarrow> int \<Rightarrow> int list go" where
  "loadPass2ChrominanceQuantizationTable mapping sel =
     (if mapping = 1 then (case table_at tblY sel of Inl p \<Rightarrow> Inl p | Inr src \<Rightarrow> Inr (loadQuantizationTable src 16))
      else (case table_at tblUV sel of Inl p \<Rightarrow> Inl p | Inr src \<Rightarrow> Inr (loadQuantizationTable src 16)))"

section \<open>Huffman tables\<close>

record huffmanTable =
  Length :: "nat list"
  minorCode :: "int list"
  majorCode :: "int list"
  V :: "(nat \<times> nat) list"
  Len :: "nat \<Rightarrow> nat"

text \<open>The values, stored under \<open>length * 256 + position\<close>; other places hold zero.\<close>

fun load_values :: "(nat \<times> nat) list \<Rightarrow> nat list \<Rightarrow> (nat \<times> nat) list" where
  "load_values ((b4, b6) # ks) (v # vs) = (b4 * 256 + b6, v) # load_values ks vs"
| "load_values _ _ = []"

text \<open>Conversion to a 16-bit integer.\<close>

definition go_int16 :: "int \<Rightarrow> int" where
  "go_int16 i = sint (word_of_int i :: 16 word)"

text \<open>The first and last code of each length; \<open>i2\<close> is the next code.\<close>

fun load_codes :: "nat list \<Rightarrow> int \<Rightarrow> (int \<times> int) list" where
  "load_codes [] i2 = []"
| "load_codes (n # ns) i2 =
     (if n = 0 then (- 1, 0) else (go_int16 i2, go_int16 (i2 + int n - 1))) # load_codes ns ((i2 + int n) * 2)"

text \<open>
  The code lengths by 16-bit window: the loop's pointer moves to the next pair when the window reaches
  the pair's code. \<open>len_loop\<close> lists the entries from window \<open>i4\<close> up to 65534.
\<close>

function len_loop :: "nat list \<Rightarrow> nat \<Rightarrow> nat \<Rightarrow> nat list" where
  "len_loop codes i4 i3 =
     (if 65535 \<le> i4 then []
      else let i3 = (if i4 < codes ! i3 then i3 else i3 + 2)
           in codes ! (i3 + 1) # len_loop codes (i4 + 1) i3)"
  by pat_completeness auto
termination by (relation "measure (\<lambda>(codes, i4, i3). 65535 - i4)") auto

declare len_loop.simps [simp del]

definition load_len :: "nat list \<Rightarrow> nat \<Rightarrow> nat" where
  "load_len codes w = (if w = 0 then 2 else if w = 65535 then 0 else len_loop codes 1 2 ! (w - 1))"

definition loadHuffmanTable :: "nat list \<Rightarrow> nat list \<Rightarrow> nat list \<Rightarrow> huffmanTable" where
  "loadHuffmanTable nrcodes values huffcode =
     (let len = [1 ..< 17];
          codes = load_codes (map (\<lambda>b. nrcodes ! b) len) 0
      in \<lparr>Length = 0 # map (\<lambda>b. nrcodes ! b) len,
          minorCode = 0 # map fst codes,
          majorCode = 0 # map snd codes,
          V = load_values (concat (map (\<lambda>b4. map (\<lambda>b6. (b4, b6)) [0 ..< nrcodes ! b4]) len)) values,
          Len = load_len huffcode\<rparr>)"

definition V_at :: "huffmanTable \<Rightarrow> nat \<Rightarrow> nat" where
  "V_at ht k = (case map_of (V ht) k of None \<Rightarrow> 0 | Some v \<Rightarrow> v)"

definition htDC :: "nat \<Rightarrow> huffmanTable" where
  "htDC n =
     (if n = 0 then loadHuffmanTable stdDCLuminanceNrcodes stdDCLuminanceValues dcLuminanceHuffmancode
      else loadHuffmanTable stdDCChrominanceNrcodes stdDCChrominanceValues dcChrominanceHuffmancode)"

definition htAC :: "nat \<Rightarrow> huffmanTable" where
  "htAC n =
     (if n = 0 then loadHuffmanTable stdACLuminanceNrcodes stdACLuminanceValues acLuminanceHuffmancode
      else loadHuffmanTable stdACChrominanceNrcodes stdACChrominanceValues acChrominanceHuffmancode)"

section \<open>Colours\<close>

text \<open>\<^verbatim>\<open>fixG\<close>: a decimal times 65536, rounded by adding a half.\<close>

definition fixG :: "int \<Rightarrow> int \<Rightarrow> int" where
  "fixG n d =
     (let (m, e) = f64_literal n d; e = e - 16
      in f64_trunc (f64_round (m + 2 ^ (e - 1), e)))"

definition calcRGBofCrToR :: "u8 \<Rightarrow> int" where
  "calcRGBofCrToR i = (fixG 1597656 (10 ^ 6) * (uint i - 128) + 32768) div 65536"

definition calcRGBofCbToB :: "u8 \<Rightarrow> int" where
  "calcRGBofCbToB i = (fixG 2015625 (10 ^ 6) * (uint i - 128) + 32768) div 65536"

definition calcRGBofCrToG :: "u8 \<Rightarrow> int" where
  "calcRGBofCrToG i = (- fixG 8125 (10 ^ 4) * (uint i - 128) + 32768) div 65536"

definition calcRGBofCbToG :: "u8 \<Rightarrow> int" where
  "calcRGBofCbToG i = (- fixG 390625 (10 ^ 6) * (uint i - 128) + 32768) div 65536"

definition calcRGBofY :: "u8 \<Rightarrow> int" where
  "calcRGBofY i = (fixG 1164 (10 ^ 3) * (uint i - 16) + 32768) div 65536"

text \<open>The range-limit table, as its loops fill it; the byte and the 16-bit one hold the same values.\<close>

definition rangeLimitTable :: "nat \<Rightarrow> u8" where
  "rangeLimitTable i =
     (if i < 256 then 0
      else if i < 512 then of_nat (i - 256)
      else if i < 895 then 255
      else if i < 1280 then 0
      else of_nat i)"

definition clampRange :: "int \<Rightarrow> u8" where
  "clampRange v = (if 0 \<le> v then rangeLimitTable (nat v + 256) else 0)"

definition negPow2 :: "nat \<Rightarrow> 16 word" where
  "negPow2 b = (if b = 0 then 0 else 1 - 2 ^ b)"

end
