(* ===== verification/CodecBits.thy ===== *)
theory CodecBits
  imports CodecTables
begin

text \<open>
  The state of the video decoder (\<^verbatim>\<open>Decoder\<close> in \<^verbatim>\<open>internal/kvm/codec/decoder.go\<close>) and its bit reader
  (\<^verbatim>\<open>bitreader.go\<close>), with the proof that the two 32-bit registers and the refill index are a view
  of one sequence of bits.

  The constant tables are in \<open>CodecTables\<close>, and scratch copies (\<^verbatim>\<open>yTile\<close>, \<^verbatim>\<open>cbTile\<close>, \<^verbatim>\<open>signedWordvalue\<close>,
  the IDCT workspace) are values of the operations that use them. \<open>yuvTile\<close> and \<open>prevYUV\<close> only
  ever hold entries of byte-valued tables and are lists of bytes. \<^verbatim>\<open>virtAdd\<close> is zero.
\<close>

type_synonym i16 = "16 word"
type_synonym i32 = "32 word"

record rc4State =
  rc4_x :: nat
  rc4_y :: nat
  rc4_m :: "nat list"

record decoder =
  width :: int
  height :: int
  realWidth :: int
  realH :: int
  tmpWidthBy16 :: int
  tmpHeightBy16 :: int
  mode420 :: int
  selector :: int
  advanceSelector :: int
  mapping :: int
  qt :: "int list list"
  dcY :: i16
  dcCb :: i16
  dcCr :: i16
  recv :: "u32 list"
  index :: int
  newbits :: int
  dctCoeff :: "i32 list"
  yuvTile :: bytes
  decodeBuf :: bytes
  bufStride :: int
  bufAlloc :: int
  prevYUV :: bytes
  rc4 :: rc4State
  rc4SetupDone :: bool
  Color :: "u32 list"
  Index :: "nat list"
  BitMapBits :: nat
  txb :: int
  tyb :: int

section \<open>The bit reader\<close>

definition lookKbits :: "decoder \<Rightarrow> nat \<Rightarrow> i16" where
  "lookKbits d b = ucast (drop_bit (32 - b) (recv d ! 0))"

definition skipKbits :: "decoder \<Rightarrow> nat \<Rightarrow> decoder" where
  "skipKbits d b =
     (if newbits d - int b \<le> 0 then
        (let d = (if int (length (recv d)) - 1 < index d then d\<lparr>index := int (length (recv d)) - 1\<rparr> else d);
             r0 = recv d ! 0;
             r1 = recv d ! 1;
             refill = recv d ! nat (index d);
             n = nat (newbits d);
             r0' = push_bit b r0 OR ucast (drop_bit (32 - b) ((ucast r1 :: u64) OR drop_bit n (ucast refill)));
             r1' = push_bit (b - n) refill
         in d\<lparr>recv := (recv d)[0 := r0', 1 := r1'], newbits := 32 + newbits d - int b, index := index d + 1\<rparr>)
      else
        (let r0 = recv d ! 0;
             r1 = recv d ! 1
         in d\<lparr>recv := (recv d)[0 := push_bit b r0 OR drop_bit (32 - b) r1, 1 := push_bit b r1],
             newbits := newbits d - int b\<rparr>))"

definition updateReadBuf :: "decoder \<Rightarrow> nat \<Rightarrow> decoder go" where
  "updateReadBuf d i =
     (if newbits d - int i \<le> 0 then
        go_bind (get_at (recv d) (index d)) (\<lambda>w.
          let readbuf = (ucast w :: u64);
              d = d\<lparr>index := index d + 1\<rparr>;
              r0 = (ucast (recv d ! 0) :: u64);
              r1 = (ucast (recv d ! 1) :: u64);
              n = nat (newbits d);
              r0' = ucast (push_bit i r0 OR drop_bit (32 - i) (r1 OR drop_bit n readbuf));
              r1' = ucast (push_bit (i - n) readbuf)
          in Inr (d\<lparr>recv := (recv d)[0 := r0', 1 := r1'], newbits := 32 + newbits d - int i\<rparr>))
      else
        (let r0 = (ucast (recv d ! 0) :: u64);
             r1 = (ucast (recv d ! 1) :: u64)
         in Inr (d\<lparr>recv := (recv d)[0 := ucast (push_bit i r0 OR drop_bit (32 - i) r1),
                                   1 := ucast (push_bit i r1)],
                 newbits := newbits d - int i\<rparr>)))"

definition getKbits :: "decoder \<Rightarrow> nat \<Rightarrow> i16 \<times> decoder" where
  "getKbits d b =
     (let v = lookKbits d b;
          v = (if push_bit (b - 1) 1 AND v = 0 then v + negPow2 b else v)
      in (v, skipKbits d b))"

section \<open>The bits behind the registers\<close>

text \<open>Bit \<open>k\<close> of what is still to be read: first register 0, then the valid bits of register 1, then the words from the index on.\<close>

definition sbit :: "decoder \<Rightarrow> nat \<Rightarrow> bool" where
  "sbit d k =
     (let n = nat (newbits d)
      in if k < 32 then bit (recv d ! 0) (31 - k)
         else if k < 32 + n then bit (recv d ! 1) (63 - k)
         else let j = k - 32 - n in bit (recv d ! (nat (index d) + j div 32)) (31 - j mod 32))"

text \<open>Two registers; of the second only the top \<open>newbits\<close> bits are set.\<close>

definition reader_wf :: "decoder \<Rightarrow> bool" where
  "reader_wf d =
     (2 \<le> length (recv d) \<and> 0 < newbits d \<and> newbits d \<le> 32 \<and> 2 \<le> index d
      \<and> take_bit (32 - nat (newbits d)) (recv d ! 1) = 0)"

lemma reader_wfD:
  assumes "reader_wf d"
  shows "2 \<le> length (recv d)" "0 < newbits d" "newbits d \<le> 32" "2 \<le> index d"
    "recv d \<noteq> []" "p < 32 - nat (newbits d) \<Longrightarrow> \<not> bit (recv d ! 1) p"
proof -
  show "2 \<le> length (recv d)" "0 < newbits d" "newbits d \<le> 32" "2 \<le> index d"
    using assms by (simp_all add: reader_wf_def)
  then show "recv d \<noteq> []" by auto
  assume "p < 32 - nat (newbits d)"
  moreover have "\<not> bit (take_bit (32 - nat (newbits d)) (recv d ! 1)) p"
    using assms by (simp add: reader_wf_def)
  ultimately show "\<not> bit (recv d ! 1) p" by (simp add: bit_take_bit_iff)
qed

text \<open>The two readers differ in the width they compute with and in what they do at the end of the stream.\<close>

lemma skipKbits_updateReadBuf:
  assumes "updateReadBuf d i = Inr d'" "i \<le> 31" "reader_wf d"
  shows "skipKbits d i = d'"
proof -
  note wf = reader_wfD [OF assms(3)]
  show ?thesis
  proof (cases "newbits d - int i \<le> 0")
    case True
    then have g: "0 \<le> index d" "index d < int (length (recv d))"
      using assms(1) by (auto simp: updateReadBuf_def get_at_def split: if_splits)
    let ?n = "nat (newbits d)" and ?w = "recv d ! nat (index d)"
    have "(ucast (push_bit i (ucast (recv d ! 0) :: u64) OR drop_bit (32 - i) (ucast (recv d ! 1) OR drop_bit ?n (ucast ?w))) :: u32)
        = push_bit i (recv d ! 0) OR ucast (drop_bit (32 - i) ((ucast (recv d ! 1) :: u64) OR drop_bit ?n (ucast ?w)))"
      by (rule bit_word_eqI) (auto simp: bit_simps)
    moreover have "(ucast (push_bit (i - ?n) (ucast ?w :: u64)) :: u32) = push_bit (i - ?n) ?w"
      by (rule bit_word_eqI) (auto simp: bit_simps)
    ultimately show ?thesis
      using assms(1) True g
      by (auto simp: updateReadBuf_def skipKbits_def get_at_def Let_def intro!: decoder.equality)
  next
    case False
    have "(ucast (push_bit i (ucast (recv d ! 0) :: u64) OR drop_bit (32 - i) (ucast (recv d ! 1))) :: u32)
        = push_bit i (recv d ! 0) OR drop_bit (32 - i) (recv d ! 1)"
      by (rule bit_word_eqI) (auto simp: bit_simps)
    moreover have "(ucast (push_bit i (ucast (recv d ! 1) :: u64)) :: u32) = push_bit i (recv d ! 1)"
      by (rule bit_word_eqI) (auto simp: bit_simps)
    ultimately show ?thesis
      using assms(1) False by (simp add: updateReadBuf_def skipKbits_def Let_def)
  qed
qed

text \<open>The state after reading \<open>i\<close> bits, while the refill word is there.\<close>

lemma skip_refill:
  assumes "reader_wf d" "i \<le> 31" "newbits d \<le> int i" "index d < int (length (recv d))"
  shows "reader_wf (skipKbits d i) \<and> (\<forall>k. sbit (skipKbits d i) k = sbit d (k + i))"
proof -
  note wf = reader_wfD [OF assms(1)]
  let ?n = "nat (newbits d)" and ?w = "recv d ! nat (index d)"
  let ?r0 = "push_bit i (recv d ! 0) OR ucast (drop_bit (32 - i) ((ucast (recv d ! 1) :: u64) OR drop_bit ?n (ucast ?w)))"
  let ?r1 = "push_bit (i - ?n) ?w"
  have s: "skipKbits d i = d\<lparr>recv := (recv d)[0 := ?r0, 1 := ?r1], newbits := 32 + newbits d - int i, index := index d + 1\<rparr>"
    using assms by (simp add: skipKbits_def Let_def)
  have n': "nat (32 + newbits d - int i) = 32 + ?n - i" "32 - (32 + ?n - i) = i - ?n"
    using assms(2,3) wf(2,3) by auto
  have "reader_wf (skipKbits d i)"
    using assms wf by (simp add: s reader_wf_def n' take_bit_push_bit)
  moreover have "sbit (skipKbits d i) k = sbit d (k + i)" for k
  proof -
    consider "k < 32" | "32 \<le> k" "k < 32 + (32 + ?n - i)" | "32 + (32 + ?n - i) \<le> k" by linarith
    then show ?thesis
    proof cases
      case 1
      have "bit ?r0 (31 - k) = sbit d (k + i)"
      proof -
        consider "k + i < 32" | "32 \<le> k + i" "k + i < 32 + ?n" | "32 + ?n \<le> k + i" by linarith
        then show ?thesis
        proof cases
          case 1
          then show ?thesis
            using assms(2) by (auto simp: bit_simps sbit_def dest: bit_imp_le_length)
        next
          case 2
          then have "32 - i + (31 - k) = 63 - (k + i)" "31 - k < i" "63 - (k + i) < 32"
            using assms(2) \<open>k < 32\<close> by auto
          with 2 show ?thesis
            using assms(2) \<open>k < 32\<close> by (auto simp: bit_simps sbit_def Let_def dest: bit_imp_le_length)
        next
          case 3
          then have p: "32 - i + (31 - k) = 63 - (k + i)" "31 - k < i" "?n + (63 - (k + i)) = 31 - (k + i - 32 - ?n)"
            "k + i - 32 - ?n < 32" "63 - (k + i) < 32 - ?n"
            using assms(2) \<open>k < 32\<close> wf(2,3) by auto
          with 3 wf(6) [OF p(5)] show ?thesis
            using assms(2) \<open>k < 32\<close>
            by (auto simp: bit_simps sbit_def Let_def add.commute [of i k] dest: bit_imp_le_length)
        qed
      qed
      with 1 wf(1,5) show ?thesis by (simp add: s sbit_def [of "d\<lparr>recv := _, newbits := _\<rparr>"] sbit_def [of "d\<lparr>recv := _, newbits := _, index := _\<rparr>"] n' Let_def)
    next
      case 2
      have p: "\<not> k + i < 32 + ?n" "k + i - 32 - ?n < 32" "63 - k - (i - ?n) = 31 - (k + i - 32 - ?n)" "i - ?n \<le> 63 - k"
        "63 - k < 32"
        using 2 assms(2,3) wf(2,3) by auto
      then have "bit ?r1 (63 - k) = bit ?w (31 - (k + i - 32 - ?n))"
        using 2 by (auto simp: bit_simps dest: bit_imp_le_length)
      with 2 p wf(1) show ?thesis by (simp add: s sbit_def n' Let_def)
    next
      case 3
      define j where "j = k - 32 - (32 + ?n - i)"
      have j: "k + i - 32 - ?n = j + 32" "\<not> k + i < 32" "\<not> k + i < 32 + ?n"
        "\<not> k < 32" "\<not> k < 32 + (32 + ?n - i)"
        using 3 assms(2,3) wf(2,3) by (auto simp: j_def)
      have j': "k - (32 + (32 + ?n - i)) = j" by (simp add: j_def)
      define a where "a = nat (index d)"
      have a: "nat (index d + 1) = a + 1" "2 \<le> a" using wf(4) by (simp_all add: a_def)
      have "sbit (skipKbits d i) k = bit ((recv d)[0 := ?r0, 1 := ?r1] ! (a + 1 + j div 32)) (31 - j mod 32)"
        unfolding s sbit_def using j(4,5) by (simp add: n' a j' Let_def)
      also have "\<dots> = bit (recv d ! (a + 1 + j div 32)) (31 - j mod 32)"
        using a(2) by simp
      also have "\<dots> = sbit d (k + i)"
      proof -
        have "(j + 32) div 32 = j div 32 + 1" by (rule div_add_self2) simp
        then show ?thesis
          unfolding sbit_def Let_def j(1) a_def [symmetric] using j(2,3) by simp
      qed
      finally show ?thesis .
    qed
  qed
  ultimately show ?thesis by blast
qed

lemma skip_within:
  assumes "reader_wf d" "i \<le> 31" "int i < newbits d"
  shows "reader_wf (skipKbits d i) \<and> (\<forall>k. sbit (skipKbits d i) k = sbit d (k + i))"
proof -
  note wf = reader_wfD [OF assms(1)]
  let ?n = "nat (newbits d)"
  let ?r0 = "push_bit i (recv d ! 0) OR drop_bit (32 - i) (recv d ! 1)" and ?r1 = "push_bit i (recv d ! 1)"
  have s: "skipKbits d i = d\<lparr>recv := (recv d)[0 := ?r0, 1 := ?r1], newbits := newbits d - int i\<rparr>"
    using assms by (simp add: skipKbits_def Let_def)
  have n': "nat (newbits d - int i) = ?n - i" and lt: "i < ?n" "?n \<le> 32"
    using assms(3) wf by auto
  have "take_bit (32 - (?n - i)) ?r1 = 0"
  proof (rule bit_word_eqI)
    fix q assume "q < LENGTH(32)"
    show "bit (take_bit (32 - (?n - i)) ?r1) q = bit 0 q"
      using wf(6) [of "q - i"] lt by (auto simp: bit_simps)
  qed
  then have "reader_wf (skipKbits d i)"
    using assms wf by (simp add: s reader_wf_def n')
  moreover have "sbit (skipKbits d i) k = sbit d (k + i)" for k
  proof -
    consider "k < 32" | "32 \<le> k" "k < 32 + (?n - i)" | "32 + (?n - i) \<le> k" by linarith
    then show ?thesis
    proof cases
      case 1
      have "bit ?r0 (31 - k) = sbit d (k + i)"
      proof (cases "k + i < 32")
        case True
        then show ?thesis by (auto simp: bit_simps sbit_def dest: bit_imp_le_length)
      next
        case False
        then have "32 - i + (31 - k) = 63 - (k + i)" "31 - k < i" "k + i < 32 + ?n"
          using assms(2) 1 lt by auto
        with False show ?thesis by (auto simp: bit_simps sbit_def Let_def)
      qed
      with 1 wf(1,5) show ?thesis by (simp add: s sbit_def [of "d\<lparr>recv := _, newbits := _\<rparr>"] sbit_def [of "d\<lparr>recv := _, newbits := _, index := _\<rparr>"] n' Let_def)
    next
      case 2
      then have "63 - k - i = 63 - (k + i)" "i \<le> 63 - k" "\<not> k + i < 32" "k + i < 32 + ?n"
        using lt by auto
      with 2 wf(1) show ?thesis by (auto simp: s sbit_def n' Let_def bit_simps)
    next
      case 3
      then have "k - 32 - (?n - i) = k + i - 32 - ?n" "\<not> k + i < 32 + ?n" "\<not> k < 32 + (?n - i)"
        using lt by auto
      moreover have "2 \<le> nat (index d)" using wf(4) by simp
      ultimately show ?thesis by (simp add: s sbit_def n' Let_def)
    qed
  qed
  ultimately show ?thesis by blast
qed

lemma lookKbits_bits:
  assumes "b \<le> 16"
  shows "bit (lookKbits d b) j = (j < b \<and> sbit d (b - 1 - j))"
proof -
  have "31 - (b - Suc j) = 32 + j - b" "b - Suc j < 32" "j < 16" if "j < b" using that assms by auto
  then show ?thesis
    using assms by (cases "j < b") (auto simp: lookKbits_def sbit_def bit_simps dest: bit_imp_le_length)
qed

lemma updateReadBuf_panics:
  "updateReadBuf d i = Inl p \<Longrightarrow> newbits d \<le> int i \<and> (index d < 0 \<or> int (length (recv d)) \<le> index d)"
  by (auto simp: updateReadBuf_def get_at_def Let_def split: if_splits)

lemma updateReadBuf_index:
  "updateReadBuf d i = Inr d' \<Longrightarrow> newbits d \<le> int i \<Longrightarrow> index d < int (length (recv d))"
  by (auto simp: updateReadBuf_def get_at_def Let_def split: if_splits)

text \<open>
  C22. The two registers, the count of valid bits and the refill index are a view of one sequence of
  bits: looking shows the next bits of it, and the two ways to advance, by up to 31 bits, agree and
  drop exactly as many from the front. The checked one panics exactly when it
  needs a word beyond the received ones.
\<close>

theorem bit_reader_refines:
  assumes "reader_wf d" "i \<le> 31" "b \<le> 16"
  shows "bit (lookKbits d b) j = (j < b \<and> sbit d (b - 1 - j))
    \<and> (case updateReadBuf d i of
         Inl p \<Rightarrow> newbits d \<le> int i \<and> int (length (recv d)) \<le> index d
       | Inr d' \<Rightarrow> skipKbits d i = d' \<and> reader_wf d' \<and> sbit d' k = sbit d (k + i))"
proof (cases "updateReadBuf d i")
  case (Inl p)
  with updateReadBuf_panics [OF Inl] reader_wfD(4) [OF assms(1)] show ?thesis
    by (auto simp: lookKbits_bits [OF assms(3)])
next
  case (Inr d')
  have s: "skipKbits d i = d'"
    by (rule skipKbits_updateReadBuf [OF Inr assms(2,1)])
  have "reader_wf (skipKbits d i) \<and> (\<forall>k. sbit (skipKbits d i) k = sbit d (k + i))"
  proof (cases "newbits d \<le> int i")
    case True
    with skip_refill [OF assms(1,2) True updateReadBuf_index [OF Inr True]] show ?thesis by blast
  next
    case False
    with skip_within [OF assms(1,2)] show ?thesis by simp
  qed
  with Inr s show ?thesis by (simp add: lookKbits_bits [OF assms(3)])
qed

text \<open>A reader at the start of a stream of words.\<close>

definition start_reader :: "u32 list \<Rightarrow> decoder \<Rightarrow> decoder" where
  "start_reader ws d = d\<lparr>recv := ws, index := 2, newbits := 32\<rparr>"

lemma start_reader_wf: "2 \<le> length ws \<Longrightarrow> reader_wf (start_reader ws d)"
  by (simp add: start_reader_def reader_wf_def)

lemma bit_reader_refines_witness:
  "bit (lookKbits (start_reader [0xF0000000, 1, 2] undefined) 3) 2
   \<and> (\<exists>d'. updateReadBuf (start_reader [0xF0000000, 1, 2] undefined) 4 = Inr d' \<and> reader_wf d' \<and> \<not> sbit d' 0)"
proof -
  let ?d = "start_reader [0xF0000000, 1, 2] undefined"
  have wf: "reader_wf ?d" by (rule start_reader_wf) simp
  obtain d' where d': "updateReadBuf ?d 4 = Inr d'"
    by (simp add: start_reader_def updateReadBuf_def Let_def)
  have "sbit ?d 0" "\<not> sbit ?d 4"
    by (simp_all add: start_reader_def sbit_def bit_numeral_rec)
  with bit_reader_refines [OF wf, of 4 3 2 0] d' show ?thesis by simp
qed

end
