(* ===== verification/CodecRc4.thy ===== *)
theory CodecRc4
  imports CodecBits "HOL-Library.Multiset"
begin

text \<open>
  The stream cipher of the video codec (\<^verbatim>\<open>internal/kvm/codec/rc4.go\<close>). The key stream is applied to whole
  words; the state's array stays a permutation of 0 to 255, so that no index is out of range, and
  the cipher undoes itself.
\<close>

definition decodeKeys :: bytes where
  "decodeKeys = go_string ''fedcba9876543210''"

definition keysExpansion :: "bytes \<Rightarrow> bytes" where
  "keysExpansion key =
     (let n = length key; out = blit 0 key (replicate 256 0)
      in foldl (\<lambda>out i. out[i := out ! (i mod n)]) out [0 ..< 256])"

text \<open>One round of the key schedule: the array and \<open>j\<close>. The key byte counts as signed.\<close>

definition ksa_step :: "bytes \<Rightarrow> nat list \<times> nat \<Rightarrow> nat \<Rightarrow> nat list \<times> nat" where
  "ksa_step key mj i =
     (let (a, j) = mj;
          v = a ! i;
          j = nat ((int j + int v + sint (key ! i)) mod 256)
      in (a[i := a ! j, j := v], j))"

definition decodeRC4Setup :: "bytes \<Rightarrow> rc4State" where
  "decodeRC4Setup expandedKey =
     \<lparr>rc4_x = 0, rc4_y = 0, rc4_m = fst (foldl (ksa_step expandedKey) ([0 ..< 256], 0) [0 ..< 256])\<rparr>"

text \<open>One round of the generator: the key stream's entry and the next state.\<close>

definition rc4_next :: "rc4State \<Rightarrow> nat \<times> rc4State" where
  "rc4_next s =
     (let p = (rc4_x s + 1) mod 256;
          a = rc4_m s ! p;
          q = (rc4_y s + a) mod 256;
          b = rc4_m s ! q;
          t = (rc4_m s)[p := b, q := a]
      in (t ! ((a + b) mod 256), s\<lparr>rc4_x := p, rc4_y := q, rc4_m := t\<rparr>))"

text \<open>The first \<open>n\<close> words of the buffer.\<close>

fun rc4Crypt :: "rc4State \<Rightarrow> u32 list \<Rightarrow> nat \<Rightarrow> rc4State \<times> u32 list" where
  "rc4Crypt s (w # buf) (Suc n) =
     (let (k, s) = rc4_next s; (s, ws) = rc4Crypt s buf n in (s, (w XOR of_nat k) # ws))"
| "rc4Crypt s buf n = (s, buf)"

section \<open>The state stays a permutation\<close>

definition rc4_wf :: "rc4State \<Rightarrow> bool" where
  "rc4_wf s = (mset (rc4_m s) = mset [0 ..< 256] \<and> rc4_x s < 256 \<and> rc4_y s < 256)"

lemma perm_256: "mset a = mset [0 ..< 256] \<Longrightarrow> length a = 256 \<and> (\<forall>v \<in> set a. v < 256)"
  by (metis atLeastLessThan_iff length_upt mset_eq_length minus_nat.diff_0 set_mset_mset set_upt)

lemma mset_swap_update:
  "i < length a \<Longrightarrow> j < length a \<Longrightarrow> mset (a[i := a ! j, j := a ! i]) = mset a"
  by (simp add: mset_swap)

lemma ksa_perm:
  assumes "mset a = mset [0 ..< 256]" "j < 256" "list_all (\<lambda>i. i < 256) is"
  shows "mset (fst (foldl (ksa_step key) (a, j) is)) = mset [0 ..< 256]"
  using assms
proof (induction "is" arbitrary: a j)
  case (Cons i "is")
  let ?j = "nat ((int j + int (a ! i) + sint (key ! i)) mod 256)"
  have "?j < 256" by simp
  with Cons.prems have "mset (a[i := a ! ?j, ?j := a ! i]) = mset [0 ..< 256]"
    using perm_256 [OF Cons.prems(1)] by (subst mset_swap_update) auto
  with Cons.IH \<open>?j < 256\<close> Cons.prems(3) show ?case
    by (simp add: ksa_step_def Let_def)
qed simp

lemma setup_wf: "rc4_wf (decodeRC4Setup key)"
proof -
  have "list_all (\<lambda>i. i < 256) [0 ..< 256]" by (simp add: list_all_iff)
  then show ?thesis by (simp add: rc4_wf_def decodeRC4Setup_def ksa_perm)
qed

lemma rc4_next_wf:
  assumes "rc4_wf s"
  shows "rc4_wf (snd (rc4_next s)) \<and> fst (rc4_next s) < 256"
proof -
  let ?p = "(rc4_x s + 1) mod 256" and ?q = "(rc4_y s + rc4_m s ! ((rc4_x s + 1) mod 256)) mod 256"
  let ?t = "(rc4_m s)[?p := rc4_m s ! ?q, ?q := rc4_m s ! ?p]"
  have l: "length (rc4_m s) = 256" using assms perm_256 by (simp add: rc4_wf_def)
  then have t: "mset ?t = mset [0 ..< 256]"
    using assms by (subst mset_swap_update) (simp_all add: rc4_wf_def)
  have "?t ! k < 256" if "k < 256" for k
    using perm_256 [OF t] that by (metis nth_mem)
  with t show ?thesis by (simp add: rc4_wf_def rc4_next_def Let_def)
qed

lemma rc4Crypt_wf: "rc4_wf s \<Longrightarrow> rc4_wf (fst (rc4Crypt s buf n)) \<and> length (snd (rc4Crypt s buf n)) = length buf"
proof (induction s buf n rule: rc4Crypt.induct)
  case (1 s w buf n)
  with rc4_next_wf [OF 1(2)] show ?case
    by (auto simp: Let_def split: prod.split)
qed simp_all

lemma rc4Crypt_twice: "snd (rc4Crypt s (snd (rc4Crypt s buf n)) n) = buf"
proof (induction s buf n rule: rc4Crypt.induct)
  case (1 s w buf n)
  obtain k t where k: "rc4_next s = (k, t)" by force
  obtain u ws where u: "rc4Crypt t buf n = (u, ws)" by force
  obtain u' ws' where u': "rc4Crypt t ws n = (u', ws')" by force
  have "ws' = buf" using 1 k u u' by simp
  then show ?case by (simp add: k u u' xor.assoc)
qed simp_all

text \<open>
  C23. The cipher's array is a permutation of 0 to 255 after the key schedule of any key and after any
  use, so that the key stream consists of bytes and no index leaves the array; and enciphering the words of
  a buffer twice from the same state gives them back, the words beyond the count untouched.
\<close>

theorem rc4_involution:
  "mset (rc4_m (fst (rc4Crypt (decodeRC4Setup key) buf n))) = mset [0 ..< 256]
   \<and> snd (rc4Crypt s (snd (rc4Crypt s buf n)) n) = buf
   \<and> drop n (snd (rc4Crypt s buf n)) = drop n buf"
proof (intro conjI)
  show "mset (rc4_m (fst (rc4Crypt (decodeRC4Setup key) buf n))) = mset [0 ..< 256]"
    using rc4Crypt_wf [OF setup_wf] by (simp add: rc4_wf_def)
  show "snd (rc4Crypt s (snd (rc4Crypt s buf n)) n) = buf" by (rule rc4Crypt_twice)
  show "drop n (snd (rc4Crypt s buf n)) = drop n buf"
    by (induction s buf n rule: rc4Crypt.induct) (auto split: prod.split)
qed

end
