(* ===== verification/Codec.thy ===== *)
theory Codec
  imports CodecRc4
begin

text \<open>
  The decoder of the KVM video stream (\<^verbatim>\<open>internal/kvm/codec\<close>): the frame header (\<^verbatim>\<open>header.go\<close>), the entropy
  decoder and the inverse transform (\<^verbatim>\<open>idct.go\<close>), the colour conversion (\<^verbatim>\<open>yuv.go\<close>), the VQ tiles (\<^verbatim>\<open>vq.go\<close>),
  the macro-block loop (\<^verbatim>\<open>decode.go\<close>) and \<^verbatim>\<open>Decode\<close> (\<^verbatim>\<open>decoder.go\<close>).

  Operations are functions on the decoder's state; a Go panic is the left side. The
  macro-block loop can run forever on a crafted stream, so it is a partial function whose value
  is \<open>None\<close> when it does.
\<close>

section \<open>Frame header\<close>

definition videoHeaderSize :: nat where
  "videoHeaderSize = 86"

record frameHeader =
  destX :: int
  destY :: int
  sourceX :: int
  sourceY :: int
  compressionMode :: int
  jpegScaleFactor :: int
  jpegTableSelector :: int
  jpegYUVTableMapping :: int
  sharpModeSelection :: int
  advanceTableSelector :: int
  advanceScale :: int
  numberOfMB :: int
  rc4Enable :: int
  rc4Reset :: int
  h_mode420 :: int
  compressSize :: int

definition byte_at :: "bytes \<Rightarrow> nat \<Rightarrow> int" where
  "byte_at b i = uint (b ! i)"

definition parseFrameHeader :: "bytes \<Rightarrow> (frameHeader \<times> bytes) option" where
  "parseFrameHeader b =
     (if length b < videoHeaderSize then None
      else Some (\<lparr>destX = uint (get_le16 b 13), destY = uint (get_le16 b 15),
                  sourceX = uint (get_le16 b 4), sourceY = uint (get_le16 b 6),
                  compressionMode = byte_at b 42, jpegScaleFactor = byte_at b 43,
                  jpegTableSelector = byte_at b 44, jpegYUVTableMapping = byte_at b 45,
                  sharpModeSelection = byte_at b 46, advanceTableSelector = byte_at b 47,
                  advanceScale = byte_at b 48, numberOfMB = sint (get_le32 b 49),
                  rc4Enable = byte_at b 53, rc4Reset = byte_at b 54, h_mode420 = byte_at b 55,
                  compressSize = sint (get_le32 b 69)\<rparr>,
                 drop videoHeaderSize b))"

text \<open>Bytes packed into words, the last one padded with zeros.\<close>

fun makeIntArray :: "bytes \<Rightarrow> u32 list" where
  "makeIntArray [] = []"
| "makeIntArray [a] = [ucast a]"
| "makeIntArray [a, b] = [ucast a OR push_bit 8 (ucast b)]"
| "makeIntArray [a, b, c] = [ucast a OR push_bit 8 (ucast b) OR push_bit 16 (ucast c)]"
| "makeIntArray (a # b # c # d # s) =
     (ucast a OR push_bit 8 (ucast b) OR push_bit 16 (ucast c) OR push_bit 24 (ucast d)) # makeIntArray s"

section \<open>Entropy decoding\<close>

definition window :: "decoder \<Rightarrow> nat" where
  "window d = unat (drop_bit 16 (recv d ! 0))"

text \<open>The value under a code of \<open>b\<close> bits; the position is the low byte of its distance to the first code.\<close>

definition huffman_value :: "huffmanTable \<Rightarrow> nat \<Rightarrow> i16 \<Rightarrow> nat" where
  "huffman_value ht b look =
     V_at ht (b * 256 + nat ((sint look - minorCode ht ! b) mod 256))"

definition next_symbol :: "huffmanTable \<Rightarrow> decoder \<Rightarrow> nat \<times> decoder" where
  "next_symbol ht d =
     (let b = Len ht (window d) in (huffman_value ht b (lookKbits d b), skipKbits d b))"

text \<open>The AC coefficients; \<open>b5\<close> is the next position in scan order. The value's nibbles are the zero run and the magnitude.\<close>

function decode_ac :: "huffmanTable \<Rightarrow> nat \<Rightarrow> decoder \<Rightarrow> nat \<Rightarrow> decoder" where
  "decode_ac ht off d b5 =
     (let (v, d) = next_symbol ht d; b8 = v mod 16; b9 = v div 16 mod 16
      in if b8 = 0 then
           (if b9 = 15 then (if 64 \<le> b5 + 16 then d else decode_ac ht off d (b5 + 16)) else d)
         else
           (let b10 = b5 + b9;
                (k, d) = getKbits d b8;
                d = d\<lparr>dctCoeff := (dctCoeff d)[off + dezigzag ! b10 := scast k]\<rparr>
            in if 64 \<le> b10 + 1 then d else decode_ac ht off d (b10 + 1)))"
  by pat_completeness auto
termination by (relation "measure (\<lambda>(ht, off, d, b5). 64 - b5)") auto

declare decode_ac.simps [simp del]

text \<open>\<open>dcTbl\<close> and \<open>acTbl\<close> are the component's table numbers, \<open>pred\<close> its running DC value.\<close>

definition decodeHuffmanDataUnit :: "nat \<Rightarrow> nat \<Rightarrow> i16 \<Rightarrow> nat \<Rightarrow> decoder \<Rightarrow> i16 \<times> decoder" where
  "decodeHuffmanDataUnit dcTbl acTbl pred off d =
     (let d = d\<lparr>dctCoeff := replicate 384 0\<rparr>;
          (b4, d) = next_symbol (htDC dcTbl) d;
          (pred, d) =
            (if b4 = 0 then (pred, d\<lparr>dctCoeff := (dctCoeff d)[off := scast pred]\<rparr>)
             else let (k, d) = getKbits d b4; c = scast pred + scast k :: i32
                  in (ucast c, d\<lparr>dctCoeff := (dctCoeff d)[off := c]\<rparr>))
      in (pred, decode_ac (htAC acTbl) off d 1))"

section \<open>Inverse transform\<close>

definition multiply :: "i32 \<Rightarrow> i32 \<Rightarrow> i32" where
  "multiply a b = signed_drop_bit 8 (a * b)"

definition dequantize :: "i32 \<Rightarrow> int \<Rightarrow> i32" where
  "dequantize c q = word_of_int ((sint c * q) div 65536)"

text \<open>The one-dimensional transform, which the column and the row pass share.\<close>

definition idct8 :: "i32 list \<Rightarrow> i32 list" where
  "idct8 w =
     (let tmp10 = w ! 0 + w ! 4; tmp11 = w ! 0 - w ! 4; tmp13 = w ! 2 + w ! 6;
          tmp12 = multiply (w ! 2 - w ! 6) 362 - tmp13;
          a0 = tmp10 + tmp13; a3 = tmp10 - tmp13; a1 = tmp11 + tmp12; a2 = tmp11 - tmp12;
          z13 = w ! 5 + w ! 3; z10 = w ! 5 - w ! 3; z11 = w ! 1 + w ! 7; z12 = w ! 1 - w ! 7;
          u7 = z11 + z13; u11 = multiply (z11 - z13) 362; z5 = multiply (z10 + z12) 473;
          u10 = multiply z12 277 - z5; u12 = (multiply z10 (- 669) + z5) - u7;
          v6 = u11 - u12; v5 = u10 + v6
      in [a0 + u7, a1 + u12, a2 + v6, a3 - v5, a3 + v5, a2 - v6, a1 - u12, a0 - u7])"

text \<open>A column of coefficients with its column of quantizers; one with no AC part is constant.\<close>

definition idct_column :: "i32 list \<Rightarrow> int list \<Rightarrow> i32 list" where
  "idct_column c q =
     (if c ! 1 OR c ! 2 OR c ! 3 OR c ! 4 OR c ! 5 OR c ! 6 OR c ! 7 = 0
      then replicate 8 (dequantize (c ! 0) (q ! 0))
      else idct8 (map (\<lambda>i. dequantize (c ! i) (q ! i)) [0 ..< 8]))"

definition range_limit :: "i32 \<Rightarrow> u8" where
  "range_limit v = rangeLimitTable (128 + unat (signed_drop_bit 3 v AND 1023) + 256)"

definition column :: "'a list \<Rightarrow> nat \<Rightarrow> nat \<Rightarrow> 'a list" where
  "column xs off j = map (\<lambda>i. xs ! (off + i * 8 + j)) [0 ..< 8]"

definition inverseDCT :: "nat \<Rightarrow> nat \<Rightarrow> decoder \<Rightarrow> decoder" where
  "inverseDCT off qtIdx d =
     (let ws = map (\<lambda>j. idct_column (column (dctCoeff d) off j) (column (qt d ! qtIdx) 0 j)) [0 ..< 8];
          tile = concat (map (\<lambda>r. map range_limit (idct8 (map (\<lambda>j. ws ! j ! r) [0 ..< 8]))) [0 ..< 8])
      in d\<lparr>yuvTile := blit off tile (yuvTile d)\<rparr>)"

section \<open>Colour conversion\<close>

definition blue :: "u8 \<Rightarrow> u8 \<Rightarrow> u8" where
  "blue yv cb = clampRange (calcRGBofY yv + calcRGBofCbToB cb)"

definition green :: "u8 \<Rightarrow> u8 \<Rightarrow> u8 \<Rightarrow> u8" where
  "green yv cb cr = clampRange (calcRGBofY yv + calcRGBofCbToG cb + calcRGBofCrToG cr)"

definition red :: "u8 \<Rightarrow> u8 \<Rightarrow> u8" where
  "red yv cr = clampRange (calcRGBofY yv + calcRGBofCrToR cr)"

definition put3 :: "bytes \<Rightarrow> int \<Rightarrow> u8 \<times> u8 \<times> u8 \<Rightarrow> bytes go" where
  "put3 buf i v =
     go_bind (put_at buf i (fst v)) (\<lambda>buf.
       go_bind (put_at buf (i + 1) (fst (snd v))) (\<lambda>buf. put_at buf (i + 2) (snd (snd v))))"

definition pixel :: "u8 \<Rightarrow> u8 \<Rightarrow> u8 \<Rightarrow> u8 \<times> u8 \<times> u8" where
  "pixel yv cb cr = (blue yv cb, green yv cb cr, red yv cr)"

text \<open>The pixels of an 8 by 8 tile, row by row, that are left of the picture's edge.\<close>

definition tile_pixels :: "int \<Rightarrow> int \<Rightarrow> (nat \<times> nat) list" where
  "tile_pixels realW x0 =
     (let limit = realW - x0; limit = (if limit = 0 \<or> 8 < limit then 8 else limit)
      in concat (map (\<lambda>r. map (\<lambda>c. (r, c)) [0 ..< nat limit]) [0 ..< 8]))"

definition put_444 :: "int \<Rightarrow> int \<Rightarrow> decoder \<Rightarrow> nat \<times> nat \<Rightarrow> decoder go" where
  "put_444 x0 y0 d rc =
     (let (r, c) = rc; idx = 8 * r + c;
          pi = (y0 * realWidth d + x0 + int r * realWidth d + int c) * 3;
          yv = yuvTile d ! idx; cb = yuvTile d ! (64 + idx); cr = yuvTile d ! (128 + idx)
      in go_bind (put3 (prevYUV d) pi (yv, cb, cr)) (\<lambda>prev.
           let d = d\<lparr>prevYUV := prev\<rparr>
           in if pi < realWidth d * realH d * 3
              then go_bind (put3 (decodeBuf d) pi (pixel yv cb cr)) (\<lambda>buf. Inr (d\<lparr>decodeBuf := buf\<rparr>))
              else Inr d))"

text \<open>Four luma blocks; \<open>ic\<close> counts the pixels taken from each.\<close>

definition put_420 :: "int \<Rightarrow> int \<Rightarrow> nat list \<times> decoder \<Rightarrow> nat \<times> nat \<Rightarrow> (nat list \<times> decoder) go" where
  "put_420 x0 y0 icd rc =
     (let (ic, d) = icd; (r, c) = rc;
          blk = r div 8 * 2 + c div 8; pos = ic ! blk; ic = ic[blk := pos + 1];
          pi = (y0 * width d + x0 + int r * realWidth d + int c) * 3;
          chroma = r div 2 * 8 + c div 2;
          yv = yuvTile d ! (blk * 64 + pos); cb = yuvTile d ! (256 + chroma); cr = yuvTile d ! (320 + chroma)
      in go_bind (put3 (decodeBuf d) pi (pixel yv cb cr)) (\<lambda>buf. Inr (ic, d\<lparr>decodeBuf := buf\<rparr>)))"

definition convertYUVtoRGB :: "int \<Rightarrow> int \<Rightarrow> decoder \<Rightarrow> decoder go" where
  "convertYUVtoRGB tx ty d =
     (if mode420 d = 0 then go_fold (put_444 (tx * 8) (ty * 8)) d (tile_pixels (realWidth d) (tx * 8))
      else
        (let rows = (if height d = 608 \<and> ty = 37 then 8 else 16);
             cells = concat (map (\<lambda>r. map (\<lambda>c. (r, c)) [0 ..< 16]) [0 ..< rows])
         in go_bind (go_fold (put_420 (tx * 16) (ty * 16)) (replicate 4 0, d) cells) (\<lambda>icd. Inr (snd icd))))"

definition clamp255 :: "int \<Rightarrow> u8" where
  "clamp255 v = (if v < 0 then 0 else if 255 < v then 255 else word_of_int v)"

definition put_pass2 :: "int \<Rightarrow> int \<Rightarrow> decoder \<Rightarrow> nat \<times> nat \<Rightarrow> decoder go" where
  "put_pass2 x0 y0 d rc =
     (let (r, c) = rc; idx = 8 * r + c;
          pi = (y0 * realWidth d + x0 + int r * realWidth d + int c) * 3
      in go_bind (get_at (prevYUV d) pi) (\<lambda>py.
           go_bind (get_at (prevYUV d) (pi + 1)) (\<lambda>pb.
             go_bind (get_at (prevYUV d) (pi + 2)) (\<lambda>pr.
               let yv = clamp255 (uint py + (uint (yuvTile d ! idx) - 128));
                   cb = clamp255 (uint pb + (uint (yuvTile d ! (64 + idx)) - 128));
                   cr = clamp255 (uint pr + (uint (yuvTile d ! (128 + idx)) - 128))
               in if pi < realWidth d * realH d * 3
                  then go_bind (put3 (decodeBuf d) pi (pixel yv cb cr)) (\<lambda>buf. Inr (d\<lparr>decodeBuf := buf\<rparr>))
                  else Inr d))))"

definition convertYUVToRGBPass2 :: "int \<Rightarrow> int \<Rightarrow> decoder \<Rightarrow> decoder go" where
  "convertYUVToRGBPass2 tx ty d =
     (if mode420 d \<noteq> 0 then Inr d
      else go_fold (put_pass2 (tx * 8) (ty * 8)) d (tile_pixels (realWidth d) (tx * 8)))"

section \<open>Tiles\<close>

definition decode_component :: "nat \<Rightarrow> nat \<Rightarrow> nat \<Rightarrow> nat \<Rightarrow> i16 \<times> decoder \<Rightarrow> i16 \<times> decoder" where
  "decode_component dcTbl acTbl off qtIdx pd =
     (let (pred, d) = decodeHuffmanDataUnit dcTbl acTbl (fst pd) off (snd pd)
      in (pred, inverseDCT off qtIdx d))"

definition decode_Y :: "nat \<Rightarrow> nat \<Rightarrow> decoder \<Rightarrow> decoder" where
  "decode_Y off b d = (let (p, d) = decode_component 0 0 off b (dcY d, d) in d\<lparr>dcY := p\<rparr>)"

definition decode_Cb :: "nat \<Rightarrow> nat \<Rightarrow> decoder \<Rightarrow> decoder" where
  "decode_Cb off b d = (let (p, d) = decode_component 1 1 off b (dcCb d, d) in d\<lparr>dcCb := p\<rparr>)"

definition decode_Cr :: "nat \<Rightarrow> nat \<Rightarrow> decoder \<Rightarrow> decoder" where
  "decode_Cr off b d = (let (p, d) = decode_component 1 1 off b (dcCr d, d) in d\<lparr>dcCr := p\<rparr>)"

definition decompressJPEG :: "int \<Rightarrow> int \<Rightarrow> nat \<Rightarrow> decoder \<Rightarrow> decoder go" where
  "decompressJPEG tx ty b d =
     (let d = decode_Y 0 b d;
          d = (if mode420 d = 1 then
                 decode_Cr 320 (b + 1) (decode_Cb 256 (b + 1)
                   (decode_Y 192 b (decode_Y 128 b (decode_Y 64 b d))))
               else decode_Cr 128 (b + 1) (decode_Cb 64 (b + 1) d))
      in convertYUVtoRGB tx ty d)"

definition decompressJPEGPass2 :: "int \<Rightarrow> int \<Rightarrow> nat \<Rightarrow> decoder \<Rightarrow> decoder go" where
  "decompressJPEGPass2 tx ty b d =
     convertYUVToRGBPass2 tx ty (decode_Cr 128 (b + 1) (decode_Cb 64 (b + 1) (decode_Y 0 b d)))"

definition vq_write :: "nat \<Rightarrow> u32 \<Rightarrow> decoder \<Rightarrow> decoder" where
  "vq_write idx color d =
     d\<lparr>yuvTile := (yuvTile d)[idx := ucast (drop_bit 16 (color AND 0x00FF0000)),
                               idx + 64 := ucast (drop_bit 8 (color AND 0x0000FF00)),
                               idx + 128 := ucast (color AND 0x000000FF)]\<rparr>"

definition vq_pixel :: "decoder \<Rightarrow> nat \<Rightarrow> decoder" where
  "vq_pixel d idx =
     (let bits = BitMapBits d; sel = nat (sint (lookKbits d bits))
      in skipKbits (vq_write idx (Color d ! (Index d ! sel)) d) bits)"

definition decompressVQ :: "int \<Rightarrow> int \<Rightarrow> decoder \<Rightarrow> decoder go" where
  "decompressVQ tx ty d =
     (let d = (if BitMapBits d = 0
               then (let color = Color d ! (Index d ! 0)
                     in foldl (\<lambda>d idx. vq_write idx color d) d [0 ..< 64])
               else foldl vq_pixel d [0 ..< 64])
      in convertYUVtoRGB tx ty d)"

definition vq_slot :: "decoder \<Rightarrow> nat \<Rightarrow> decoder go" where
  "vq_slot d i =
     (let k = unat (drop_bit 29 (recv d ! 0) AND 3);
          d = d\<lparr>Index := (Index d)[i := k]\<rparr>
      in if drop_bit 31 (recv d ! 0) AND 1 = 0 then updateReadBuf d 3
         else updateReadBuf (d\<lparr>Color := (Color d)[k := drop_bit 5 (recv d ! 0) AND 0x00FFFFFF]\<rparr>) 27)"

definition readVQHeader :: "nat \<Rightarrow> nat \<Rightarrow> decoder \<Rightarrow> decoder go" where
  "readVQHeader bits slots d = go_fold vq_slot (d\<lparr>BitMapBits := bits\<rparr>) [0 ..< slots]"

definition readSkipPosition :: "decoder \<Rightarrow> decoder" where
  "readSkipPosition d =
     d\<lparr>txb := uint (drop_bit 20 (recv d ! 0 AND 0x0FF00000)),
       tyb := uint (drop_bit 12 (recv d ! 0 AND 0x000FF000))\<rparr>"

definition moveBlockIndex :: "decoder \<Rightarrow> decoder" where
  "moveBlockIndex d =
     (let n = (if mode420 d = 0 then 8 else 16);
          d = d\<lparr>txb := txb d + 1\<rparr>
      in if tmpWidthBy16 d div n \<le> txb d then
           (let d = d\<lparr>tyb := tyb d + 1\<rparr>;
                d = (if tmpHeightBy16 d div n \<le> tyb d then d\<lparr>tyb := 0\<rparr> else d)
            in d\<lparr>txb := 0\<rparr>)
         else d)"

section \<open>The macro-block loop\<close>

definition read_vq :: "nat \<Rightarrow> nat \<Rightarrow> decoder \<Rightarrow> decoder go" where
  "read_vq bits slots d =
     go_bind (readVQHeader bits slots d) (\<lambda>d. decompressVQ (txb d) (tyb d) d)"

text \<open>The tile a code calls for, after the code (and the position) has been read.\<close>

definition decode_tile :: "nat \<Rightarrow> decoder \<Rightarrow> decoder go" where
  "decode_tile code d =
     (if code = 0 then decompressJPEG (txb d) (tyb d) 0 d
      else if code = 2 then decompressJPEGPass2 (txb d) (tyb d) 2 d
      else if code = 5 then read_vq 0 1 d
      else if code = 6 then read_vq 1 2 d
      else if code = 7 then read_vq 2 4 d
      else decompressJPEG (txb d) (tyb d) 2 d)"

text \<open>One macro block: \<open>None\<close> at the end code. Codes from 8 on carry a position.\<close>

definition decode_block :: "decoder \<Rightarrow> decoder option go" where
  "decode_block d =
     (let code = unat (drop_bit 28 (recv d ! 0) AND 15)
      in if code = 9 then Inr None
         else if code \<in> {0, 2, 4, 5, 6, 7} then
           go_bind (updateReadBuf d 4) (\<lambda>d.
             go_bind (decode_tile code d) (\<lambda>d. Inr (Some (moveBlockIndex d))))
         else if code \<in> {8, 10, 12, 13, 14, 15} then
           go_bind (updateReadBuf (readSkipPosition d) 20) (\<lambda>d.
             go_bind (decode_tile (code - 8) d) (\<lambda>d. Inr (Some (moveBlockIndex d))))
         else go_bind (updateReadBuf d 3) (\<lambda>d. Inr (Some (moveBlockIndex d))))"

partial_function (option) decode_loop :: "int \<Rightarrow> decoder \<Rightarrow> decoder go option" where
  "decode_loop compressWords d =
     (case decode_block d of
        Inl p \<Rightarrow> Some (Inl p)
      | Inr None \<Rightarrow> Some (Inr d)
      | Inr (Some d') \<Rightarrow> if compressWords \<le> index d' then Some (Inr d') else decode_loop compressWords d')"

section \<open>A frame\<close>

definition roundUp :: "int \<Rightarrow> int \<Rightarrow> int" where
  "roundUp v n = (if v mod n \<noteq> 0 then v + n - v mod n else v)"

definition ensureBuffers :: "decoder \<Rightarrow> decoder" where
  "ensureBuffers d =
     (let d = d\<lparr>bufStride := if mode420 d = 0 then realWidth d else width d\<rparr>;
          need = width d * height d * 3
      in if bufAlloc d < need
         then d\<lparr>decodeBuf := replicate (nat need) 0, prevYUV := replicate (nat need) 0, bufAlloc := need\<rparr>
         else d)"

definition frame_geometry :: "frameHeader \<Rightarrow> decoder \<Rightarrow> decoder" where
  "frame_geometry h d =
     (let d = d\<lparr>Index := [0, 1, 2, 3], Color := [0x00008080, 0x00FF8080, 0x00808080, 0x00C08080]\<rparr>;
          n = (if h_mode420 h = 1 then 16 else 8)
      in ensureBuffers (d\<lparr>width := roundUp (destX h) n, height := roundUp (destY h) n,
              realWidth := destX h, realH := destY h, mode420 := h_mode420 h,
              tmpWidthBy16 := roundUp (destX h) n, tmpHeightBy16 := roundUp (destY h) n\<rparr>))"

definition frame_rc4 :: "frameHeader \<Rightarrow> decoder \<Rightarrow> u32 list \<Rightarrow> decoder \<times> u32 list" where
  "frame_rc4 h d ws =
     (if rc4Enable h = 1 then
        (let d = (if rc4SetupDone d then d
                  else d\<lparr>rc4 := decodeRC4Setup (keysExpansion decodeKeys), rc4SetupDone := True\<rparr>);
             n = go_quot (compressSize h) 4 * 4;
             n = (if int (length ws) < n then int (length ws) else n);
             (s, ws) = rc4Crypt (rc4 d) ws (nat n)
         in (d\<lparr>rc4 := s\<rparr>, ws))
      else (d, ws))"

definition frame_tables :: "frameHeader \<Rightarrow> decoder \<Rightarrow> decoder go" where
  "frame_tables h d =
     (let d = d\<lparr>selector := jpegTableSelector h, advanceSelector := advanceTableSelector h,
                 mapping := jpegYUVTableMapping h\<rparr>
      in go_bind (loadLuminanceQuantizationTable (selector d)) (\<lambda>q0.
           go_bind (loadChrominanceQuantizationTable (mapping d) (selector d)) (\<lambda>q1.
             go_bind (loadPass2LuminanceQuantizationTable (advanceSelector d)) (\<lambda>q2.
               go_bind (loadPass2ChrominanceQuantizationTable (mapping d) (advanceSelector d)) (\<lambda>q3.
                 Inr (d\<lparr>qt := [q0, q1, q2, q3]\<rparr>))))))"

definition decode :: "frameHeader \<Rightarrow> u32 list \<Rightarrow> decoder \<Rightarrow> decoder go option" where
  "decode h ws d =
     (let (d, ws) = frame_rc4 h (frame_geometry h d) ws
      in case frame_tables h d of
           Inl p \<Rightarrow> Some (Inl p)
         | Inr d \<Rightarrow>
             (let d = d\<lparr>recv := ws, index := 2, tyb := 0, txb := 0, newbits := 32,
                        dcY := 0, dcCb := 0, dcCr := 0\<rparr>
              in if length ws < 2 then Some (Inr d)
                 else decode_loop (go_quot (compressSize h) 4) d))"

definition maxResolution :: int where
  "maxResolution = 1500"

record codec_frame =
  fW :: int
  fH :: int
  fPix :: bytes

definition get_pixel :: "bytes \<Rightarrow> int \<Rightarrow> bytes go" where
  "get_pixel buf si =
     go_bind (get_at buf (si + 2)) (\<lambda>r.
       go_bind (get_at buf (si + 1)) (\<lambda>g.
         go_bind (get_at buf si) (\<lambda>b. Inr [r, g, b, 0])))"

definition expand :: "decoder \<Rightarrow> bytes go" where
  "expand d =
     go_fold (\<lambda>pix yx. go_bind (get_pixel (decodeBuf d) (int (fst yx) * bufStride d * 3 + int (snd yx) * 3))
                         (\<lambda>p. Inr (pix @ p)))
       [] (concat (map (\<lambda>y. map (\<lambda>x. (y, x)) [0 ..< nat (realWidth d)]) [0 ..< nat (realH d)]))"

datatype decode_result = Rejected | Decoded codec_frame

definition Decode :: "decoder \<Rightarrow> bytes \<Rightarrow> (decoder \<times> decode_result) go option" where
  "Decode d f =
     (case parseFrameHeader f of
        None \<Rightarrow> Some (Inr (d, Rejected))
      | Some (h, compressed) \<Rightarrow>
          if destX h \<le> 0 \<or> destY h \<le> 0 \<or> maxResolution < destX h \<or> maxResolution < destY h
          then Some (Inr (d, Rejected))
          else
            (case decode h (makeIntArray compressed) d of
               None \<Rightarrow> None
             | Some (Inl p) \<Rightarrow> Some (Inl p)
             | Some (Inr d) \<Rightarrow>
                 (case expand d of
                    Inl p \<Rightarrow> Some (Inl p)
                  | Inr pix \<Rightarrow> Some (Inr (d, Decoded \<lparr>fW = realWidth d, fH = realH d, fPix = pix\<rparr>)))))"

definition newDecoder :: decoder where
  "newDecoder =
     \<lparr>width = 0, height = 0, realWidth = 0, realH = 0, tmpWidthBy16 = 0, tmpHeightBy16 = 0, mode420 = 1,
      selector = 0, advanceSelector = 0, mapping = 0, qt = replicate 4 (replicate 64 0),
      dcY = 0, dcCb = 0, dcCr = 0, recv = [], index = 0, newbits = 0,
      dctCoeff = replicate 384 0, yuvTile = replicate 768 0, decodeBuf = [], bufStride = 0, bufAlloc = 0,
      prevYUV = [], rc4 = \<lparr>rc4_x = 0, rc4_y = 0, rc4_m = replicate 256 0\<rparr>, rc4SetupDone = False,
      Color = replicate 4 0, Index = replicate 4 0, BitMapBits = 0, txb = 0, tyb = 0\<rparr>"

definition Size_of :: "decoder \<Rightarrow> int \<times> int" where
  "Size_of d = (realWidth d, realH d)"

section \<open>What decoding keeps\<close>

text \<open>The geometry of the frame and the sizes of the buffers, which no operation on tiles changes.\<close>

definition geometry :: "decoder \<Rightarrow> (int \<times> int \<times> int \<times> int) \<times> (int \<times> int \<times> int) \<times> (int \<times> int \<times> nat \<times> nat)" where
  "geometry d =
     ((realWidth d, realH d, width d, height d), (mode420 d, tmpWidthBy16 d, tmpHeightBy16 d),
      (bufStride d, bufAlloc d, length (decodeBuf d), length (prevYUV d)))"

definition place :: "decoder \<Rightarrow> int \<times> int" where
  "place d = (txb d, tyb d)"

lemma geometry_upd [simp]:
  "geometry (d\<lparr>recv := a\<rparr>) = geometry d" "geometry (d\<lparr>index := b\<rparr>) = geometry d"
  "geometry (d\<lparr>newbits := b\<rparr>) = geometry d" "geometry (d\<lparr>dctCoeff := c\<rparr>) = geometry d"
  "geometry (d\<lparr>yuvTile := e\<rparr>) = geometry d" "geometry (d\<lparr>Color := a\<rparr>) = geometry d"
  "geometry (d\<lparr>Index := g\<rparr>) = geometry d" "geometry (d\<lparr>BitMapBits := n\<rparr>) = geometry d"
  "geometry (d\<lparr>dcY := i\<rparr>) = geometry d" "geometry (d\<lparr>dcCb := i\<rparr>) = geometry d"
  "geometry (d\<lparr>dcCr := i\<rparr>) = geometry d" "geometry (d\<lparr>txb := b\<rparr>) = geometry d"
  "geometry (d\<lparr>tyb := b\<rparr>) = geometry d"
  by (simp_all add: geometry_def)

lemma place_upd [simp]:
  "place (d\<lparr>recv := a\<rparr>) = place d" "place (d\<lparr>index := b\<rparr>) = place d"
  "place (d\<lparr>newbits := b\<rparr>) = place d" "place (d\<lparr>dctCoeff := c\<rparr>) = place d"
  "place (d\<lparr>yuvTile := e\<rparr>) = place d" "place (d\<lparr>Color := a\<rparr>) = place d"
  "place (d\<lparr>Index := g\<rparr>) = place d" "place (d\<lparr>BitMapBits := n\<rparr>) = place d"
  "place (d\<lparr>dcY := i\<rparr>) = place d" "place (d\<lparr>dcCb := i\<rparr>) = place d"
  "place (d\<lparr>dcCr := i\<rparr>) = place d" "place (d\<lparr>decodeBuf := e\<rparr>) = place d"
  "place (d\<lparr>prevYUV := e\<rparr>) = place d"
  by (simp_all add: place_def)

lemma skipKbits_keeps [simp]: "geometry (skipKbits d b) = geometry d" "place (skipKbits d b) = place d"
  by (simp_all add: skipKbits_def Let_def)

lemma updateReadBuf_keeps: "updateReadBuf d i = Inr d' \<Longrightarrow> geometry d' = geometry d \<and> place d' = place d"
  by (auto simp: updateReadBuf_def get_at_def Let_def split: if_splits)

lemma next_symbol_keeps [simp]:
  "geometry (snd (next_symbol ht d)) = geometry d" "place (snd (next_symbol ht d)) = place d"
  by (simp_all add: next_symbol_def Let_def)

lemma getKbits_keeps [simp]: "geometry (snd (getKbits d b)) = geometry d" "place (snd (getKbits d b)) = place d"
  by (simp_all add: getKbits_def Let_def)

lemma decode_ac_keeps [simp]: "geometry (decode_ac ht off d b) = geometry d \<and> place (decode_ac ht off d b) = place d"
proof (induction ht off d b rule: decode_ac.induct)
  case (1 ht off d b5)
  obtain v d1 where s: "next_symbol ht d = (v, d1)" by force
  obtain k d2 where g: "getKbits d1 (v mod 16) = (k, d2)" by force
  have k1: "geometry d1 = geometry d" "place d1 = place d"
    using next_symbol_keeps [of ht d] s by simp_all
  have k2: "geometry d2 = geometry d1" "place d2 = place d1"
    using getKbits_keeps [of d1 "v mod 16"] g by simp_all
  show ?case
    using 1 s g k1 k2 by (subst (1 2) decode_ac.simps) (auto simp: Let_def)
qed

lemma decodeHuffmanDataUnit_keeps [simp]:
  "geometry (snd (decodeHuffmanDataUnit a b p off d)) = geometry d \<and> place (snd (decodeHuffmanDataUnit a b p off d)) = place d"
proof -
  obtain v d1 where s: "next_symbol (htDC a) (d\<lparr>dctCoeff := replicate 384 0\<rparr>) = (v, d1)" by force
  obtain k d2 where g: "getKbits d1 v = (k, d2)" by force
  show ?thesis
    using next_symbol_keeps [of "htDC a" "d\<lparr>dctCoeff := replicate 384 0\<rparr>"] getKbits_keeps [of d1 v] s g
    by (simp add: decodeHuffmanDataUnit_def Let_def)
qed

lemma inverseDCT_keeps [simp]: "geometry (inverseDCT off q d) = geometry d" "place (inverseDCT off q d) = place d"
  by (simp_all add: inverseDCT_def Let_def)

lemma decode_component_keeps [simp]:
  "geometry (snd (decode_component a b off q pd)) = geometry (snd pd)"
  "place (snd (decode_component a b off q pd)) = place (snd pd)"
  using decodeHuffmanDataUnit_keeps [of a b "fst pd" off "snd pd"]
  by (simp_all add: decode_component_def split_beta)

lemma decode_planes_keep [simp]:
  "geometry (decode_Y off b d) = geometry d" "place (decode_Y off b d) = place d"
  "geometry (decode_Cb off b d) = geometry d" "place (decode_Cb off b d) = place d"
  "geometry (decode_Cr off b d) = geometry d" "place (decode_Cr off b d) = place d"
  using decode_component_keeps [of 0 0 off b "(dcY d, d)"] decode_component_keeps [of 1 1 off b "(dcCb d, d)"]
    decode_component_keeps [of 1 1 off b "(dcCr d, d)"]
  by (simp_all add: decode_Y_def decode_Cb_def decode_Cr_def split_beta)

lemma put3_length: "put3 buf i v = Inr buf' \<Longrightarrow> length buf' = length buf"
  by (auto simp: put3_def put_at_def go_bind_Inr split: if_splits)

definition kept :: "decoder \<Rightarrow> decoder \<Rightarrow> bool" where
  "kept d d' = (geometry d' = geometry d \<and> place d' = place d)"

lemma kept_refl [simp]: "kept d d"
  by (simp add: kept_def)

lemma kept_trans: "kept a b \<Longrightarrow> kept b c \<Longrightarrow> kept a c"
  by (simp add: kept_def)

lemma kept_buf: "length buf = length (decodeBuf d) \<Longrightarrow> kept d (d\<lparr>decodeBuf := buf\<rparr>)"
  by (simp add: kept_def geometry_def place_def)

lemma kept_prev: "length buf = length (prevYUV d) \<Longrightarrow> kept d (d\<lparr>prevYUV := buf\<rparr>)"
  by (simp add: kept_def geometry_def place_def)

lemma go_fold_kept:
  assumes "\<And>d a d'. f d a = Inr d' \<Longrightarrow> kept d d'" "go_fold f d as = Inr d'"
  shows "kept d d'"
  using assms(2)
proof (induction "as" arbitrary: d)
  case (Cons a as)
  then obtain e where "f d a = Inr e" "go_fold f e as = Inr d'" by (auto simp: go_bind_Inr)
  with Cons.IH assms(1) show ?case by (blast intro: kept_trans)
qed (simp add: kept_def)

lemma kept_bind:
  "go_bind e f = Inr d' \<Longrightarrow> (\<And>a. e = Inr a \<Longrightarrow> f a = Inr d' \<Longrightarrow> kept d d') \<Longrightarrow> kept d d'"
  by (cases e) simp_all

lemma put_buf_kept: "go_bind (put3 (decodeBuf d) i v) (\<lambda>buf. Inr (d\<lparr>decodeBuf := buf\<rparr>)) = Inr d' \<Longrightarrow> kept d d'"
  by (auto simp: go_bind_Inr dest!: put3_length intro: kept_buf)

lemma put_buf_if_kept:
  "(if b then go_bind (put3 (decodeBuf d) i v) (\<lambda>buf. Inr (d\<lparr>decodeBuf := buf\<rparr>)) else Inr d) = Inr d' \<Longrightarrow> kept d d'"
  by (cases b) (simp_all add: put_buf_kept)

lemma put_444_kept: "put_444 x0 y0 d (r, c) = Inr d' \<Longrightarrow> kept d d'"
  unfolding put_444_def Let_def prod.case
proof (erule kept_bind)
  fix prev i v
  assume "put3 (prevYUV d) i v = Inr prev"
  then have k: "kept d (d\<lparr>prevYUV := prev\<rparr>)" by (rule kept_prev [OF put3_length])
  show "kept d d'" if "(if b then go_bind (put3 (decodeBuf (d\<lparr>prevYUV := prev\<rparr>)) j w)
      (\<lambda>buf. Inr (d\<lparr>prevYUV := prev, decodeBuf := buf\<rparr>)) else Inr (d\<lparr>prevYUV := prev\<rparr>)) = Inr d'" for b j w
    by (rule kept_trans [OF k put_buf_if_kept [OF that]])
qed

lemma put_420_kept: "put_420 x0 y0 (ic, d) (r, c) = Inr (ic', d') \<Longrightarrow> kept d d'"
  unfolding put_420_def Let_def prod.case go_bind_Inr
  by (elim exE conjE) (drule put3_length, auto intro: kept_buf)

lemma put_pass2_kept: "put_pass2 x0 y0 d (r, c) = Inr d' \<Longrightarrow> kept d d'"
  unfolding put_pass2_def Let_def prod.case
  by (elim kept_bind) (erule put_buf_if_kept)

lemma fold_420_kept: "go_fold (put_420 x0 y0) icd cells = Inr icd' \<Longrightarrow> kept (snd icd) (snd icd')"
proof (induction cells arbitrary: icd)
  case (Cons a cells)
  then obtain e where e: "put_420 x0 y0 icd a = Inr e" "go_fold (put_420 x0 y0) e cells = Inr icd'"
    by (auto simp: go_bind_Inr)
  then have "kept (snd icd) (snd e)" by (cases icd; cases e; cases a) (auto dest: put_420_kept)
  with Cons.IH e show ?case by (blast intro: kept_trans)
qed (simp add: kept_def)

lemma convertYUVtoRGB_kept: "convertYUVtoRGB tx ty d = Inr d' \<Longrightarrow> kept d d'"
proof -
  assume c: "convertYUVtoRGB tx ty d = Inr d'"
  have full: "kept d d'" if "go_fold (put_444 x0 y0) d ps = Inr d'" for x0 y0 ps
    using that by (rule go_fold_kept [rotated]) (metis put_444_kept surj_pair)
  have sub: "kept d d'" if "go_bind (go_fold (put_420 x0 y0) (ic, d) ps) (\<lambda>icd. Inr (snd icd)) = Inr d'" for x0 y0 ic ps
    using that unfolding go_bind_Inr by (elim exE conjE) (drule fold_420_kept, simp)
  show ?thesis
  proof (cases "mode420 d = 0")
    case True
    show ?thesis
      by (rule full) (rule c [unfolded convertYUVtoRGB_def Let_def if_P [OF True]])
  next
    case False
    show ?thesis
      by (rule sub) (rule c [unfolded convertYUVtoRGB_def Let_def if_not_P [OF False]])
  qed
qed

lemma pass2_kept: "convertYUVToRGBPass2 tx ty d = Inr d' \<Longrightarrow> kept d d'"
  unfolding convertYUVToRGBPass2_def
  by (cases "mode420 d = 0")
    (auto simp: kept_refl intro: go_fold_kept [where f = "put_pass2 (tx * 8) (ty * 8)"] put_pass2_kept)

lemma decompressJPEG_kept: "decompressJPEG tx ty b d = Inr d' \<Longrightarrow> kept d d'"
  by (auto simp: decompressJPEG_def Let_def dest!: convertYUVtoRGB_kept split: if_splits) (simp_all add: kept_def)

lemma decompressJPEGPass2_kept: "decompressJPEGPass2 tx ty b d = Inr d' \<Longrightarrow> kept d d'"
  by (auto simp: decompressJPEGPass2_def dest!: pass2_kept) (simp_all add: kept_def)

lemma vq_keeps [simp]:
  "geometry (vq_write i col d) = geometry d" "place (vq_write i col d) = place d"
  "geometry (vq_pixel d i) = geometry d" "place (vq_pixel d i) = place d"
  by (simp_all add: vq_write_def vq_pixel_def Let_def)

lemma foldl_keeps:
  "(\<And>d a. geometry (f d a) = geometry d \<and> place (f d a) = place d)
     \<Longrightarrow> geometry (foldl f d as) = geometry d \<and> place (foldl f d as) = place d"
  by (induction "as" arbitrary: d) auto

lemma decompressVQ_kept: "decompressVQ tx ty d = Inr d' \<Longrightarrow> kept d d'"
  using foldl_keeps [of "\<lambda>d idx. vq_write idx (Color d ! (Index d ! 0)) d" d "[0 ..< 64]"]
    foldl_keeps [of "\<lambda>e idx. vq_write idx (Color d ! (Index d ! 0)) e" d "[0 ..< 64]"]
    foldl_keeps [of vq_pixel d "[0 ..< 64]"]
  by (auto simp: decompressVQ_def Let_def dest!: convertYUVtoRGB_kept split: if_splits) (simp_all add: kept_def)

lemma vq_slot_kept: "vq_slot d i = Inr d' \<Longrightarrow> kept d d'"
  by (auto simp: vq_slot_def Let_def kept_def dest!: updateReadBuf_keeps split: if_splits)

lemma readVQHeader_kept: "readVQHeader b n d = Inr d' \<Longrightarrow> kept d d'"
  unfolding readVQHeader_def
proof -
  assume "go_fold vq_slot (d\<lparr>BitMapBits := b\<rparr>) [0 ..< n] = Inr d'"
  then have "kept (d\<lparr>BitMapBits := b\<rparr>) d'"
    using go_fold_kept [of vq_slot] vq_slot_kept by blast
  then show "kept d d'" by (simp add: kept_def)
qed

lemma read_vq_kept: "read_vq b n d = Inr d' \<Longrightarrow> kept d d'"
  unfolding read_vq_def go_bind_Inr
  by (elim exE conjE) (rule kept_trans [OF readVQHeader_kept decompressVQ_kept])

lemma decode_tile_kept: "decode_tile code d = Inr d' \<Longrightarrow> kept d d'"
  by (simp add: decode_tile_def read_vq_kept decompressJPEG_kept decompressJPEGPass2_kept split: if_splits)

lemma moveBlockIndex_geometry [simp]: "geometry (moveBlockIndex d) = geometry d"
  by (simp add: moveBlockIndex_def Let_def)

lemma readSkipPosition_geometry [simp]: "geometry (readSkipPosition d) = geometry d"
  by (simp add: readSkipPosition_def)

lemma decode_block_geometry: "decode_block d = Inr (Some d') \<Longrightarrow> geometry d' = geometry d"
proof -
  assume r: "decode_block d = Inr (Some d')"
  let ?c = "unat (drop_bit 28 (recv d ! 0) AND 15)"
  have tile: "geometry (moveBlockIndex e') = geometry e" if "updateReadBuf e n = Inr f" "decode_tile k f = Inr e'" for e f e' n k
    using updateReadBuf_keeps [OF that(1)] decode_tile_kept [OF that(2)] by (simp add: kept_def)
  consider "?c = 9" | "?c \<noteq> 9" "?c \<in> {0, 2, 4, 5, 6, 7}"
    | "?c \<noteq> 9" "?c \<notin> {0, 2, 4, 5, 6, 7}" "?c \<in> {8, 10, 12, 13, 14, 15}"
    | "?c \<noteq> 9" "?c \<notin> {0, 2, 4, 5, 6, 7}" "?c \<notin> {8, 10, 12, 13, 14, 15}" by blast
  then show ?thesis
  proof cases
    case 1
    with r show ?thesis by (simp add: decode_block_def)
  next
    case 2
    with r obtain f e where "updateReadBuf d 4 = Inr f" "decode_tile ?c f = Inr e" "d' = moveBlockIndex e"
      unfolding decode_block_def Let_def by (auto simp only: if_True if_False go_bind_Inr)
    with tile show ?thesis by blast
  next
    case 3
    with r obtain f e where "updateReadBuf (readSkipPosition d) 20 = Inr f" "decode_tile (?c - 8) f = Inr e"
      "d' = moveBlockIndex e"
      unfolding decode_block_def Let_def by (auto simp only: if_True if_False go_bind_Inr)
    with tile [of "readSkipPosition d"] show ?thesis by simp
  next
    case 4
    with r obtain f where "updateReadBuf d 3 = Inr f" "d' = moveBlockIndex f"
      unfolding decode_block_def Let_def by (auto simp only: if_True if_False go_bind_Inr)
    with updateReadBuf_keeps show ?thesis by simp
  qed
qed

lemma decode_loop_geometry:
  assumes "decode_loop cw d = Some r"
  shows "case r of Inl p \<Rightarrow> True | Inr d' \<Rightarrow> geometry d' = geometry d"
proof (rule decode_loop.raw_induct [OF _ assms])
  fix rec cw d r
  assume IH: "\<And>cw d r. rec cw d = Some r \<Longrightarrow> case r of Inl p \<Rightarrow> True | Inr d' \<Rightarrow> geometry d' = geometry d"
    and r: "(case decode_block d of Inl p \<Rightarrow> Some (Inl p) | Inr None \<Rightarrow> Some (Inr d)
       | Inr (Some d') \<Rightarrow> if cw \<le> index d' then Some (Inr d') else rec cw d') = Some r"
  show "case r of Inl p \<Rightarrow> True | Inr d' \<Rightarrow> geometry d' = geometry d"
  proof (cases "decode_block d")
    case (Inr e)
    show ?thesis
    proof (cases e)
      case (Some d1)
      with Inr have "geometry d1 = geometry d" by (simp add: decode_block_geometry)
      with r Inr Some IH [of cw d1 r] show ?thesis by (auto split: if_splits sum.splits)
    qed (use r Inr in auto)
  qed (use r in auto)
qed

end
