(* ===== verification/CodecSafety.thy ===== *)
theory CodecSafety
  imports Codec
begin

text \<open>
  What the video decoder guarantees: the outcome of \<^verbatim>\<open>Decode\<close> for any frame, the picture it packs,
  and that decoding a block on the tile grid stays inside its buffers.
\<close>

section \<open>What a decoder holds between frames\<close>

definition decoder_ok :: "decoder \<Rightarrow> bool" where
  "decoder_ok d = (int (length (decodeBuf d)) = bufAlloc d \<and> length (prevYUV d) = length (decodeBuf d))"

text \<open>The geometry set, and room in the buffers for every tile of the grid.\<close>

definition framed :: "decoder \<Rightarrow> bool" where
  "framed d =
     (decoder_ok d \<and> 1 \<le> realWidth d \<and> realWidth d \<le> maxResolution \<and> 1 \<le> realH d \<and> realH d \<le> maxResolution
      \<and> width d = roundUp (realWidth d) (if mode420 d = 1 then 16 else 8)
      \<and> height d = roundUp (realH d) (if mode420 d = 1 then 16 else 8)
      \<and> tmpWidthBy16 d = width d \<and> tmpHeightBy16 d = height d
      \<and> bufStride d = (if mode420 d = 0 then realWidth d else width d)
      \<and> width d * height d * 3 \<le> bufAlloc d)"

lemma framed_geometry: "geometry d' = geometry d \<Longrightarrow> framed d' = framed d"
  by (simp add: geometry_def framed_def decoder_ok_def)

lemma roundUp_bounds: "0 < n \<Longrightarrow> v \<le> roundUp v n \<and> roundUp v n < v + n \<and> roundUp v n mod n = 0"
proof -
  assume n: "0 < n"
  have "(v + n - v mod n) mod n = 0"
    by (metis add_diff_eq add.commute mod_add_self1 minus_mod_eq_mult_div mod_mult_self1_is_0 diff_add_eq)
  with n show ?thesis
    using pos_mod_bound [OF n, of v] pos_mod_sign [OF n, of v] by (simp add: roundUp_def)
qed

lemma newDecoder_ok [simp]: "decoder_ok newDecoder"
  by (simp add: decoder_ok_def newDecoder_def)

lemma frame_geometry_framed:
  assumes "decoder_ok d" "1 \<le> destX h" "destX h \<le> maxResolution" "1 \<le> destY h" "destY h \<le> maxResolution"
  shows "framed (frame_geometry h d)" "realWidth (frame_geometry h d) = destX h"
    "realH (frame_geometry h d) = destY h" "mode420 (frame_geometry h d) = h_mode420 h"
  using assms by (simp_all add: framed_def decoder_ok_def frame_geometry_def ensureBuffers_def Let_def)

lemma frame_rc4_geometry: "geometry (fst (frame_rc4 h d ws)) = geometry d"
  by (simp add: frame_rc4_def Let_def split_beta geometry_def)

lemma frame_tables_geometry: "frame_tables h d = Inr d' \<Longrightarrow> geometry d' = geometry d"
  by (auto simp: frame_tables_def Let_def go_bind_Inr geometry_def)

lemma decode_geometry:
  assumes "decode h ws d = Some (Inr d')"
  shows "geometry d' = geometry (frame_geometry h d)"
proof -
  obtain e vs where r: "frame_rc4 h (frame_geometry h d) ws = (e, vs)" by force
  with assms obtain e' where t: "frame_tables h e = Inr e'"
    by (auto simp: decode_def split: sum.splits)
  let ?s = "e'\<lparr>recv := vs, index := 2, tyb := 0, txb := 0, newbits := 32, dcY := 0, dcCb := 0, dcCr := 0\<rparr>"
  have "geometry ?s = geometry (frame_geometry h d)"
    using frame_rc4_geometry [of h "frame_geometry h d" ws] frame_tables_geometry [OF t] r by simp
  moreover from assms r t have "d' = ?s \<or> decode_loop (go_quot (compressSize h) 4) ?s = Some (Inr d')"
    by (simp add: decode_def Let_def split: if_splits)
  ultimately show ?thesis
    using decode_loop_geometry [of _ ?s "Inr d'"] by fastforce
qed

lemma geometry_sizes: "geometry d' = geometry d \<Longrightarrow> realWidth d' = realWidth d \<and> realH d' = realH d \<and> mode420 d' = mode420 d"
  by (simp add: geometry_def)

section \<open>The picture handed out\<close>

text \<open>The pixel at column \<open>x\<close> of row \<open>y\<close>, in the order the client negotiates.\<close>

definition rgbx :: "decoder \<Rightarrow> nat \<Rightarrow> nat \<Rightarrow> bytes" where
  "rgbx d y x =
     (let i = nat (bufStride d * 3) * y + 3 * x
      in [decodeBuf d ! (i + 2), decodeBuf d ! (i + 1), decodeBuf d ! i, 0])"

definition picture :: "decoder \<Rightarrow> bytes" where
  "picture d =
     concat (map (\<lambda>y. concat (map (rgbx d y) [0 ..< nat (realWidth d)])) [0 ..< nat (realH d)])"

lemma go_fold_append:
  "(\<And>a. a \<in> set as \<Longrightarrow> f a = Inr (g a))
     \<Longrightarrow> go_fold (\<lambda>acc a. go_bind (f a) (\<lambda>p. Inr (acc @ p))) acc as = Inr (acc @ concat (map g as))"
  by (induction "as" arbitrary: acc) auto

lemma concat_map_parts: "concat (map f (concat xss)) = concat (map (\<lambda>xs. concat (map f xs)) xss)"
  by (induction xss) simp_all

lemma get_pixel_nat:
  assumes "i + 2 < length buf"
  shows "get_pixel buf (int i) = Inr [buf ! (i + 2), buf ! (i + 1), buf ! i, 0]"
proof -
  have "get_at buf (int (i + k)) = Inr (buf ! (i + k))" if "k \<le> 2" for k
    using that assms by (simp add: get_at_def del: of_nat_add)
  from this [of 0] this [of 1] this [of 2] show ?thesis
    by (simp add: get_pixel_def add.commute)
qed

lemma pixel_room:
  fixes y x w h s :: int
  assumes "0 \<le> y" "y < h" "0 \<le> x" "x < w" "w \<le> s"
  shows "0 \<le> y * s * 3 + x * 3" "y * s * 3 + x * 3 + 2 < s * h * 3"
proof -
  have "(y + 1) * s \<le> h * s" by (rule mult_right_mono) (use assms in auto)
  moreover have "0 \<le> y * s" using assms by simp
  ultimately show "0 \<le> y * s * 3 + x * 3" "y * s * 3 + x * 3 + 2 < s * h * 3"
    using assms by (auto simp: algebra_simps)
qed

lemma framed_sizes:
  assumes "framed d"
  shows "1 \<le> realWidth d" "1 \<le> realH d" "realWidth d \<le> width d" "realH d \<le> height d"
    "realWidth d \<le> bufStride d" "bufStride d \<le> width d" "width d * height d * 3 \<le> int (length (decodeBuf d))"
    "length (prevYUV d) = length (decodeBuf d)"
  using assms roundUp_bounds [of "if mode420 d = 1 then 16 else 8" "realWidth d"]
    roundUp_bounds [of "if mode420 d = 1 then 16 else 8" "realH d"]
  by (auto simp: framed_def decoder_ok_def)

lemma stride_room:
  assumes "framed d"
  shows "bufStride d * realH d * 3 \<le> int (length (decodeBuf d))"
proof -
  note s = framed_sizes [OF assms]
  have "bufStride d * realH d \<le> width d * height d"
    by (rule mult_mono) (use s in auto)
  with s show ?thesis by linarith
qed

lemma expand_picture:
  assumes f: "framed d"
  shows "expand d = Inr (picture d)"
proof -
  let ?cells = "concat (map (\<lambda>y. map (\<lambda>x. (y, x)) [0 ..< nat (realWidth d)]) [0 ..< nat (realH d)])"
  note s = framed_sizes [OF f]
  have px: "get_pixel (decodeBuf d) (int y * bufStride d * 3 + int x * 3) = Inr (rgbx d y x)"
    if "y < nat (realH d)" "x < nat (realWidth d)" for y x
  proof -
    have "0 \<le> int y * bufStride d * 3 + int x * 3"
      "int y * bufStride d * 3 + int x * 3 + 2 < bufStride d * realH d * 3"
      by (rule pixel_room [of "int y" "realH d" "int x" "realWidth d" "bufStride d"], use that s in auto)+
    moreover define i where "i = nat (int y * bufStride d * 3 + int x * 3)"
    ultimately have i: "int y * bufStride d * 3 + int x * 3 = int i" "int i + 2 < int (length (decodeBuf d))"
      using stride_room [OF f] by auto
    have "i = nat (bufStride d * 3) * y + 3 * x"
    proof -
      have "int (nat (bufStride d * 3) * y + 3 * x) = int i"
        using i(1) s by (simp add: algebra_simps)
      then show ?thesis by (simp only: of_nat_eq_iff)
    qed
    then have "rgbx d y x = [decodeBuf d ! (i + 2), decodeBuf d ! (i + 1), decodeBuf d ! i, 0]"
      by (simp add: rgbx_def Let_def)
    with i show ?thesis
      using get_pixel_nat [of i "decodeBuf d"] by simp
  qed
  have "expand d = Inr ([] @ concat (map (\<lambda>yx. rgbx d (fst yx) (snd yx)) ?cells))"
    unfolding expand_def by (rule go_fold_append) (use px in \<open>auto simp del: int_nat_eq\<close>)
  then show ?thesis
    by (simp add: picture_def concat_map_parts comp_def)
qed

lemma length_picture:
  assumes "framed d"
  shows "int (length (picture d)) = realWidth d * realH d * 4"
  using framed_sizes [OF assms]
  by (simp add: picture_def length_concat comp_def rgbx_def Let_def sum_list_triv algebra_simps)


text \<open>The decoders a client can have: a new one, and what decoding leaves of one.\<close>

inductive decoding :: "decoder \<Rightarrow> bool" where
  decoding_new: "decoding newDecoder"
| decoding_step: "decoding d \<Longrightarrow> Decode d f = Some (Inr (d', r)) \<Longrightarrow> decoding d'"

definition accepted :: "bytes \<Rightarrow> bool" where
  "accepted f =
     (videoHeaderSize \<le> length f
      \<and> 1 \<le> uint (get_le16 f 13) \<and> uint (get_le16 f 13) \<le> maxResolution
      \<and> 1 \<le> uint (get_le16 f 15) \<and> uint (get_le16 f 15) \<le> maxResolution)"

lemma parseFrameHeader_size:
  "parseFrameHeader f = (if length f < videoHeaderSize then None
     else Some (fst (the (parseFrameHeader f)), drop videoHeaderSize f))"
  by (simp add: parseFrameHeader_def)

lemma parsed_dims:
  "parseFrameHeader f = Some (h, c) \<Longrightarrow> destX h = uint (get_le16 f 13) \<and> destY h = uint (get_le16 f 15)"
  by (auto simp: parseFrameHeader_def split: if_splits)

lemma Decode_rejects: "\<not> accepted f \<Longrightarrow> Decode d f = Some (Inr (d, Rejected))"
  by (auto simp: Decode_def accepted_def not_le split: option.split dest: parsed_dims)
    (auto simp: parseFrameHeader_def split: if_splits)

lemma Decode_accepts:
  assumes ok: "decoder_ok d" and a: "accepted f"
    and h: "parseFrameHeader f = Some (h, c)" and d: "decode h (makeIntArray c) d = Some (Inr d')"
  shows "framed d'" "realWidth d' = uint (get_le16 f 13)" "realH d' = uint (get_le16 f 15)"
    "Decode d f = Some (Inr (d', Decoded \<lparr>fW = realWidth d', fH = realH d', fPix = picture d'\<rparr>))"
proof -
  have b: "1 \<le> destX h" "destX h \<le> maxResolution" "1 \<le> destY h" "destY h \<le> maxResolution"
    using a parsed_dims [OF h] by (simp_all add: accepted_def)
  note g = decode_geometry [OF d]
  show f: "framed d'"
    using framed_geometry [OF g] frame_geometry_framed [OF ok b] by simp
  show "realWidth d' = uint (get_le16 f 13)" "realH d' = uint (get_le16 f 15)"
    using geometry_sizes [OF g] frame_geometry_framed [OF ok b] parsed_dims [OF h] by simp_all
  show "Decode d f = Some (Inr (d', Decoded \<lparr>fW = realWidth d', fH = realH d', fPix = picture d'\<rparr>))"
    using b by (simp add: Decode_def h d expand_picture [OF f])
qed

lemma Decode_ok:
  assumes "decoder_ok d" "Decode d f = Some (Inr (d', r))"
  shows "decoder_ok d'"
proof (cases "accepted f")
  case True
  then obtain h c where h: "parseFrameHeader f = Some (h, c)"
    using parseFrameHeader_size [of f] by (auto simp: accepted_def)
  with True have "\<not> (destX h \<le> 0 \<or> destY h \<le> 0 \<or> maxResolution < destX h \<or> maxResolution < destY h)"
    using parsed_dims [OF h] by (auto simp: accepted_def)
  with assms(2) h obtain e where e: "decode h (makeIntArray c) d = Some (Inr e)"
    by (auto simp: Decode_def split: option.splits sum.splits)
  with Decode_accepts [OF assms(1) True h e] assms(2) show ?thesis
    by (simp add: framed_def)
qed (use assms Decode_rejects in simp)

lemma decoding_ok: "decoding d \<Longrightarrow> decoder_ok d"
  by (induction rule: decoding.induct) (auto dest: Decode_ok)



text \<open>A header of a picture of 2 by 1 pixels, without tiles.\<close>

definition empty_frame :: bytes where
  "empty_frame = replicate 13 0 @ [2, 0, 1, 0] @ replicate 69 0"

lemma empty_frame_simps:
  "accepted empty_frame" "uint (get_le16 empty_frame 13) = 2" "uint (get_le16 empty_frame 15) = 1"
  "drop videoHeaderSize empty_frame = []" "byte_at empty_frame 53 = 0" "byte_at empty_frame 44 = 0"
  "byte_at empty_frame 47 = 0" "byte_at empty_frame 45 = 0"
  by code_simp+

lemma decode_no_words:
  assumes "rc4Enable h = 0" "jpegTableSelector h = 0" "advanceTableSelector h = 0" "jpegYUVTableMapping h = 0"
  shows "\<exists>d'. decode h [] d = Some (Inr d')"
  using assms
  by (simp add: decode_def frame_rc4_def frame_tables_def Let_def loadLuminanceQuantizationTable_def
      loadChrominanceQuantizationTable_def loadPass2LuminanceQuantizationTable_def
      loadPass2ChrominanceQuantizationTable_def table_at_def tblY_def tblUV_def)


section \<open>Tiles of the grid fit the buffers\<close>

definition tile_size :: "decoder \<Rightarrow> int" where
  "tile_size d = (if mode420 d = 0 then 8 else 16)"

text \<open>The placement counters point at a tile of the grid.\<close>

definition on_grid :: "decoder \<Rightarrow> bool" where
  "on_grid d =
     (framed d \<and> mode420 d \<in> {0, 1}
      \<and> 0 \<le> txb d \<and> txb d < width d div tile_size d \<and> 0 \<le> tyb d \<and> tyb d < height d div tile_size d)"

lemma on_grid_kept:
  assumes k: "kept d d'" and g: "on_grid d"
  shows "on_grid d'"
proof -
  have e: "geometry d' = geometry d" "place d' = place d"
    using k by (simp_all only: kept_def)
  then have "mode420 d' = mode420 d" "width d' = width d" "height d' = height d" "txb d' = txb d" "tyb d' = tyb d"
    by (simp_all only: geometry_def place_def prod.inject)
  moreover have "framed d' = framed d" by (rule framed_geometry [OF e(1)])
  ultimately show ?thesis using g
    by (simp only: on_grid_def tile_size_def simp_thms)
qed

text \<open>Counting through the grid row by row and starting over.\<close>

lemma moveBlockIndex_place:
  assumes "tmpWidthBy16 d = width d" "tmpHeightBy16 d = height d"
  shows "txb (moveBlockIndex d) = (if width d div tile_size d \<le> txb d + 1 then 0 else txb d + 1)"
    "tyb (moveBlockIndex d) =
       (if width d div tile_size d \<le> txb d + 1
        then (if height d div tile_size d \<le> tyb d + 1 then 0 else tyb d + 1) else tyb d)"
  using assms by (simp_all add: moveBlockIndex_def Let_def tile_size_def)

lemma move_stays:
  assumes g: "on_grid d"
  shows "on_grid (moveBlockIndex d)"
proof -
  have f: "framed d" using g by (simp only: on_grid_def)
  have f': "framed (moveBlockIndex d)" using f framed_geometry [of "moveBlockIndex d" d] by simp
  have t: "tmpWidthBy16 d = width d" "tmpHeightBy16 d = height d"
    using f by (simp_all only: framed_def)
  have e: "mode420 (moveBlockIndex d) = mode420 d" "width (moveBlockIndex d) = width d"
      "height (moveBlockIndex d) = height d"
    using moveBlockIndex_geometry [of d] by (simp_all only: geometry_def prod.inject)
  have s: "tile_size (moveBlockIndex d) = tile_size d" by (simp only: tile_size_def e)
  show ?thesis
    unfolding on_grid_def e s moveBlockIndex_place [OF t]
    using g f' unfolding on_grid_def by auto
qed

lemma tile_room:
  fixes k n len :: int
  assumes "0 < n" "0 \<le> k" "k < len div n"
  shows "0 \<le> k * n" "k * n + n \<le> len"
proof -
  have "(k + 1) * n \<le> len div n * n" by (rule mult_right_mono) (use assms in auto)
  also have "\<dots> \<le> len" using assms by (simp add: minus_mod_eq_div_mult [symmetric])
  finally show "k * n + n \<le> len" by (simp add: algebra_simps)
  show "0 \<le> k * n" using assms by simp
qed

lemma put3_ok:
  assumes "0 \<le> i" "i + 2 < int (length buf)"
  shows "\<exists>buf'. put3 buf i v = Inr buf'"
  using assms by (simp add: put3_def put_at_def)

lemma go_fold_total:
  assumes "P b" "\<And>b a. P b \<Longrightarrow> a \<in> set as \<Longrightarrow> \<exists>b'. f b a = Inr b' \<and> P b'"
  shows "\<exists>b'. go_fold f b as = Inr b' \<and> P b'"
  using assms
proof (induction "as" arbitrary: b)
  case (Cons a as)
  from Cons.prems(2) [OF Cons.prems(1), of a] obtain c where c: "f b a = Inr c" "P c" by auto
  with Cons.IH [OF c(2)] Cons.prems(2) show ?case by auto
qed simp

lemma tile_pixels_range:
  "(r, c) \<in> set (tile_pixels w x0) \<Longrightarrow> 0 \<le> x0 \<Longrightarrow> x0 < w \<Longrightarrow> r < 8 \<and> x0 + int c < w"
  by (auto simp: tile_pixels_def Let_def split: if_splits)

text \<open>The three bytes of a pixel of a row and a column of the picture's padded area.\<close>

lemma area_room:
  fixes y x w wd h :: int
  assumes "0 \<le> y" "y < h" "0 \<le> x" "x < w" "w \<le> wd"
  shows "0 \<le> (y * w + x) * 3" "(y * w + x) * 3 + 2 < wd * h * 3"
proof -
  have "(y + 1) * w \<le> h * w" by (rule mult_right_mono) (use assms in auto)
  then have "y * w \<le> h * w - w" by (simp add: algebra_simps)
  moreover have "w * h \<le> wd * h" by (rule mult_right_mono) (use assms in auto)
  moreover have "0 \<le> y * w" using assms by simp
  moreover have "(y * w + x) * 3 = 3 * (y * w) + 3 * x" "wd * h * 3 = 3 * (wd * h)" by simp_all
  ultimately show "0 \<le> (y * w + x) * 3" and "(y * w + x) * 3 + 2 < wd * h * 3"
    using assms mult.commute [of w h] by (linarith, linarith)
qed

lemma tile_444_room:
  assumes "on_grid d" "mode420 d = 0" "(r, c) \<in> set (tile_pixels (realWidth d) (txb d * 8))"
  defines "i \<equiv> (tyb d * 8 * realWidth d + txb d * 8 + int r * realWidth d + int c) * 3"
  shows "0 \<le> i" "i + 2 < int (length (decodeBuf d))" "i + 2 < int (length (prevYUV d))"
proof -
  have f: "framed d" using assms by (simp add: on_grid_def)
  note s = framed_sizes [OF f]
  have g: "0 \<le> txb d" "txb d < width d div 8" "0 \<le> tyb d" "tyb d < height d div 8"
    using assms by (simp_all add: on_grid_def tile_size_def)
  have w: "width d < realWidth d + 8"
    using f assms roundUp_bounds [of 8 "realWidth d"] by (simp add: framed_def)
  have x: "0 \<le> txb d * 8" "txb d * 8 < realWidth d"
    using tile_room [of 8 "txb d" "width d"] g w by auto
  have y: "0 \<le> tyb d * 8" "tyb d * 8 + 8 \<le> height d"
    using tile_room [of 8 "tyb d" "height d"] g by auto
  have rc: "r < 8" "txb d * 8 + int c < realWidth d"
    using tile_pixels_range [OF assms(3)] x by auto
  have i: "i = ((tyb d * 8 + int r) * realWidth d + (txb d * 8 + int c)) * 3"
    by (simp add: i_def algebra_simps)
  have "0 \<le> i" "i + 2 < width d * height d * 3"
    unfolding i using area_room [of "tyb d * 8 + int r" "height d" "txb d * 8 + int c" "realWidth d" "width d"]
      x y rc s by auto
  with s show "0 \<le> i" "i + 2 < int (length (decodeBuf d))" "i + 2 < int (length (prevYUV d))" by auto
qed

lemma put_444_total:
  assumes "on_grid d" "mode420 d = 0" "(r, c) \<in> set (tile_pixels (realWidth d) (txb d * 8))"
  shows "\<exists>d'. put_444 (txb d * 8) (tyb d * 8) d (r, c) = Inr d'"
proof -
  define i where "i = (tyb d * 8 * realWidth d + txb d * 8 + int r * realWidth d + int c) * 3"
  note room = tile_444_room [OF assms, folded i_def]
  let ?v = "\<lambda>k. yuvTile d ! (k + (8 * r + c))"
  obtain prev where p: "put3 (prevYUV d) i (?v 0, ?v 64, ?v 128) = Inr prev"
    using put3_ok [OF room(1) room(3)] by blast
  obtain buf where b: "put3 (decodeBuf d) i (pixel (?v 0) (?v 64) (?v 128)) = Inr buf"
    using put3_ok [OF room(1) room(2)] by blast
  show ?thesis
    unfolding put_444_def Let_def prod.case i_def [symmetric] using p b by simp
qed

lemma convert_444_total:
  assumes g: "on_grid d" and m: "mode420 d = 0"
  shows "\<exists>d'. convertYUVtoRGB (txb d) (tyb d) d = Inr d'"
proof -
  let ?P = "\<lambda>e. kept d e \<and> yuvTile e = yuvTile d"
  have "\<exists>d'. go_fold (put_444 (txb d * 8) (tyb d * 8)) d (tile_pixels (realWidth d) (txb d * 8)) = Inr d' \<and> kept d d'"
  proof (rule go_fold_total)
    fix e rc
    assume e: "kept d e" and rc: "rc \<in> set (tile_pixels (realWidth d) (txb d * 8))"
    have eq: "realWidth e = realWidth d" "mode420 e = mode420 d" "txb e = txb d" "tyb e = tyb d"
      using e by (simp_all only: kept_def geometry_def place_def prod.inject)
    have "\<exists>e'. put_444 (txb d * 8) (tyb d * 8) e (fst rc, snd rc) = Inr e'"
      using put_444_total [OF on_grid_kept [OF e g], of "fst rc" "snd rc"] rc m by (simp add: eq)
    then show "\<exists>e'. put_444 (txb d * 8) (tyb d * 8) e rc = Inr e' \<and> kept d e'"
      using put_444_kept [of _ _ e "fst rc" "snd rc"] kept_trans [OF e] by auto
  qed simp
  then show ?thesis
    unfolding convertYUVtoRGB_def if_P [OF m] by blast
qed


lemma put_420_total:
  assumes g: "on_grid d" and m: "mode420 d \<noteq> 0" and rc: "r < 16" "c < 16"
  shows "\<exists>ic' d'. put_420 (txb d * 16) (tyb d * 16) (ic, d) (r, c) = Inr (ic', d')"
proof -
  define i where "i = (tyb d * 16 * width d + txb d * 16 + int r * realWidth d + int c) * 3"
  have f: "framed d" using g by (simp only: on_grid_def)
  note s = framed_sizes [OF f]
  have q: "0 \<le> txb d" "txb d < width d div 16" "0 \<le> tyb d" "tyb d < height d div 16"
    using g m by (simp_all add: on_grid_def tile_size_def)
  have x: "0 \<le> txb d * 16" "txb d * 16 + 16 \<le> width d" and y: "0 \<le> tyb d * 16" "tyb d * 16 + 16 \<le> height d"
    using tile_room [of 16 "txb d" "width d"] tile_room [of 16 "tyb d" "height d"] q by auto
  have "int r * realWidth d \<le> int r * width d" by (rule mult_left_mono) (use s in auto)
  moreover have "0 \<le> int r * realWidth d" "0 \<le> tyb d * 16 * width d" using s y by simp_all
  moreover have "((tyb d * 16 + int r) * width d + (txb d * 16 + int c)) * 3 + 2 < width d * height d * 3"
    using area_room(2) [of "tyb d * 16 + int r" "height d" "txb d * 16 + int c" "width d" "width d"] x y rc by auto
  moreover have "(tyb d * 16 + int r) * width d = tyb d * 16 * width d + int r * width d" by (rule distrib_right)
  ultimately have "0 \<le> i" "i + 2 < int (length (decodeBuf d))"
    unfolding i_def using x s(7) by auto
  then obtain buf where b: "put3 (decodeBuf d) i v = Inr (buf v)" for v
    using put3_ok by metis
  show ?thesis
    unfolding put_420_def Let_def prod.case i_def [symmetric] by (simp add: b)
qed

lemma convert_420_total:
  assumes g: "on_grid d" and m: "mode420 d \<noteq> 0"
  shows "\<exists>d'. convertYUVtoRGB (txb d) (tyb d) d = Inr d'"
proof -
  let ?cells = "\<lambda>rows. concat (map (\<lambda>r. map (\<lambda>c. (r, c)) [0 ..< 16]) [0 ..< rows])"
  have cells: "rc \<in> set (?cells rows) \<Longrightarrow> fst rc < rows \<and> snd rc < 16" for rc :: "nat \<times> nat" and rows :: nat
    by auto
  have *: "\<exists>icd. go_fold (put_420 (txb d * 16) (tyb d * 16)) (replicate 4 0, d) (?cells rows) = Inr icd \<and> kept d (snd icd)"
    if r: "rows \<le> 16" for rows
  proof (rule go_fold_total)
    fix icd :: "nat list \<times> decoder" and rc
    assume e: "kept d (snd icd)" and rc: "rc \<in> set (?cells rows)"
    have eq: "mode420 (snd icd) = mode420 d" "txb (snd icd) = txb d" "tyb (snd icd) = tyb d"
      using e by (simp_all only: kept_def geometry_def place_def prod.inject)
    have "fst rc < 16" "snd rc < 16" using cells [OF rc] r by auto
    then obtain ic' e' where "put_420 (txb d * 16) (tyb d * 16) (fst icd, snd icd) (fst rc, snd rc) = Inr (ic', e')"
      using put_420_total [OF on_grid_kept [OF e g], of "fst rc" "snd rc" "fst icd"] m by (auto simp: eq)
    with put_420_kept [OF this] kept_trans [OF e]
    show "\<exists>icd'. put_420 (txb d * 16) (tyb d * 16) icd rc = Inr icd' \<and> kept d (snd icd')"
      by auto
  qed simp
  show ?thesis
    unfolding convertYUVtoRGB_def if_not_P [OF m] Let_def
    using * [of 8] * [of 16] by (cases "height d = 608 \<and> tyb d = 37") (auto simp del: upt_conv_Cons)
qed

lemma put_pass2_total:
  assumes "on_grid d" "mode420 d = 0" "(r, c) \<in> set (tile_pixels (realWidth d) (txb d * 8))"
  shows "\<exists>d'. put_pass2 (txb d * 8) (tyb d * 8) d (r, c) = Inr d'"
proof -
  define i where "i = (tyb d * 8 * realWidth d + txb d * 8 + int r * realWidth d + int c) * 3"
  note room = tile_444_room [OF assms, folded i_def]
  have "get_at (prevYUV d) (i + k) = Inr (prevYUV d ! nat (i + k))" if "0 \<le> k" "k \<le> 2" for k
    using that room by (simp add: get_at_def)
  from this [of 0] this [of 1] this [of 2]
  have "get_at (prevYUV d) i = Inr (prevYUV d ! nat i)" "get_at (prevYUV d) (i + 1) = Inr (prevYUV d ! nat (i + 1))"
    "get_at (prevYUV d) (i + 2) = Inr (prevYUV d ! nat (i + 2))" by simp_all
  moreover obtain buf where "put3 (decodeBuf d) i v = Inr (buf v)" for v
    using put3_ok [OF room(1) room(2)] by metis
  ultimately show ?thesis
    unfolding put_pass2_def Let_def prod.case i_def [symmetric] by simp
qed

lemma pass2_total:
  assumes g: "on_grid d"
  shows "\<exists>d'. convertYUVToRGBPass2 (txb d) (tyb d) d = Inr d'"
proof (cases "mode420 d = 0")
  case m: True
  have "\<exists>d'. go_fold (put_pass2 (txb d * 8) (tyb d * 8)) d (tile_pixels (realWidth d) (txb d * 8)) = Inr d' \<and> kept d d'"
  proof (rule go_fold_total)
    fix e rc
    assume e: "kept d e" and rc: "rc \<in> set (tile_pixels (realWidth d) (txb d * 8))"
    have eq: "realWidth e = realWidth d" "mode420 e = mode420 d" "txb e = txb d" "tyb e = tyb d"
      using e by (simp_all only: kept_def geometry_def place_def prod.inject)
    have "\<exists>e'. put_pass2 (txb d * 8) (tyb d * 8) e (fst rc, snd rc) = Inr e'"
      using put_pass2_total [OF on_grid_kept [OF e g], of "fst rc" "snd rc"] rc m by (simp add: eq)
    then show "\<exists>e'. put_pass2 (txb d * 8) (tyb d * 8) e rc = Inr e' \<and> kept d e'"
      using put_pass2_kept [of _ _ e "fst rc" "snd rc"] kept_trans [OF e] by auto
  qed simp
  then show ?thesis
    unfolding convertYUVToRGBPass2_def using m by auto
qed (simp add: convertYUVToRGBPass2_def)

lemma convert_total: "on_grid d \<Longrightarrow> \<exists>d'. convertYUVtoRGB (txb d) (tyb d) d = Inr d'"
  using convert_444_total convert_420_total by blast

section \<open>A macro block of the grid\<close>

definition skip_code :: "decoder \<Rightarrow> bool" where
  "skip_code d = (unat (drop_bit 28 (recv d ! 0) AND 15) \<in> {8, 10, 12, 13, 14, 15})"

text \<open>\<open>ready d n\<close>: the reader can take at least \<open>n\<close> more words.\<close>

definition ready :: "decoder \<Rightarrow> nat \<Rightarrow> bool" where
  "ready d n = (0 \<le> index d \<and> index d + int n \<le> int (length (recv d)))"

lemma updateReadBuf_ready:
  assumes "ready d (Suc n)"
  shows "\<exists>d'. updateReadBuf d i = Inr d' \<and> kept d d' \<and> ready d' n"
proof -
  have "0 \<le> index d" "index d < int (length (recv d))" using assms by (auto simp: ready_def)
  then have "\<exists>d'. updateReadBuf d i = Inr d'"
    by (simp add: updateReadBuf_def get_at_def Let_def)
  then obtain d' where d': "updateReadBuf d i = Inr d'" ..
  then have "ready d' n"
    using assms by (auto simp: updateReadBuf_def get_at_def Let_def ready_def split: if_splits)
  with d' updateReadBuf_keeps [OF d'] show ?thesis by (auto simp: kept_def)
qed

lemma vq_slot_ready:
  assumes "ready d (Suc n)"
  shows "\<exists>d'. vq_slot d i = Inr d' \<and> kept d d' \<and> ready d' n"
proof -
  have "ready (d\<lparr>Index := a\<rparr>) (Suc n)" "ready (d\<lparr>Index := a, Color := b\<rparr>) (Suc n)" for a b
    using assms by (simp_all add: ready_def)
  note u = updateReadBuf_ready [OF this(1)] updateReadBuf_ready [OF this(2)]
  show ?thesis
  proof (cases "drop_bit 31 (recv d ! 0) AND 1 = 0")
    case True
    from u(1) [of "(Index d)[i := unat (drop_bit 29 (recv d ! 0) AND 3)]" 3] show ?thesis
      by (auto simp: vq_slot_def Let_def True kept_def)
  next
    case False
    let ?k = "unat (drop_bit 29 (recv d ! 0) AND 3)"
    from u(2) [of "(Color d)[?k := drop_bit 5 (recv d ! 0) AND 0x00FFFFFF]" "(Index d)[i := ?k]" 27] show ?thesis
      by (auto simp: vq_slot_def Let_def False kept_def)
  qed
qed

lemma vq_slots_ready:
  "ready d (length is + n) \<Longrightarrow> \<exists>d'. go_fold vq_slot d is = Inr d' \<and> kept d d' \<and> ready d' n"
proof (induction "is" arbitrary: d)
  case (Cons i "is")
  then obtain e where e: "vq_slot d i = Inr e" "kept d e" "ready e (length is + n)"
    using vq_slot_ready [of d "length is + n" i] by auto
  with Cons.IH [OF e(3)] show ?case by (auto intro: kept_trans)
qed simp

lemma readVQHeader_ready:
  assumes "ready d slots"
  shows "\<exists>d'. readVQHeader b slots d = Inr d' \<and> kept d d'"
proof -
  have "ready (d\<lparr>BitMapBits := b\<rparr>) (length [0 ..< slots] + 0)"
    using assms by (simp add: ready_def)
  from vq_slots_ready [OF this] show ?thesis
    by (auto simp: readVQHeader_def kept_def)
qed

lemma kept_pre:
  "kept d e \<Longrightarrow> on_grid d \<Longrightarrow> \<exists>d'. convertYUVtoRGB (txb d) (tyb d) e = Inr d' \<and> on_grid d'"
proof -
  assume k: "kept d e" and g: "on_grid d"
  have e: "txb d = txb e" "tyb d = tyb e" using k by (simp_all only: kept_def place_def prod.inject)
  from convert_total [OF on_grid_kept [OF k g]] obtain d' where d': "convertYUVtoRGB (txb e) (tyb e) e = Inr d'" ..
  with convertYUVtoRGB_kept [OF this] on_grid_kept [OF _ on_grid_kept [OF k g]] show ?thesis
    by (auto simp only: e)
qed

lemma planes_kept:
  "kept d (decode_Y o1 b d)" "kept d (decode_Cb o1 b d)" "kept d (decode_Cr o1 b d)"
  by (simp_all add: kept_def)

lemma decompressJPEG_total: "on_grid d \<Longrightarrow> \<exists>d'. decompressJPEG (txb d) (tyb d) b d = Inr d' \<and> on_grid d'"
  unfolding decompressJPEG_def Let_def
  by (rule kept_pre) (simp_all add: kept_def)

lemma decompressPass2_total: "on_grid d \<Longrightarrow> \<exists>d'. decompressJPEGPass2 (txb d) (tyb d) b d = Inr d' \<and> on_grid d'"
proof -
  assume g: "on_grid d"
  let ?e = "decode_Cr 128 (b + 1) (decode_Cb 64 (b + 1) (decode_Y 0 b d))"
  have k: "kept d ?e" by (simp add: kept_def)
  then have e: "txb d = txb ?e" "tyb d = tyb ?e" by (simp_all only: kept_def place_def prod.inject)
  from pass2_total [OF on_grid_kept [OF k g]] obtain d' where
    d': "convertYUVToRGBPass2 (txb ?e) (tyb ?e) ?e = Inr d'" ..
  with pass2_kept [OF this] on_grid_kept [OF _ on_grid_kept [OF k g]] show ?thesis
    unfolding decompressJPEGPass2_def using e by metis
qed

lemma decompressVQ_total: "on_grid d \<Longrightarrow> \<exists>d'. decompressVQ (txb d) (tyb d) d = Inr d' \<and> on_grid d'"
  unfolding decompressVQ_def Let_def
  by (rule kept_pre)
    (auto simp: kept_def foldl_keeps [of "\<lambda>d idx. vq_write idx c d" for c] foldl_keeps [of vq_pixel] simp del: upt_conv_Cons)

lemma read_vq_ready:
  assumes "on_grid d" "ready d slots"
  shows "\<exists>d'. read_vq b slots d = Inr d' \<and> on_grid d'"
proof -
  obtain e where e: "readVQHeader b slots d = Inr e" "kept d e"
    using readVQHeader_ready [OF assms(2)] by blast
  with decompressVQ_total [OF on_grid_kept [OF e(2) assms(1)]] show ?thesis
    by (simp add: read_vq_def)
qed

lemma ready_mono: "ready d n \<Longrightarrow> m \<le> n \<Longrightarrow> ready d m"
  by (simp add: ready_def)

lemma decode_tile_total:
  assumes "on_grid d" "ready d 4"
  shows "\<exists>d'. decode_tile code d = Inr d' \<and> on_grid d'"
  using decompressJPEG_total [OF assms(1)] decompressPass2_total [OF assms(1)]
    read_vq_ready [OF assms(1) ready_mono [OF assms(2)]]
  by (simp add: decode_tile_def)

lemma read_tile_total:
  assumes "on_grid d" "ready d 5"
  shows "\<exists>d'. go_bind (updateReadBuf d n) (\<lambda>d. go_bind (decode_tile k d) (\<lambda>d. Inr (Some (moveBlockIndex d)))) = Inr (Some d')
     \<and> on_grid d'"
proof -
  have "ready d (Suc 4)" using assms by simp
  then obtain e where e: "updateReadBuf d n = Inr e" "kept d e" "ready e 4"
    using updateReadBuf_ready by blast
  then obtain t where "decode_tile k e = Inr t" "on_grid t"
    using decode_tile_total [OF on_grid_kept [OF e(2) assms(1)]] by blast
  with e show ?thesis by (simp add: move_stays)
qed

text \<open>C21. On the tile grid decoding is safe. Let the placement counters point at a tile of the grid of a
  frame in one of the two chroma modes, and let five words of the stream be unread. If the block at
  hand carries a position, let that position be on the grid as well. Then the block does not panic:
  it ends the frame, or its bits are read, all its pixels land inside the picture buffer and the
  buffer of the previous picture, and the counters point at a tile of the grid again.\<close>

theorem block_stays_on_grid:
  assumes "on_grid d" "ready d 5" "skip_code d \<longrightarrow> on_grid (readSkipPosition d)"
  shows "decode_block d = Inr None \<or> (\<exists>d'. decode_block d = Inr (Some d') \<and> on_grid d')"
proof -
  let ?c = "unat (drop_bit 28 (recv d ! 0) AND 15)"
  consider "?c = 9" | "?c \<noteq> 9" "?c \<in> {0, 2, 4, 5, 6, 7}"
    | "?c \<noteq> 9" "?c \<notin> {0, 2, 4, 5, 6, 7}" "?c \<in> {8, 10, 12, 13, 14, 15}"
    | "?c \<noteq> 9" "?c \<notin> {0, 2, 4, 5, 6, 7}" "?c \<notin> {8, 10, 12, 13, 14, 15}" by blast
  then show ?thesis
  proof cases
    case 1
    then show ?thesis by (simp add: decode_block_def)
  next
    case 2
    then show ?thesis
      unfolding decode_block_def Let_def if_not_P [OF 2(1)] if_P [OF 2(2)]
      using read_tile_total [OF assms(1,2)] by blast
  next
    case 3
    then have "on_grid (readSkipPosition d)" using assms(3) by (simp add: skip_code_def)
    moreover have "ready (readSkipPosition d) 5" using assms(2) by (simp add: ready_def readSkipPosition_def)
    ultimately show ?thesis
      unfolding decode_block_def Let_def if_not_P [OF 3(1)] if_not_P [OF 3(2)] if_P [OF 3(3)]
      using read_tile_total by blast
  next
    case 4
    have "ready d (Suc 4)" using assms by simp
    then obtain e where "updateReadBuf d 3 = Inr e" "kept d e"
      using updateReadBuf_ready by blast
    moreover from this have "on_grid (moveBlockIndex e)"
      using move_stays on_grid_kept assms(1) by blast
    ultimately show ?thesis
      unfolding decode_block_def Let_def if_not_P [OF 4(1)] if_not_P [OF 4(2)] if_not_P [OF 4(3)]
      by simp
  qed
qed


text \<open>An 8 by 8 picture in 4:4:4 with a one-colour tile next.\<close>

definition tile_decoder :: decoder where
  "tile_decoder =
     newDecoder\<lparr>width := 8, height := 8, realWidth := 8, realH := 8, tmpWidthBy16 := 8, tmpHeightBy16 := 8,
       mode420 := 0, bufStride := 8, bufAlloc := 192, decodeBuf := replicate 192 0, prevYUV := replicate 192 0,
       recv := 0x50000000 # replicate 7 0, index := 2, newbits := 32\<rparr>"

lemma decode_block_end: "decode_block d = Inr None \<Longrightarrow> unat (drop_bit 28 (recv d ! 0) AND 15) = 9"
proof (rule ccontr)
  assume e: "decode_block d = Inr None" and c: "unat (drop_bit 28 (recv d ! 0) AND 15) \<noteq> 9"
  from e show False
    unfolding decode_block_def Let_def if_not_P [OF c] by (simp add: go_bind_Inr split: if_splits)
qed

theorem block_stays_on_grid_witness:
  "\<exists>d'. decode_block tile_decoder = Inr (Some d') \<and> on_grid d'"
proof -
  have "on_grid tile_decoder"
    by (simp add: on_grid_def framed_def decoder_ok_def roundUp_def maxResolution_def tile_size_def
        tile_decoder_def newDecoder_def)
  moreover have "ready tile_decoder 5" by (simp add: ready_def tile_decoder_def)
  moreover have "unat (drop_bit 28 (recv tile_decoder ! 0) AND 15) = 5" by (simp add: tile_decoder_def)
  ultimately show ?thesis
    using block_stays_on_grid [of tile_decoder] decode_block_end [of tile_decoder]
    by (auto simp: skip_code_def)
qed

end
