(* ===== verification/Machine.thy ===== *)
theory Machine
  imports Main
begin

text \<open>
  Components whose state is shared by goroutines are machines: a step takes a state and an event and is
  \<^const>\<open>None\<close> where the event cannot happen. The states such a machine can reach, its runs, and the
  rule by which all invariants are proved.
\<close>

inductive reach :: "('s \<Rightarrow> 'e \<Rightarrow> 's option) \<Rightarrow> 's \<Rightarrow> 's \<Rightarrow> bool" for step init where
  reach_init: "reach step init init"
| reach_step: "reach step init s \<Longrightarrow> step s e = Some s' \<Longrightarrow> reach step init s'"

fun run_steps :: "('s \<Rightarrow> 'e \<Rightarrow> 's option) \<Rightarrow> 's \<Rightarrow> 'e list \<Rightarrow> 's option" where
  "run_steps step s [] = Some s"
| "run_steps step s (e # es) = (case step s e of None \<Rightarrow> None | Some s' \<Rightarrow> run_steps step s' es)"

lemma run_steps_Cons:
  assumes "run_steps step s (e # es) = Some s'"
  obtains s1 where "step s e = Some s1" "run_steps step s1 es = Some s'"
  using assms by (auto split: option.splits)

lemma run_steps_append:
  "run_steps step s (es @ fs) = (case run_steps step s es of None \<Rightarrow> None | Some s' \<Rightarrow> run_steps step s' fs)"
  by (induction es arbitrary: s) (auto split: option.splits)

lemma run_steps_keeps:
  assumes "\<And>s e s'. I s \<Longrightarrow> step s e = Some s' \<Longrightarrow> I s'"
  shows "I s \<Longrightarrow> run_steps step s es = Some s' \<Longrightarrow> I s'"
proof (induction es arbitrary: s)
  case (Cons e es)
  from Cons.prems(2) obtain s1 where "step s e = Some s1" "run_steps step s1 es = Some s'" by (rule run_steps_Cons)
  with Cons.IH assms [OF Cons.prems(1)] show ?case by blast
qed simp

lemma reach_run: "reach step init s \<Longrightarrow> run_steps step s es = Some s' \<Longrightarrow> reach step init s'"
  by (rule run_steps_keeps) (auto intro: reach_step)

lemmas reach_from_init = reach_run [OF reach_init]

lemma reach_iff_run: "reach step init s \<longleftrightarrow> (\<exists>es. run_steps step init es = Some s)"
proof
  show "\<exists>es. run_steps step init es = Some s" if "reach step init s"
    using that
  proof (induction rule: reach.induct)
    case reach_init
    show ?case by (rule exI [of _ "[]"]) simp
  next
    case (reach_step s e s')
    then obtain es where "run_steps step init es = Some s" by blast
    with reach_step(2) have "run_steps step init (es @ [e]) = Some s'" by (simp add: run_steps_append)
    then show ?case by blast
  qed
qed (auto intro: reach_from_init)

text \<open>The contract of an invariant: it holds at the start and every step keeps it.\<close>

locale machine =
  fixes step :: "'s \<Rightarrow> 'e \<Rightarrow> 's option" and init :: 's and inv :: "'s \<Rightarrow> bool"
  assumes inv_init: "inv init"
    and inv_step: "inv s \<Longrightarrow> step s e = Some s' \<Longrightarrow> inv s'"
begin

lemma reachable: "reach step init s \<Longrightarrow> inv s"
  by (induction rule: reach.induct) (blast intro: inv_init inv_step)+

lemma run_keeps: "inv s \<Longrightarrow> run_steps step s es = Some s' \<Longrightarrow> inv s'"
  by (rule run_steps_keeps [OF inv_step])

end

end
