(* ===== verification/ControlLink.thy ===== *)
theory ControlLink
  imports Prelude Machine
begin

text \<open>
  The binary plane of the control WebSocket (\<^verbatim>\<open>internal/webui/control.go\<close>): requests for sectors that
  the bridge sends to the browser, and the answers. Mounts run in goroutines of their own, so calls
  of \<^verbatim>\<open>request\<close> interleave with each other and with the read loop; the connection is a state with one
  step per atomic action, and any sequence of enabled steps is a run.

  The browser's half is its handler in \<^verbatim>\<open>assets/js/control-socket.js\<close>. Registering a call (its id and
  the entry in the table of pending calls) is one step, as no message can name an id before its frame
  is sent. Go's select takes any branch that is ready.
\<close>

section \<open>Messages\<close>

definition opRead :: u8 where "opRead = 0"
definition opWrite :: u8 where "opWrite = 1"
definition devCD :: u8 where "devCD = 0"
definition devFD :: u8 where "devFD = 1"
definition devHD :: u8 where "devHD = 2"

definition kindToDev :: "string \<Rightarrow> u8" where
  "kindToDev kind = (if kind = ''cd'' then devCD else if kind = ''fd'' then devFD else devHD)"

record vm_resp =
  rs_status :: u8
  rs_data :: bytes

definition request_frame :: "u8 \<Rightarrow> u8 \<Rightarrow> u32 \<Rightarrow> u64 \<Rightarrow> u32 \<Rightarrow> bytes \<Rightarrow> bytes" where
  "request_frame op dev rid off len data =
     (let f = replicate (18 + length data) 0;
          f = f[0 := op, 1 := dev];
          f = blit 2 (be32 rid) f;
          f = blit 6 (be64 off) f;
          f = blit 14 (be32 len) f
      in blit 18 data f)"

definition parse_response :: "bytes \<Rightarrow> (u32 \<times> vm_resp) option" where
  "parse_response b =
     (if length b < 5 then None
      else Some (get_be32 b 0, \<lparr>rs_status = b ! 4, rs_data = if 5 < length b then drop 5 b else []\<rparr>))"

text \<open>
  The browser's side (\<^verbatim>\<open>assets/js/control-socket.js\<close>): a picked file per device, which it only reads.
\<close>

definition status_reply :: "u32 \<Rightarrow> u8 \<Rightarrow> bytes" where
  "status_reply rid st = be32 rid @ [st]"

definition browser_answer :: "(u8 \<Rightarrow> bytes option) \<Rightarrow> bytes \<Rightarrow> bytes" where
  "browser_answer files b =
     (let op = b ! 0; dev = b ! 1; rid = get_be32 b 2;
          off = unat (get_be64 b 6);
          len = unat (get_be32 b 14)
      in case files dev of
           None \<Rightarrow> status_reply rid 1
         | Some content \<Rightarrow>
             if op \<noteq> opRead then status_reply rid 1
             else status_reply rid 0 @ take len (drop off content))"

lemma blit_middle: "length xs = off \<Longrightarrow> length src = length ys \<Longrightarrow> blit off src (xs @ ys @ zs) = xs @ src @ zs"
  by (simp add: blit_def)

lemma request_frame_layout:
  "request_frame op dev rid off len data = [op, dev] @ be32 rid @ be64 off @ be32 len @ data"
proof -
  let ?z = "\<lambda>n. replicate n (0 :: u8)"
  have "(?z (18 + length data))[0 := op, 1 := dev] = [op, dev] @ ?z 4 @ ?z 8 @ ?z 4 @ ?z (length data)"
    by (simp add: replicate_add numeral_eq_Suc)
  moreover have "blit 2 (be32 rid) ([op, dev] @ ?z 4 @ ?z 8 @ ?z 4 @ ?z (length data))
      = [op, dev] @ be32 rid @ ?z 8 @ ?z 4 @ ?z (length data)"
    by (rule blit_middle) (simp_all add: wire_simps)
  moreover have "blit 6 (be64 off) (([op, dev] @ be32 rid) @ ?z 8 @ ?z 4 @ ?z (length data))
      = ([op, dev] @ be32 rid) @ be64 off @ ?z 4 @ ?z (length data)"
    by (rule blit_middle) (simp_all add: wire_simps)
  moreover have "blit 14 (be32 len) (([op, dev] @ be32 rid @ be64 off) @ ?z 4 @ ?z (length data))
      = ([op, dev] @ be32 rid @ be64 off) @ be32 len @ ?z (length data)"
    by (rule blit_middle) (simp_all add: wire_simps)
  moreover have "blit 18 data (([op, dev] @ be32 rid @ be64 off @ be32 len) @ ?z (length data) @ [])
      = ([op, dev] @ be32 rid @ be64 off @ be32 len) @ data @ []"
    by (rule blit_middle) (simp_all add: wire_simps)
  ultimately show ?thesis by (simp only: request_frame_def Let_def append_assoc append_Nil2)
qed

lemma request_frame_fields:
  fixes op dev rid off len data
  defines "f \<equiv> request_frame op dev rid off len data"
  shows "f ! 0 = op" "f ! 1 = dev" "get_be32 f 2 = rid" "get_be32 f 14 = len"
    "get_be64 f 6 = off" "drop 18 f = data"
proof -
  have g: "get_be32 f 6 = ucast (drop_bit 32 off)" "get_be32 f 10 = ucast off"
    by (simp_all add: f_def request_frame_layout wire_simps be64_def)
  show "f ! 0 = op" "f ! 1 = dev" "get_be32 f 2 = rid" "get_be32 f 14 = len" "drop 18 f = data"
    by (simp_all add: f_def request_frame_layout wire_simps)
  have "push_bit 32 (ucast (ucast (drop_bit 32 off) :: u32)) OR ucast (ucast off :: u32) = off"
    by (rule bit_word_eqI) (auto simp: bit_simps)
  then show "get_be64 f 6 = off" by (simp add: get_be64_def g)
qed

text \<open>What the browser answers to a request, as the bridge reads it.\<close>

lemma browser_answer_read:
  "parse_response (browser_answer files (request_frame opRead dev rid off len []))
     = Some (rid, case files dev of None \<Rightarrow> \<lparr>rs_status = 1, rs_data = []\<rparr>
         | Some content \<Rightarrow> \<lparr>rs_status = 0, rs_data = take (unat len) (drop (unat off) content)\<rparr>)"
  unfolding browser_answer_def Let_def request_frame_fields
  by (auto simp: parse_response_def status_reply_def wire_simps nth_append split: option.split)

lemma browser_answer_write:
  "parse_response (browser_answer files (request_frame opWrite dev rid off len data))
     = Some (rid, \<lparr>rs_status = 1, rs_data = []\<rparr>)"
  unfolding browser_answer_def Let_def request_frame_fields
  by (auto simp: parse_response_def status_reply_def wire_simps nth_append opRead_def opWrite_def split: option.split)

section \<open>Requests in flight\<close>

text \<open>
  How a call of \<^verbatim>\<open>request\<close> stands: its channel registered, its frame written and the call waiting, one
  branch of the select taken, or returned (the deferred deletion done).
\<close>

datatype req_error = WriteError nat | ContextErr | BrowserTimedOut

datatype req_phase = Registered | Waiting | Selected "req_error + vm_resp" | Returned "req_error + vm_resp"

text \<open>\<open>q_since\<close> is the number of messages received before the call; no operation reads it.\<close>

record browser_request =
  q_id :: u32
  q_frame :: bytes
  q_chan :: "vm_resp option"
  q_phase :: req_phase
  q_since :: nat

text \<open>
  The data plane of a \<^verbatim>\<open>controlConn\<close>. Channels are the positions of \<open>calls\<close>; \<open>stuck\<close> is the send
  the read loop blocks in. \<open>written\<close> and \<open>arrived\<close> are what the socket has carried.
\<close>

record conn =
  nextID :: u32
  calls :: "browser_request list"
  pending :: "u32 \<Rightarrow> nat option"
  stuck :: "(nat \<times> vm_resp) option"
  ended :: bool
  written :: "bytes list"
  arrived :: "bytes list"

definition new_conn :: conn where
  "new_conn = \<lparr>nextID = 0, calls = [], pending = (\<lambda>_. None), stuck = None, ended = False, written = [], arrived = []\<rparr>"

definition request_begin :: "u8 \<Rightarrow> u8 \<Rightarrow> u64 \<Rightarrow> u32 \<Rightarrow> bytes \<Rightarrow> conn \<Rightarrow> conn" where
  "request_begin op dev off len data c =
     (let rid = nextID c + 1
      in c\<lparr>nextID := rid,
           calls := calls c @ [\<lparr>q_id = rid, q_frame = request_frame op dev rid off len data, q_chan = None,
                                q_phase = Registered, q_since = length (arrived c)\<rparr>],
           pending := (pending c)(rid := Some (length (calls c)))\<rparr>)"

definition set_call :: "nat \<Rightarrow> browser_request \<Rightarrow> conn \<Rightarrow> conn" where
  "set_call k q c = c\<lparr>calls := (calls c)[k := q]\<rparr>"

definition handleBinaryResponse :: "bytes \<Rightarrow> conn \<Rightarrow> conn" where
  "handleBinaryResponse b c =
     (case parse_response b of
        None \<Rightarrow> c
      | Some (rid, r) \<Rightarrow>
          (case pending c rid of
             None \<Rightarrow> c
           | Some k \<Rightarrow>
               if q_chan (calls c ! k) = None then set_call k ((calls c ! k)\<lparr>q_chan := Some r\<rparr>) c
               else c\<lparr>stuck := Some (k, r)\<rparr>))"

text \<open>
  What can happen next, to call \<open>k\<close> or to the connection. The select takes any branch that is ready.
  A step that is not enabled is \<^const>\<open>None\<close>; the read loop takes no message while it blocks.
\<close>

datatype conn_event =
    Begin u8 u8 u64 u32 bytes
  | WriteBinary nat "nat option"
  | Arrive bytes
  | Unblock
  | TakeResponse nat
  | TimerFires nat
  | SeeDone nat
  | Finish nat
  | EndContext

definition call_step :: "nat \<Rightarrow> (browser_request \<Rightarrow> browser_request option) \<Rightarrow> conn \<Rightarrow> conn option" where
  "call_step k f c =
     (if k < length (calls c) then map_option (\<lambda>q. set_call k q c) (f (calls c ! k)) else None)"

definition write_binary :: "nat option \<Rightarrow> browser_request \<Rightarrow> browser_request option" where
  "write_binary fault q =
     (if q_phase q = Registered
      then Some (q\<lparr>q_phase := (case fault of None \<Rightarrow> Waiting | Some e \<Rightarrow> Selected (Inl (WriteError e)))\<rparr>) else None)"

definition give_up :: "req_error \<Rightarrow> browser_request \<Rightarrow> browser_request option" where
  "give_up e q = (if q_phase q = Waiting then Some (q\<lparr>q_phase := Selected (Inl e)\<rparr>) else None)"

definition take_response :: "browser_request \<Rightarrow> browser_request option" where
  "take_response q =
     (case q_chan q of
        None \<Rightarrow> None
      | Some r \<Rightarrow> if q_phase q = Waiting then Some (q\<lparr>q_chan := None, q_phase := Selected (Inr r)\<rparr>) else None)"

definition finish :: "browser_request \<Rightarrow> browser_request option" where
  "finish q = (case q_phase q of Selected r \<Rightarrow> Some (q\<lparr>q_phase := Returned r\<rparr>) | _ \<Rightarrow> None)"

fun conn_step :: "conn \<Rightarrow> conn_event \<Rightarrow> conn option" where
  "conn_step c (Begin op dev off len data) = Some (request_begin op dev off len data c)"
| "conn_step c (WriteBinary k fault) =
     map_option (\<lambda>c'. if fault = None then c'\<lparr>written := written c @ [q_frame (calls c ! k)]\<rparr> else c')
       (call_step k (write_binary fault) c)"
| "conn_step c (Arrive b) =
     (if stuck c = None then Some ((handleBinaryResponse b c)\<lparr>arrived := arrived c @ [b]\<rparr>) else None)"
| "conn_step c Unblock =
     (case stuck c of
        None \<Rightarrow> None
      | Some (k, r) \<Rightarrow>
          if q_chan (calls c ! k) = None
          then Some (set_call k ((calls c ! k)\<lparr>q_chan := Some r\<rparr>) (c\<lparr>stuck := None\<rparr>)) else None)"
| "conn_step c (TakeResponse k) = call_step k take_response c"
| "conn_step c (TimerFires k) = call_step k (give_up BrowserTimedOut) c"
| "conn_step c (SeeDone k) = (if ended c then call_step k (give_up ContextErr) c else None)"
| "conn_step c (Finish k) =
     map_option (\<lambda>c'. c'\<lparr>pending := (pending c')(q_id (calls c ! k) := None)\<rparr>) (call_step k finish c)"
| "conn_step c EndContext = Some (c\<lparr>ended := True\<rparr>)"

abbreviation conn_run :: "conn \<Rightarrow> conn_event list \<Rightarrow> conn option" where
  "conn_run \<equiv> run_steps conn_step"

abbreviation connected :: "conn \<Rightarrow> bool" where
  "connected \<equiv> reach conn_step new_conn"

section \<open>Every response reaches the call it answers\<close>

text \<open>\<open>answers c q r\<close>: a message received since the call began carries its id and this response.\<close>

definition answers :: "conn \<Rightarrow> browser_request \<Rightarrow> vm_resp \<Rightarrow> bool" where
  "answers c q r = (\<exists>i. q_since q \<le> i \<and> i < length (arrived c) \<and> parse_response (arrived c ! i) = Some (q_id q, r))"

definition call_ok :: "conn \<Rightarrow> browser_request \<Rightarrow> bool" where
  "call_ok c q =
     (q_since q \<le> length (arrived c)
      \<and> (\<forall>r. q_chan q = Some r \<longrightarrow> answers c q r)
      \<and> (\<forall>r. q_phase q = Selected (Inr r) \<or> q_phase q = Returned (Inr r) \<longrightarrow> answers c q r))"

text \<open>Two messages with the id of one call.\<close>

definition answered_twice :: "conn \<Rightarrow> browser_request \<Rightarrow> bool" where
  "answered_twice c q =
     (\<exists>i j r r'. i < j \<and> j < length (arrived c)
        \<and> parse_response (arrived c ! i) = Some (q_id q, r) \<and> parse_response (arrived c ! j) = Some (q_id q, r'))"

definition conn_ok :: "conn \<Rightarrow> bool" where
  "conn_ok c =
     (list_all (call_ok c) (calls c)
      \<and> (\<forall>rid k. pending c rid = Some k \<longrightarrow> k < length (calls c) \<and> q_id (calls c ! k) = rid)
      \<and> (\<forall>k r. stuck c = Some (k, r) \<longrightarrow> k < length (calls c) \<and> answers c (calls c ! k) r \<and> answered_twice c (calls c ! k)))"

definition ids_ok :: "conn \<Rightarrow> bool" where
  "ids_ok c = (nextID c = of_nat (length (calls c)) \<and> (\<forall>k < length (calls c). q_id (calls c ! k) = of_nat (Suc k)))"

lemma same_arrived:
  assumes "arrived c' = arrived c"
  shows "answers c' = answers c" "call_ok c' = call_ok c" "answered_twice c' = answered_twice c"
  using assms by (auto simp: fun_eq_iff answers_def call_ok_def answered_twice_def)

lemma answers_more: "answers c q r \<Longrightarrow> arrived c' = arrived c @ [b] \<Longrightarrow> answers c' q r"
  unfolding answers_def by (metis length_append_singleton less_Suc_eq nth_append)

lemma call_ok_more: "call_ok c q \<Longrightarrow> arrived c' = arrived c @ [b] \<Longrightarrow> call_ok c' q"
  using answers_more [of c q _ c' b] by (auto simp: call_ok_def)

lemma twice_more: "answered_twice c q \<Longrightarrow> arrived c' = arrived c @ [b] \<Longrightarrow> answered_twice c' q"
  unfolding answered_twice_def by (elim exE conjE) (intro exI conjI, assumption, simp_all add: nth_append)

text \<open>The fields of a call that its steps keep.\<close>

lemma conn_okD:
  assumes "conn_ok c"
  shows "k < length (calls c) \<Longrightarrow> call_ok c (calls c ! k)"
    "pending c rid = Some k \<Longrightarrow> k < length (calls c) \<and> q_id (calls c ! k) = rid"
    "stuck c = Some (k, r) \<Longrightarrow> k < length (calls c) \<and> answers c (calls c ! k) r \<and> answered_twice c (calls c ! k)"
  using assms by (auto simp: conn_ok_def list_all_length)

text \<open>Replacing a call by one with the same id keeps the connection in order.\<close>

lemma set_call_ok:
  assumes ok: "conn_ok c" and k: "k < length (calls c)"
    and q: "call_ok c q" "q_id q = q_id (calls c ! k)" "q_since q = q_since (calls c ! k)"
  shows "conn_ok (set_call k q c)"
proof -
  have a: "arrived (set_call k q c) = arrived c" by (simp add: set_call_def)
  have eq: "answers c q r = answers c (calls c ! k) r" "answered_twice c q = answered_twice c (calls c ! k)" for r
    using q by (simp_all add: answers_def answered_twice_def)
  show ?thesis
    using ok q k conn_okD [OF ok] unfolding conn_ok_def same_arrived [OF a]
    by (auto simp: set_call_def list_all_length nth_list_update eq)
qed

lemma call_step_ok:
  assumes ok: "conn_ok c" and s: "call_step k f c = Some c'"
    and f: "\<And>q q'. call_ok c q \<Longrightarrow> f q = Some q' \<Longrightarrow> call_ok c q' \<and> q_id q' = q_id q \<and> q_since q' = q_since q"
  shows "conn_ok c'"
proof -
  from s obtain q where q: "k < length (calls c)" "f (calls c ! k) = Some q" "c' = set_call k q c"
    by (auto simp: call_step_def split: if_splits)
  with f [OF conn_okD(1) [OF ok q(1)] q(2)] show ?thesis
    by (simp add: set_call_ok [OF ok q(1)])
qed

lemma call_changes_ok:
  "call_ok c q \<Longrightarrow> write_binary fault q = Some q' \<Longrightarrow> call_ok c q' \<and> q_id q' = q_id q \<and> q_since q' = q_since q"
  "call_ok c q \<Longrightarrow> give_up e q = Some q' \<Longrightarrow> call_ok c q' \<and> q_id q' = q_id q \<and> q_since q' = q_since q"
  "call_ok c q \<Longrightarrow> take_response q = Some q' \<Longrightarrow> call_ok c q' \<and> q_id q' = q_id q \<and> q_since q' = q_since q"
  "call_ok c q \<Longrightarrow> finish q = Some q' \<Longrightarrow> call_ok c q' \<and> q_id q' = q_id q \<and> q_since q' = q_since q"
  by (auto simp: write_binary_def give_up_def take_response_def finish_def call_ok_def answers_def
      split: if_splits option.splits req_phase.splits)


lemma new_call_ok: "call_ok c \<lparr>q_id = rid, q_frame = f, q_chan = None, q_phase = Registered, q_since = length (arrived c)\<rparr>"
  by (simp add: call_ok_def)

lemma arrive_ok:
  assumes ok: "conn_ok c" and s: "stuck c = None"
  shows "conn_ok ((handleBinaryResponse b c)\<lparr>arrived := arrived c @ [b]\<rparr>)"
proof -
  let ?c = "c\<lparr>arrived := arrived c @ [b]\<rparr>"
  have more: "arrived ?c = arrived c @ [b]" by simp
  have base: "conn_ok ?c"
    using ok s conn_okD(1) [OF ok] call_ok_more [OF _ more] by (auto simp: conn_ok_def list_all_length)
  show ?thesis
  proof (cases "parse_response b")
    case (Some x)
    obtain rid r where x: "x = (rid, r)" by force
    show ?thesis
    proof (cases "pending c rid")
      case (Some k)
      note k = conn_okD(2) [OF ok Some]
      have since: "q_since (calls c ! k) \<le> length (arrived c)"
        using conn_okD(1) [OF ok, of k] k by (simp add: call_ok_def)
      then have ans: "answers ?c (calls c ! k) r"
        using \<open>parse_response b = Some x\<close> x k by (auto simp: answers_def nth_append intro!: exI [of _ "length (arrived c)"])
      show ?thesis
      proof (cases "q_chan (calls c ! k)")
        case None
        let ?q = "(calls c ! k)\<lparr>q_chan := Some r\<rparr>"
        have "call_ok ?c ?q"
          using conn_okD(1) [OF base, of k] ans k by (auto simp: call_ok_def answers_def)
        then have "conn_ok (set_call k ?q ?c)"
          using set_call_ok [OF base, of k ?q] k by simp
        moreover have "set_call k ?q ?c = (set_call k ?q c)\<lparr>arrived := arrived c @ [b]\<rparr>"
          by (simp add: set_call_def)
        ultimately show ?thesis
          using Some None \<open>parse_response b = Some x\<close> x by (simp add: handleBinaryResponse_def)
      next
        case (Some r')
        then obtain i where i: "i < length (arrived c)" "parse_response (arrived c ! i) = Some (rid, r')"
          using conn_okD(1) [OF ok, of k] k by (auto simp: call_ok_def answers_def)
        have "answered_twice ?c (calls c ! k)"
          unfolding answered_twice_def
          using i k \<open>parse_response b = Some x\<close> x
          by (intro exI [of _ i] exI [of _ "length (arrived c)"] exI [of _ r'] exI [of _ r]) (simp add: nth_append)
        with base ans k Some \<open>pending c rid = Some k\<close> \<open>parse_response b = Some x\<close> x show ?thesis
          by (simp add: handleBinaryResponse_def conn_ok_def same_arrived [of "c\<lparr>stuck := Some (k, r), arrived := arrived c @ [b]\<rparr>" ?c])
      qed
    qed (use base Some x in \<open>simp add: handleBinaryResponse_def\<close>)
  qed (use base in \<open>simp add: handleBinaryResponse_def\<close>)
qed

lemma conn_step_ok: "conn_ok c \<Longrightarrow> conn_step c e = Some c' \<Longrightarrow> conn_ok c'"
proof (cases e)
  case (Begin op dev off len data)
  assume ok: "conn_ok c" and s: "conn_step c e = Some c'"
  let ?q = "\<lparr>q_id = nextID c + 1, q_frame = request_frame op dev (nextID c + 1) off len data, q_chan = None,
    q_phase = Registered, q_since = length (arrived c)\<rparr>"
  have c': "c' = request_begin op dev off len data c" using s Begin by simp
  then have a: "arrived c' = arrived c" by (simp add: request_begin_def Let_def)
  have nth: "k < length (calls c) \<Longrightarrow> (calls c @ [?q]) ! k = calls c ! k" for k by (simp add: nth_append)
  show ?thesis
    using conn_okD [OF ok] new_call_ok [of c "nextID c + 1"] unfolding conn_ok_def same_arrived [OF a]
    by (auto simp: c' request_begin_def Let_def list_all_length nth_append less_Suc_eq split: if_splits)
next
  case (WriteBinary k fault)
  assume ok: "conn_ok c" and s: "conn_step c e = Some c'"
  then obtain d where d: "call_step k (write_binary fault) c = Some d" "c' = d \<or> (\<exists>w. c' = d\<lparr>written := w\<rparr>)"
    using WriteBinary by (auto split: if_splits)
  with call_step_ok [OF ok d(1) call_changes_ok(1)] show ?thesis
    by (auto simp: conn_ok_def same_arrived [of "d\<lparr>written := w\<rparr>" d for w])
next
  case (Arrive b)
  assume "conn_ok c" "conn_step c e = Some c'"
  with Arrive arrive_ok show ?thesis by (auto split: if_splits)
next
  case Unblock
  assume ok: "conn_ok c" and s: "conn_step c e = Some c'"
  then obtain k r where k: "stuck c = Some (k, r)" and c': "c' = set_call k ((calls c ! k)\<lparr>q_chan := Some r\<rparr>) (c\<lparr>stuck := None\<rparr>)"
    using Unblock by (auto split: option.splits if_splits)
  let ?c = "c\<lparr>stuck := None\<rparr>" and ?q = "(calls c ! k)\<lparr>q_chan := Some r\<rparr>"
  note kk = conn_okD(3) [OF ok k]
  have base: "conn_ok ?c" using ok by (simp add: conn_ok_def same_arrived [of ?c c])
  have "call_ok ?c ?q"
    using conn_okD(1) [OF base, of k] kk by (auto simp: call_ok_def answers_def)
  then show ?thesis
    unfolding c' using set_call_ok [OF base, of k ?q] kk by simp
next
  case (TakeResponse k)
  assume "conn_ok c" "conn_step c e = Some c'"
  with TakeResponse call_step_ok [OF _ _ call_changes_ok(3)] show ?thesis by auto
next
  case (TimerFires k)
  assume "conn_ok c" "conn_step c e = Some c'"
  with TimerFires call_step_ok [OF _ _ call_changes_ok(2)] show ?thesis by auto
next
  case (SeeDone k)
  assume "conn_ok c" "conn_step c e = Some c'"
  with SeeDone call_step_ok [OF _ _ call_changes_ok(2)] show ?thesis by (auto split: if_splits)
next
  case (Finish k)
  assume ok: "conn_ok c" and s: "conn_step c e = Some c'"
  then obtain d where d: "call_step k finish c = Some d" "c' = d\<lparr>pending := (pending d)(q_id (calls c ! k) := None)\<rparr>"
    using Finish by auto
  with call_step_ok [OF ok d(1) call_changes_ok(4)] show ?thesis
    by (auto simp: conn_ok_def same_arrived [of "d\<lparr>pending := w\<rparr>" d for w] split: if_splits)
next
  case EndContext
  assume "conn_ok c" "conn_step c e = Some c'"
  with EndContext show ?thesis by (auto simp: conn_ok_def same_arrived [of "c\<lparr>ended := True\<rparr>" c])
qed

lemma call_step_ids:
  assumes "ids_ok c" "call_step k f c = Some c'" "\<And>q q'. f q = Some q' \<Longrightarrow> q_id q' = q_id q"
  shows "ids_ok c'"
  using assms by (auto simp: call_step_def set_call_def ids_ok_def nth_list_update split: if_splits)

lemma nth_update_any: "k < length xs \<Longrightarrow> xs[a := v] ! k = (if a = k then v else xs ! k)"
  by (cases "a = k") simp_all

lemma handle_ids: "ids_ok c \<Longrightarrow> ids_ok ((handleBinaryResponse b c)\<lparr>arrived := a\<rparr>)"
  by (auto simp: handleBinaryResponse_def set_call_def ids_ok_def nth_update_any split: option.split)

lemma begin_ids: "ids_ok c \<Longrightarrow> ids_ok (request_begin op dev off len data c)"
  by (auto simp: request_begin_def Let_def ids_ok_def nth_append less_Suc_eq add.commute)

lemma change_ids:
  "write_binary fault q = Some q' \<Longrightarrow> q_id q' = q_id q" "give_up e q = Some q' \<Longrightarrow> q_id q' = q_id q"
  "take_response q = Some q' \<Longrightarrow> q_id q' = q_id q" "finish q = Some q' \<Longrightarrow> q_id q' = q_id q"
  by (auto simp: write_binary_def give_up_def take_response_def finish_def split: if_splits option.splits req_phase.splits)

lemma conn_step_ids: "ids_ok c \<Longrightarrow> conn_step c e = Some c' \<Longrightarrow> ids_ok c'"
proof (cases e)
  case (WriteBinary k fault)
  assume ok: "ids_ok c" and s: "conn_step c e = Some c'"
  then obtain d where d: "call_step k (write_binary fault) c = Some d" "c' = d \<or> (\<exists>w. c' = d\<lparr>written := w\<rparr>)"
    using WriteBinary by (auto split: if_splits)
  with call_step_ids [OF ok d(1) change_ids(1)] show ?thesis by (auto simp: ids_ok_def)
next
  case Unblock
  assume "ids_ok c" "conn_step c e = Some c'"
  with Unblock show ?thesis
    by (auto simp: ids_ok_def set_call_def nth_update_any split: option.splits if_splits)
next
  case (Finish k)
  assume ok: "ids_ok c" and s: "conn_step c e = Some c'"
  then obtain d where d: "call_step k finish c = Some d" "c' = d\<lparr>pending := (pending d)(q_id (calls c ! k) := None)\<rparr>"
    using Finish by auto
  with call_step_ids [OF ok d(1) change_ids(4)] show ?thesis by (auto simp: ids_ok_def)
next
  case (TakeResponse k)
  assume "ids_ok c" "conn_step c e = Some c'"
  with TakeResponse call_step_ids [OF _ _ change_ids(3)] show ?thesis by auto
next
  case (TimerFires k)
  assume "ids_ok c" "conn_step c e = Some c'"
  with TimerFires call_step_ids [OF _ _ change_ids(2)] show ?thesis by auto
next
  case (SeeDone k)
  assume "ids_ok c" "conn_step c e = Some c'"
  with SeeDone call_step_ids [OF _ _ change_ids(2)] show ?thesis by (auto split: if_splits)
next
  case (Arrive b)
  assume "ids_ok c" "conn_step c e = Some c'"
  with Arrive handle_ids [of c] show ?thesis by (auto split: if_splits)
next
  case (Begin op dev off len data)
  assume "ids_ok c" "conn_step c e = Some c'"
  with Begin begin_ids [of c] show ?thesis by auto
next
  case EndContext
  assume "ids_ok c" "conn_step c e = Some c'"
  with EndContext show ?thesis by (auto simp: ids_ok_def)
qed

interpretation connection: machine conn_step new_conn "\<lambda>c. conn_ok c \<and> ids_ok c"
proof
  show "conn_ok new_conn \<and> ids_ok new_conn" by (simp add: conn_ok_def ids_ok_def new_conn_def)
qed (blast intro: conn_step_ok conn_step_ids)

lemma ids_distinct:
  assumes "ids_ok c" "length (calls c) < 2 ^ 32" "k < length (calls c)" "k' < length (calls c)" "k \<noteq> k'"
  shows "q_id (calls c ! k) \<noteq> q_id (calls c ! k')"
proof
  assume "q_id (calls c ! k) = q_id (calls c ! k')"
  then have "(of_nat (Suc k) :: u32) = of_nat (Suc k')" using assms by (simp add: ids_ok_def)
  moreover have "unat (of_nat n :: u32) = n" if "n < 2 ^ 32" for n
    unfolding unat_of_nat using that by simp
  moreover have "Suc k < 2 ^ 32" "Suc k' < 2 ^ 32" using assms by auto
  ultimately have "Suc k = Suc k'" by metis
  with assms show False by simp
qed



text \<open>Two calls in flight, answered in the other order.\<close>

definition crossed_answers :: "conn_event list" where
  "crossed_answers =
     [Begin opRead devCD 0 1 [], Begin opRead devHD 512 1 [], WriteBinary 1 None, WriteBinary 0 None,
      Arrive (status_reply 2 0 @ [9]), Arrive (status_reply 1 0 @ [7]),
      TakeResponse 0, TakeResponse 1, Finish 1, Finish 0]"


section \<open>A second answer can block the read loop for good\<close>

text \<open>A call that has given up with a response in its channel, and the read loop sending it a second one.\<close>

definition wedged :: "conn \<Rightarrow> nat \<Rightarrow> bool" where
  "wedged c k =
     (k < length (calls c) \<and> map_option fst (stuck c) = Some k \<and> q_chan (calls c ! k) \<noteq> None
      \<and> q_phase (calls c ! k) \<notin> {Registered, Waiting})"

lemma wedged_step: "wedged c k \<Longrightarrow> conn_step c e = Some c' \<Longrightarrow> wedged c' k \<and> arrived c' = arrived c"
  by (cases e)
    (auto simp: wedged_def request_begin_def Let_def nth_append call_step_def set_call_def nth_update_any
      write_binary_def give_up_def take_response_def finish_def split: if_splits option.splits req_phase.splits)

text \<open>
  From such a state the read loop takes no message any more, whatever happens: no answer reaches a
  call, and the end of the socket is not seen.
\<close>

lemma wedged_forever:
  assumes "wedged c k" "conn_run c es = Some c'"
  shows "wedged c' k \<and> arrived c' = arrived c"
  using assms wedged_step by (intro run_steps_keeps [where I = "\<lambda>d. wedged d k \<and> arrived d = arrived c", OF _ _ assms(2)]) force+

definition double_answer :: "conn_event list" where
  "double_answer =
     [Begin opRead devCD 0 4 [], WriteBinary 0 None, Arrive (status_reply 1 0), TimerFires 0,
      Arrive (status_reply 1 0), Finish 0]"

lemma double_answer_wedges: "\<exists>c. conn_run new_conn double_answer = Some c \<and> connected c \<and> wedged c 0"
proof -
  have "conn_run new_conn double_answer \<noteq> None" "wedged (the (conn_run new_conn double_answer)) 0"
    by code_simp+
  then show ?thesis using reach_from_init by fastforce
qed

end
