(* ===== verification/Backing.thy ===== *)
theory Backing
  imports GoIO
begin

text \<open>
  Backing stores of a redirected image (\<^verbatim>\<open>internal/kvm/vmedia/reader.go\<close>).

  The Go interfaces \<^verbatim>\<open>Reader\<close> and \<^verbatim>\<open>ReadWriter\<close> are the locales \<open>medium\<close> and
  \<open>writable_medium\<close>: a store is a state with its content, and a call returns the new state,
  the bytes transferred and the error. The locales hold the contract the data plane relies
  on (a read that reports no error, or the end of the medium, has returned every byte there
  is; a write changes nothing outside its range), and the cache and the SCSI emulation are
  proved against them. \<open>FileReader\<close> is the store on a local file. Its file may fail: each
  call takes the next entry of a schedule of faults, which says how many bytes were
  transferred and the error's number.
\<close>

section \<open>The interfaces\<close>

type_synonym 's read_at = "'s \<Rightarrow> nat \<Rightarrow> int \<Rightarrow> 's \<times> bytes \<times> io_err option"
type_synonym 's write_at = "'s \<Rightarrow> bytes \<Rightarrow> int \<Rightarrow> 's \<times> nat \<times> io_err option"

definition no_failure :: "io_err option \<Rightarrow> bool" where
  "no_failure err = (err = None \<or> err = Some EOF)"

lemma no_failure_simps [simp]: "no_failure None" "no_failure (Some EOF)"
  by (simp_all add: no_failure_def)

locale medium =
  fixes rd :: "'s read_at"
    and sz :: "'s \<Rightarrow> int"
    and content :: "'s \<Rightarrow> bytes"
    and good :: "'s \<Rightarrow> bool"
  assumes sz_content: "good s \<Longrightarrow> 0 \<le> sz s \<and> sz s \<le> int (length (content s))"
    and rd_keeps: "good s \<Longrightarrow> rd s n off = (s', got, err) \<Longrightarrow>
      good s' \<and> sz s' = sz s \<and> content s' = content s"
    and rd_prefix: "good s \<Longrightarrow> 0 \<le> off \<Longrightarrow> rd s n off = (s', got, err) \<Longrightarrow>
      got = take (length got) (take n (drop (nat off) (content s)))"
    and rd_done: "good s \<Longrightarrow> 0 \<le> off \<Longrightarrow> rd s n off = (s', got, err) \<Longrightarrow> no_failure err \<Longrightarrow>
      got = take n (drop (nat off) (content s))"
    and rd_full: "good s \<Longrightarrow> rd s n off = (s', got, None) \<Longrightarrow> length got = n"
begin

lemma rd_length:
  assumes "good s" "0 \<le> off" "rd s n off = (s', got, err)"
  shows "length got \<le> n"
proof -
  have "length got = length (take (length got) (take n (drop (nat off) (content s))))"
    using rd_prefix [OF assms] by (rule arg_cong)
  then show ?thesis by simp
qed

text \<open>Reading into a zeroed buffer: the medium's bytes, zeros past its end.\<close>

lemma rd_zero_filled:
  assumes "good s" "0 \<le> off" "rd s n off = (s', got, err)" "no_failure err"
  shows "got @ replicate (n - length got) 0
    = take n (drop (nat off) (content s) @ replicate n 0)"
  using rd_done [OF assms] by (simp add: min_def)

end

locale writable_medium = medium rd sz content good
  for rd :: "'s read_at" and sz :: "'s \<Rightarrow> int" and content :: "'s \<Rightarrow> bytes"
    and good :: "'s \<Rightarrow> bool" +
  fixes wr :: "'s write_at"
  assumes wr_keeps: "good s \<Longrightarrow> wr s p off = (s', n, err) \<Longrightarrow>
      good s' \<and> sz s' = sz s \<and> length (content s) \<le> length (content s')"
    and wr_frame: "good s \<Longrightarrow> wr s p off = (s', n, err) \<Longrightarrow> i < length (content s) \<Longrightarrow>
      int i < off \<or> off + int (length p) \<le> int i \<Longrightarrow> content s' ! i = content s ! i"
    and wr_done: "good s \<Longrightarrow> 0 \<le> off \<Longrightarrow> off + int (length p) \<le> sz s \<Longrightarrow>
      wr s p off = (s', n, None) \<Longrightarrow>
      n = length p \<and> take (length p) (drop (nat off) (content s')) = p"
    and wr_count: "good s \<Longrightarrow> wr s p off = (s', n, err) \<Longrightarrow> n \<le> length p"
begin

lemma wr_slice_frame:
  assumes "good s" "wr s p off = (s', n, err)" "b \<le> length (content s)"
    and "\<And>i. a \<le> i \<Longrightarrow> i < b \<Longrightarrow> int i < off \<or> off + int (length p) \<le> int i"
  shows "slice a b (content s') = slice a b (content s)"
proof (rule nth_equalityI)
  have "length (content s) \<le> length (content s')"
    using wr_keeps [OF assms(1,2)] by simp
  with assms(3) show "length (slice a b (content s')) = length (slice a b (content s))"
    by simp
  fix i
  assume "i < length (slice a b (content s'))"
  with assms(3) wr_keeps [OF assms(1,2)] have i: "i < b - a" by simp
  have "content s' ! (a + i) = content s ! (a + i)"
    using i assms(3) assms(4) [of "a + i"] by (intro wr_frame [OF assms(1,2)]) auto
  with i assms(3) wr_keeps [OF assms(1,2)] show "slice a b (content s') ! i = slice a b (content s) ! i"
    by simp
qed

end

section \<open>Files\<close>

datatype file_node = Directory | Regular bytes

record file_reader =
  f_data :: bytes
  f_writable :: bool
  f_faults :: "(nat \<times> nat) option list"
  f_size :: nat

datatype open_err = OpenFailed | IsDirectory

definition openFile ::
  "(string \<rightharpoonup> file_node) \<Rightarrow> (nat \<times> nat) option list \<Rightarrow> string \<Rightarrow> bool \<Rightarrow> open_err + file_reader" where
  "openFile fs faults path writable =
     (case fs path of
        None \<Rightarrow> Inl OpenFailed
      | Some Directory \<Rightarrow> Inl IsDirectory
      | Some (Regular d) \<Rightarrow>
          Inr \<lparr>f_data = d, f_writable = writable, f_faults = faults, f_size = length d\<rparr>)"

definition OpenFile where "OpenFile fs faults path = openFile fs faults path False"
definition OpenFileRW where "OpenFileRW fs faults path = openFile fs faults path True"

definition next_fault :: "file_reader \<Rightarrow> (nat \<times> nat) option \<times> file_reader" where
  "next_fault f =
     (case f_faults f of [] \<Rightarrow> (None, f) | x # xs \<Rightarrow> (x, f\<lparr>f_faults := xs\<rparr>))"

text \<open>
  \<^verbatim>\<open>os.File.ReadAt\<close>: all the bytes there are, and \<^verbatim>\<open>io.EOF\<close> when they are fewer than asked
  for; a failing call has read some of them.
\<close>

definition file_ReadAt :: "file_reader read_at" where
  "file_ReadAt f n off =
     (if off < 0 then (f, [], Some NegativeReadOffset)
      else let (fault, f) = next_fault f; avail = take n (drop (nat off) (f_data f))
           in case fault of
                Some (k, e) \<Rightarrow> (f, take k avail, Some (BackingFailure e))
              | None \<Rightarrow> (f, avail, if length avail < n then Some EOF else None))"

definition file_put :: "bytes \<Rightarrow> nat \<Rightarrow> bytes \<Rightarrow> bytes" where
  "file_put d off p =
     (if p = [] then d
      else let d = d @ replicate (off - length d) 0
           in take off d @ p @ drop (off + length p) d)"

definition file_WriteAt :: "file_reader write_at" where
  "file_WriteAt f p off =
     (if off < 0 then (f, 0, Some NegativeWriteOffset)
      else if \<not> f_writable f then (f, 0, Some ReadOnlyMedium)
      else let (fault, f) = next_fault f
           in case fault of
                Some (k, e) \<Rightarrow>
                  (f\<lparr>f_data := file_put (f_data f) (nat off) (take k p)\<rparr>, min k (length p), Some (BackingFailure e))
              | None \<Rightarrow> (f\<lparr>f_data := file_put (f_data f) (nat off) p\<rparr>, length p, None))"

definition file_Size :: "file_reader \<Rightarrow> int" where
  "file_Size f = int (f_size f)"

definition file_inv :: "file_reader \<Rightarrow> bool" where
  "file_inv f = (f_size f \<le> length (f_data f))"

lemma next_fault_keeps [simp]:
  "f_data (snd (next_fault f)) = f_data f" "f_size (snd (next_fault f)) = f_size f"
  "f_writable (snd (next_fault f)) = f_writable f"
  by (simp_all add: next_fault_def split: list.splits)

lemma length_file_put: "length d \<le> length (file_put d off p)"
  by (cases "length d \<le> off") (auto simp: file_put_def Let_def)

lemma nth_file_put:
  "i < length d \<Longrightarrow> i < off \<or> off + length p \<le> i \<Longrightarrow> file_put d off p ! i = d ! i"
  by (auto simp: file_put_def Let_def nth_append min_def not_less
      intro!: arg_cong [where f = "nth d"])

lemma slice_file_put: "take (length p) (drop off (file_put d off p)) = p"
  by (cases "p = []") (simp_all add: file_put_def Let_def)

lemma file_inv_put: "file_inv f \<Longrightarrow> f_size f' = f_size f \<Longrightarrow>
  f_data f' = file_put (f_data f) off p \<Longrightarrow> file_inv f'"
  using length_file_put [of "f_data f" off p] by (simp add: file_inv_def)

lemma file_ReadAt_cases:
  assumes "file_ReadAt f n off = (f', got, err)"
  shows "f_data f' = f_data f \<and> f_size f' = f_size f \<and>
    (off < 0 \<and> got = [] \<and> err = Some NegativeReadOffset \<or>
     0 \<le> off \<and> (let avail = take n (drop (nat off) (f_data f)) in
       (\<exists>k. got = take k avail \<and> \<not> no_failure err) \<or>
       (got = avail \<and> err = (if length avail < n then Some EOF else None))))"
proof (cases "off < 0")
  case True
  with assms show ?thesis by (auto simp: file_ReadAt_def)
next
  case False
  obtain fault g where g: "next_fault f = (fault, g)" by force
  with next_fault_keeps [of f] have keeps: "f_data g = f_data f" "f_size g = f_size f"
    by simp_all
  show ?thesis
  proof (cases fault)
    case None
    let ?a = "take n (drop (nat off) (f_data f))"
    have "file_ReadAt f n off = (g, ?a, if length ?a < n then Some EOF else None)"
      using False None g keeps by (simp only: file_ReadAt_def Let_def prod.case option.case if_False)
    with assms have "(f', got, err) = (g, ?a, if length ?a < n then Some EOF else None)"
      by (rule trans [OF sym])
    then have "f' = g" "got = ?a" "err = (if length ?a < n then Some EOF else None)"
      unfolding prod.inject by blast+
    with False keeps show ?thesis
      by (simp only: Let_def simp_thms not_less)
  next
    case (Some ke)
    with False assms g keeps show ?thesis
      by (cases ke) (auto simp: file_ReadAt_def Let_def no_failure_def simp del: take_take)
  qed
qed

lemma file_WriteAt_cases:
  assumes "file_WriteAt f p off = (f', n, err)"
  shows "f_size f' = f_size f \<and>
    ((f' = f \<and> n = 0 \<and> err \<noteq> None) \<or>
     (0 \<le> off \<and> (\<exists>k. f_data f' = file_put (f_data f) (nat off) (take k p) \<and> n = min k (length p)
        \<and> (err = None \<longrightarrow> length p \<le> k))))"
proof (cases "off < 0 \<or> \<not> f_writable f")
  case True
  with assms show ?thesis by (auto simp: file_WriteAt_def split: if_splits)
next
  case False
  obtain fault g where g: "next_fault f = (fault, g)" by force
  with next_fault_keeps [of f] have keeps: "f_data g = f_data f" "f_size g = f_size f"
    by simp_all
  with False assms g show ?thesis
    by (cases fault) (auto simp: file_WriteAt_def Let_def intro: exI [of _ "length p"])
qed

interpretation fileio: writable_medium file_ReadAt file_Size f_data file_inv file_WriteAt
proof unfold_locales
  fix f f' n off got err
  show "0 \<le> file_Size f \<and> file_Size f \<le> int (length (f_data f))" if "file_inv f"
    using that by (simp add: file_inv_def file_Size_def)
  {
    assume rd: "file_ReadAt f n off = (f', got, err)"
    show "file_inv f' \<and> file_Size f' = file_Size f \<and> f_data f' = f_data f" if "file_inv f"
      using that file_ReadAt_cases [OF rd] by (simp add: file_inv_def file_Size_def)
    have "take k xs = take (length (take k xs)) xs" for k and xs :: bytes
      by (simp add: min_def)
    then show "got = take (length got) (take n (drop (nat off) (f_data f)))" if "0 \<le> off"
      using that file_ReadAt_cases [OF rd] by (auto simp only: Let_def simp_thms) (simp_all only: take_all order_refl)
    show "got = take n (drop (nat off) (f_data f))" if "0 \<le> off" "no_failure err"
      using that file_ReadAt_cases [OF rd] by (auto simp: Let_def)
  }
  show "length got = n" if "file_ReadAt f n off = (f', got, None)"
    using file_ReadAt_cases [OF that] by (auto simp: Let_def split: if_splits)
next
  fix f f' p off n err i
  assume wr: "file_WriteAt f p off = (f', n, err)" and good: "file_inv f"
  note c = file_WriteAt_cases [OF wr]
  show "file_inv f' \<and> file_Size f' = file_Size f \<and> length (f_data f) \<le> length (f_data f')"
    using c good length_file_put by (auto simp: file_Size_def intro: file_inv_put)
  show "f_data f' ! i = f_data f ! i"
    if "i < length (f_data f)" "int i < off \<or> off + int (length p) \<le> int i"
    using c that by (auto intro!: nth_file_put)
  show "n \<le> length p"
    using c by auto
next
  fix f f' p off n
  assume wr: "file_WriteAt f p off = (f', n, None)" and "file_inv f" and "0 \<le> off"
  then show "n = length p \<and> take (length p) (drop (nat off) (f_data f')) = p"
    using file_WriteAt_cases [OF wr] slice_file_put [of p "nat off" "f_data f"]
    by (auto simp: min_def)
qed

end
