(* ===== verification/WinCache.thy ===== *)
theory WinCache
  imports Backing "HOL-Library.AList"
begin

text \<open>
  The windowed read cache in front of a backing store (\<^verbatim>\<open>internal/kvm/vmedia/cache.go\<close>).

  The cache keeps an LRU list of windows and an index from window starts to list elements.
  A list element is a handle (a number, \<open>fresh\<close> is the next one): \<open>lru\<close> holds the elements
  with their values, front first, and \<open>index\<close> is the Go map as an association list with
  distinct keys. The backing is the record's first field and its methods are the arguments
  \<open>rd\<close> and \<open>wr\<close> of the operations. The reader and the writer of a writable cache are the
  same object, as in every call of \<^verbatim>\<open>NewCache\<close>; \<open>c_writable\<close> is \<^verbatim>\<open>w != nil\<close>.
  One goroutine drives a cache, so the second lookup of \<^verbatim>\<open>window\<close> never hits; it is kept.
\<close>

section \<open>State and operations\<close>

definition WindowSize :: int where "WindowSize = 512 * 1024"
definition defaultMaxWindows :: nat where "defaultMaxWindows = 64"

record win_entry =
  w_start :: int
  w_data :: bytes

record 's cache =
  c_r :: 's
  c_writable :: bool
  windowSize :: int
  maxWindows :: nat
  c_size :: int
  lru :: "(nat \<times> win_entry) list"
  index :: "(int \<times> nat) list"
  fresh :: nat
  hits :: int
  misses :: int
  fetched :: int

definition NewCache :: "('s \<Rightarrow> int) \<Rightarrow> 's \<Rightarrow> bool \<Rightarrow> 's cache" where
  "NewCache sz r writable =
     \<lparr>c_r = r, c_writable = writable, windowSize = WindowSize, maxWindows = defaultMaxWindows,
      c_size = sz r, lru = [], index = [], fresh = 0, hits = 0, misses = 0, fetched = 0\<rparr>"

definition cache_Size :: "'s cache \<Rightarrow> int" where
  "cache_Size c = c_size c"

text \<open>\<^verbatim>\<open>container/list\<close>: move an element to the front, push a new one, remove one.\<close>

definition MoveToFront :: "nat \<Rightarrow> (nat \<times> win_entry) list \<Rightarrow> (nat \<times> win_entry) list" where
  "MoveToFront el l =
     (case map_of l el of None \<Rightarrow> l | Some e \<Rightarrow> (el, e) # AList.delete el l)"

definition entry_data :: "nat \<Rightarrow> (nat \<times> win_entry) list \<Rightarrow> bytes" where
  "entry_data el l = (case map_of l el of None \<Rightarrow> [] | Some e \<Rightarrow> w_data e)"

function evict :: "'s cache \<Rightarrow> 's cache" where
  "evict c =
     (if length (index c) \<le> maxWindows c \<or> lru c = [] then c
      else let (el, e) = last (lru c)
           in evict (c\<lparr>lru := butlast (lru c), index := AList.delete (w_start e) (index c)\<rparr>))"
  by auto
termination by (relation "measure (\<lambda>c. length (lru c))") auto

declare evict.simps [simp del]

text \<open>The part of \<^verbatim>\<open>window\<close> after the backing has been read.\<close>

definition window_store :: "'s cache \<Rightarrow> int \<Rightarrow> bytes \<Rightarrow> 's cache \<times> bytes" where
  "window_store c start buf =
     (let c = c\<lparr>fetched := fetched c + int (length buf)\<rparr>
      in case map_of (index c) start of
           Some el \<Rightarrow> (c\<lparr>lru := MoveToFront el (lru c)\<rparr>, entry_data el (lru c))
         | None \<Rightarrow>
             (let el = fresh c;
                  c = c\<lparr>lru := (el, \<lparr>w_start = start, w_data = buf\<rparr>) # lru c, fresh := el + 1,
                        index := AList.update start el (index c)\<rparr>
              in (evict c, buf)))"

definition window :: "'s read_at \<Rightarrow> 's cache \<Rightarrow> int \<Rightarrow> 's cache \<times> (io_err + bytes)" where
  "window rd c start =
     (case map_of (index c) start of
        Some el \<Rightarrow>
          (c\<lparr>lru := MoveToFront el (lru c), hits := hits c + 1\<rparr>, Inr (entry_data el (lru c)))
      | None \<Rightarrow>
          (let c = c\<lparr>misses := misses c + 1\<rparr>;
               n = (if c_size c < start + windowSize c then c_size c - start else windowSize c);
               (r', got, err) = rd (c_r c) (nat n) start;
               c = c\<lparr>c_r := r'\<rparr>
           in if \<not> no_failure err then (c, Inl (the err))
              else let (c, buf) = window_store c start got in (c, Inr buf)))"

function cache_read_loop ::
  "'s read_at \<Rightarrow> 's cache \<Rightarrow> int \<Rightarrow> int \<Rightarrow> bytes \<Rightarrow> 's cache \<times> bytes \<times> io_err option" where
  "cache_read_loop rd c pos stop acc =
     (if pos < stop then
        (let winStart = pos - go_rem pos (windowSize c) in
         case window rd c winStart of
           (c, Inl e) \<Rightarrow> (c, acc, Some e)
         | (c, Inr win) \<Rightarrow>
             (let inWin = nat (pos - winStart) in
              if length win \<le> inWin then (c, acc, None)
              else let chunk = take (nat (stop - pos)) (drop inWin win)
                   in if chunk = [] then (c, acc, None)
                      else cache_read_loop rd c (pos + int (length chunk)) stop (acc @ chunk)))
      else (c, acc, None))"
  by pat_completeness auto
termination by (relation "measure (\<lambda>(rd, c, pos, stop, acc). nat (stop - pos))") auto

declare cache_read_loop.simps [simp del]

definition cache_ReadAt :: "'s read_at \<Rightarrow> 's cache read_at" where
  "cache_ReadAt rd c n off =
     (if off < 0 then (c, [], Some NegativeReadOffset)
      else if c_size c \<le> off then (c, [], Some EOF)
      else let stop = off + int n;
               stop = (if c_size c < stop then c_size c else stop);
               (c, got, err) = cache_read_loop rd c off stop []
           in case err of
                Some e \<Rightarrow> (c, got, Some e)
              | None \<Rightarrow> (c, got, if length got < n then Some EOF else None))"

definition drop_window :: "'s cache \<Rightarrow> int \<Rightarrow> 's cache" where
  "drop_window c w =
     (case map_of (index c) w of
        None \<Rightarrow> c
      | Some el \<Rightarrow> c\<lparr>lru := AList.delete el (lru c), index := AList.delete w (index c)\<rparr>)"

text \<open>The loop of \<^verbatim>\<open>invalidate\<close>; \<^verbatim>\<open>windowSize\<close> is positive in every cache.\<close>

function inval_loop :: "'s cache \<Rightarrow> int \<Rightarrow> int \<Rightarrow> 's cache" where
  "inval_loop c w stop =
     (if w < stop \<and> 0 < windowSize c then inval_loop (drop_window c w) (w + windowSize c) stop else c)"
  by pat_completeness auto
termination by (relation "measure (\<lambda>(c, w, stop). nat (stop - w))") auto

declare inval_loop.simps [simp del]

definition invalidate :: "'s cache \<Rightarrow> int \<Rightarrow> int \<Rightarrow> 's cache" where
  "invalidate c off len =
     (if len \<le> 0 then c else inval_loop c (off - go_rem off (windowSize c)) (off + len))"

definition cache_WriteAt :: "'s write_at \<Rightarrow> 's cache write_at" where
  "cache_WriteAt wr c p off =
     (if \<not> c_writable c then (c, 0, Some CacheReadOnly)
      else let (r', n, err) = wr (c_r c) p off
           in (invalidate (c\<lparr>c_r := r'\<rparr>) off (int (length p)), n, err))"

definition cache_Stats :: "'s cache \<Rightarrow> int \<times> int \<times> int" where
  "cache_Stats c = (hits c, misses c, fetched c)"

section \<open>The LRU list and the index\<close>

definition index_ok :: "'s cache \<Rightarrow> bool" where
  "index_ok c =
     (distinct (map fst (lru c)) \<and> distinct (map fst (index c))
      \<and> (\<forall>x \<in> set (lru c). fst x < fresh c)
      \<and> set (index c) = (\<lambda>x. (w_start (snd x), fst x)) ` set (lru c))"

lemma index_ok_length:
  assumes "index_ok c"
  shows "length (index c) = length (lru c)"
proof -
  have "distinct (lru c)" "distinct (index c)"
    using assms by (auto simp: index_ok_def distinct_map)
  moreover have "inj_on (\<lambda>x. (w_start (snd x), fst x)) (set (lru c))"
    using assms by (auto simp: index_ok_def distinct_map inj_on_def)
  ultimately show ?thesis
    using assms by (simp add: index_ok_def card_image flip: distinct_card)
qed

lemma index_ok_find:
  assumes "index_ok c" "map_of (index c) start = Some el"
  shows "\<exists>e. map_of (lru c) el = Some e \<and> w_start e = start \<and> (el, e) \<in> set (lru c)"
  using assms by (auto simp: index_ok_def dest!: map_of_SomeD)

lemma index_ok_entry:
  assumes "index_ok c" "(el, e) \<in> set (lru c)"
  shows "map_of (index c) (w_start e) = Some el"
  using assms by (force simp: index_ok_def image_iff)

lemma index_ok_none:
  "index_ok c \<Longrightarrow> map_of (index c) start = None \<longleftrightarrow> (\<forall>x \<in> set (lru c). w_start (snd x) \<noteq> start)"
  by (auto simp: index_ok_def map_of_eq_None_iff image_image)

lemma set_MoveToFront:
  "distinct (map fst l) \<Longrightarrow> set (MoveToFront el l) = set l"
  by (auto simp: MoveToFront_def AList.delete_eq split: option.splits
      dest: map_of_SomeD eq_key_imp_eq_value)

lemma distinct_MoveToFront:
  "distinct (map fst l) \<Longrightarrow> distinct (map fst (MoveToFront el l))"
  by (auto simp: MoveToFront_def AList.delete_eq distinct_map inj_on_def split: option.splits)

lemma length_MoveToFront [simp]:
  "distinct (map fst l) \<Longrightarrow> length (MoveToFront el l) = length l"
  by (metis distinct_MoveToFront distinct_card length_map list.set_map set_MoveToFront)

text \<open>Removing an element from the list and its key from the index, in either order.\<close>

lemma index_ok_remove:
  assumes ok: "index_ok c" and e: "(el, e) \<in> set (lru c)"
    and lru: "set l = set (lru c) - {(el, e)}" "distinct (map fst l)"
  shows "index_ok (c\<lparr>lru := l, index := AList.delete (w_start e) (index c)\<rparr>)"
proof -
  have id: "fst x = el \<longleftrightarrow> x = (el, e)" if "x \<in> set (lru c)" for x
    using ok e that by (cases x) (auto simp: index_ok_def dest: eq_key_imp_eq_value)
  have st: "w_start (snd x) = w_start e \<longleftrightarrow> x = (el, e)" if "x \<in> set (lru c)" for x
    using index_ok_entry [OF ok, of "fst x" "snd x"] index_ok_entry [OF ok e] that id [OF that]
    by (cases x) auto
  let ?f = "\<lambda>x. (w_start (snd x), fst x)"
  have "set (AList.delete (w_start e) (index c)) = {y \<in> ?f ` set (lru c). fst y \<noteq> w_start e}"
    using ok by (auto simp: index_ok_def AList.delete_eq)
  also have "\<dots> = ?f ` {x \<in> set (lru c). w_start (snd x) \<noteq> w_start e}"
    by auto
  also have "{x \<in> set (lru c). w_start (snd x) \<noteq> w_start e} = set l"
    using st lru(1) by blast
  finally have set: "set (AList.delete (w_start e) (index c)) = ?f ` set l" .
  have "distinct (map fst (AList.delete (w_start e) (index c)))"
    using ok by (simp add: index_ok_def AList.distinct_delete)
  moreover have "\<forall>x \<in> set l. fst x < fresh c"
    using ok lru(1) by (simp add: index_ok_def)
  ultimately show ?thesis
    using lru(2) set by (simp add: index_ok_def)
qed

lemma index_ok_pop:
  assumes ok: "index_ok c" and "lru c = l @ [(el, e)]"
  shows "index_ok (c\<lparr>lru := l, index := AList.delete (w_start e) (index c)\<rparr>)"
proof -
  have "distinct (map fst (l @ [(el, e)]))"
    using assms by (simp add: index_ok_def)
  then have "(el, e) \<notin> set l" "distinct (map fst l)"
    by force+
  with assms show ?thesis
    by (intro index_ok_remove [where el = el]) auto
qed

lemma evict_ok:
  "index_ok c \<Longrightarrow> index_ok (evict c) \<and> length (lru (evict c)) \<le> maxWindows c
   \<and> set (lru (evict c)) \<subseteq> set (lru c)
   \<and> c_r (evict c) = c_r c \<and> c_size (evict c) = c_size c \<and> windowSize (evict c) = windowSize c
   \<and> maxWindows (evict c) = maxWindows c \<and> c_writable (evict c) = c_writable c"
proof (induction c rule: evict.induct)
  case (1 c)
  show ?case
  proof (cases "length (index c) \<le> maxWindows c \<or> lru c = []")
    case True
    then have "evict c = c" by (subst evict.simps) simp
    with True 1(2) show ?thesis by (auto simp: index_ok_length)
  next
    case False
    obtain el e where last: "last (lru c) = (el, e)" by force
    with False have l: "lru c = butlast (lru c) @ [(el, e)]"
      using append_butlast_last_id [of "lru c"] by simp
    let ?d = "c\<lparr>lru := butlast (lru c), index := AList.delete (w_start e) (index c)\<rparr>"
    have "evict c = evict ?d"
      using False last by (subst evict.simps) simp
    moreover have "index_ok ?d"
      using 1(2) l by (rule index_ok_pop)
    moreover have "set (lru ?d) \<subseteq> set (lru c)"
      using l by (auto dest: in_set_butlastD)
    ultimately show ?thesis
      using 1(1) [OF False last [symmetric] refl] by auto
  qed
qed

lemma update_absent: "map_of m k = None \<Longrightarrow> AList.update k v m = m @ [(k, v)]"
  by (induction m) (auto split: if_splits)

lemma index_ok_push:
  assumes ok: "index_ok c" and none: "map_of (index c) start = None"
  shows "index_ok (c\<lparr>fetched := k, lru := (fresh c, \<lparr>w_start = start, w_data = d\<rparr>) # lru c,
    fresh := Suc (fresh c), index := AList.update start (fresh c) (index c)\<rparr>)"
proof -
  have "AList.update start (fresh c) (index c) = index c @ [(start, fresh c)]"
    using none by (rule update_absent)
  with assms show ?thesis
    by (auto simp: index_ok_def map_of_eq_None_iff less_Suc_eq)
qed

lemma index_ok_unique:
  "index_ok c \<Longrightarrow> (el, a) \<in> set (lru c) \<Longrightarrow> (el, b) \<in> set (lru c) \<Longrightarrow> a = b"
  unfolding index_ok_def by (blast dest: eq_key_imp_eq_value)

lemma index_ok_drop_window: "index_ok c \<Longrightarrow> index_ok (drop_window c w)"
proof (cases "map_of (index c) w")
  case (Some el)
  assume ok: "index_ok c"
  from index_ok_find [OF ok Some] obtain e where
    e: "w_start e = w" "(el, e) \<in> set (lru c)" by auto
  have "index_ok (c\<lparr>lru := AList.delete el (lru c), index := AList.delete (w_start e) (index c)\<rparr>)"
  proof (rule index_ok_remove [OF ok e(2)])
    show "set (AList.delete el (lru c)) = set (lru c) - {(el, e)}"
      using ok e(2) by (auto simp: AList.delete_eq index_ok_def dest: eq_key_imp_eq_value)
    show "distinct (map fst (AList.delete el (lru c)))"
      using ok by (simp add: index_ok_def AList.distinct_delete)
  qed
  with Some e show ?thesis by (simp add: drop_window_def)
qed (simp add: drop_window_def)

lemma set_drop_window:
  assumes "index_ok c"
  shows "set (lru (drop_window c w)) = {x \<in> set (lru c). w_start (snd x) \<noteq> w}"
proof (cases "map_of (index c) w")
  case None
  moreover from this index_ok_none [OF assms, of w] have "\<forall>x \<in> set (lru c). w_start (snd x) \<noteq> w"
    by simp
  ultimately show ?thesis by (auto simp: drop_window_def)
next
  case (Some el)
  from index_ok_find [OF assms Some] obtain e where
    e: "w_start e = w" "(el, e) \<in> set (lru c)" by auto
  have del: "set (AList.delete el (lru c)) = {x \<in> set (lru c). fst x \<noteq> el}"
    by (auto simp: AList.delete_eq)
  have iff: "fst x \<noteq> el \<longleftrightarrow> w_start (snd x) \<noteq> w" if "x \<in> set (lru c)" for x
  proof -
    obtain a y where x: "x = (a, y)" by force
    show ?thesis
    proof (cases "w_start y = w")
      case True
      with index_ok_entry [OF assms, of a y] that x Some show ?thesis by simp
    next
      case False
      with index_ok_unique [OF assms e(2), of y] that x e(1) show ?thesis by auto
    qed
  qed
  from Some have "set (lru (drop_window c w)) = {x \<in> set (lru c). fst x \<noteq> el}"
    by (simp add: drop_window_def del)
  with iff show ?thesis by blast
qed

lemma drop_window_keeps [simp]:
  "c_r (drop_window c w) = c_r c" "c_size (drop_window c w) = c_size c"
  "windowSize (drop_window c w) = windowSize c" "maxWindows (drop_window c w) = maxWindows c"
  "c_writable (drop_window c w) = c_writable c" "length (lru (drop_window c w)) \<le> length (lru c)"
  by (auto simp: drop_window_def AList.length_delete_le split: option.splits)

lemma inval_loop_keeps:
  "c_r (inval_loop c w stop) = c_r c \<and> c_size (inval_loop c w stop) = c_size c
   \<and> windowSize (inval_loop c w stop) = windowSize c \<and> maxWindows (inval_loop c w stop) = maxWindows c
   \<and> c_writable (inval_loop c w stop) = c_writable c
   \<and> length (lru (inval_loop c w stop)) \<le> length (lru c)
   \<and> (index_ok c \<longrightarrow> index_ok (inval_loop c w stop))"
proof (induction c w "stop" rule: inval_loop.induct)
  case (1 c w e)
  show ?case
  proof (cases "w < e \<and> 0 < windowSize c")
    case True
    then have "inval_loop c w e = inval_loop (drop_window c w) (w + windowSize c) e"
      by (subst inval_loop.simps) simp
    with 1 [OF True] show ?thesis
      by (auto intro: index_ok_drop_window le_trans [OF _ drop_window_keeps(6)])
  next
    case False
    then have "inval_loop c w e = c" by (subst inval_loop.simps) (simp only: if_False)
    then show ?thesis by simp
  qed
qed

lemma progression_split:
  "(\<exists>k. s = w + int k * d) \<longleftrightarrow> s = w \<or> (\<exists>k. s = w + d + int k * d)"
proof
  assume "\<exists>k. s = w + int k * d"
  then obtain k where "s = w + int k * d" ..
  then show "s = w \<or> (\<exists>k. s = w + d + int k * d)"
    by (cases k) (auto simp: algebra_simps)
next
  assume "s = w \<or> (\<exists>k. s = w + d + int k * d)"
  then show "\<exists>k. s = w + int k * d"
  proof (elim disjE exE)
    show "s = w \<Longrightarrow> ?thesis" by (intro exI [of _ 0]) simp
    show "s = w + d + int k * d \<Longrightarrow> ?thesis" for k
      by (intro exI [of _ "Suc k"]) (simp add: algebra_simps)
  qed
qed

text \<open>The loop drops exactly the windows it steps over.\<close>

lemma set_inval_loop:
  "index_ok c \<Longrightarrow> 0 < windowSize c \<Longrightarrow>
   set (lru (inval_loop c w stop))
     = {x \<in> set (lru c). \<not> (\<exists>k. w_start (snd x) = w + int k * windowSize c \<and> w_start (snd x) < stop)}"
proof (induction c w "stop" rule: inval_loop.induct)
  case (1 c w e)
  show ?case
  proof (cases "w < e")
    case True
    then have "inval_loop c w e = inval_loop (drop_window c w) (w + windowSize c) e"
      using 1(3) by (subst inval_loop.simps) simp
    moreover have "set (lru (inval_loop (drop_window c w) (w + windowSize c) e))
      = {x \<in> set (lru (drop_window c w)). \<not> (\<exists>k. w_start (snd x) = w + windowSize c + int k * windowSize c
           \<and> w_start (snd x) < e)}"
      using 1(1) [OF _ index_ok_drop_window] True 1(2,3) by simp
    moreover have "(\<exists>k. s = w + int k * windowSize c) \<longleftrightarrow>
       s = w \<or> (\<exists>k. s = w + windowSize c + int k * windowSize c)" for s
      by (rule progression_split)
    ultimately show ?thesis
      using True by (auto simp: set_drop_window [OF 1(2)])
  next
    case False
    then have "inval_loop c w e = c" by (subst inval_loop.simps) simp
    moreover have "w \<le> w + int k * windowSize c" for k
      using 1(3) by simp
    then have "\<not> (w + int k * windowSize c < e)" for k
      using False by (metis linorder_not_le order_trans not_less)
    then have "\<not> (\<exists>k. s = w + int k * windowSize c \<and> s < e)" for s
      by blast
    with calculation show ?thesis by simp
  qed
qed

section \<open>Coherence\<close>

text \<open>
  The invariant: the list and the index agree, the list is within the LRU bound, and every
  cached window is aligned and holds the bytes the backing has there now.
\<close>

definition window_bytes :: "'s cache \<Rightarrow> bytes \<Rightarrow> int \<Rightarrow> bytes" where
  "window_bytes c d start =
     take (nat (if c_size c < start + windowSize c then c_size c - start else windowSize c))
       (drop (nat start) d)"

definition window_ok :: "'s cache \<Rightarrow> bytes \<Rightarrow> win_entry \<Rightarrow> bool" where
  "window_ok c d e =
     (0 \<le> w_start e \<and> w_start e < c_size c \<and> w_start e mod windowSize c = 0
      \<and> w_data e = window_bytes c d (w_start e))"

definition cache_inv ::
  "('s \<Rightarrow> int) \<Rightarrow> ('s \<Rightarrow> bytes) \<Rightarrow> ('s \<Rightarrow> bool) \<Rightarrow> 's cache \<Rightarrow> bool" where
  "cache_inv sz content good c =
     (good (c_r c) \<and> c_size c = sz (c_r c) \<and> 0 < windowSize c \<and> index_ok c
      \<and> length (lru c) \<le> maxWindows c
      \<and> (\<forall>x \<in> set (lru c). window_ok c (content (c_r c)) (snd x)))"

definition cache_content :: "('s \<Rightarrow> bytes) \<Rightarrow> 's cache \<Rightarrow> bytes" where
  "cache_content content c = take (nat (c_size c)) (content (c_r c))"

text \<open>What an operation of the cache leaves alone besides the content.\<close>

definition same_shape :: "'s cache \<Rightarrow> 's cache \<Rightarrow> bool" where
  "same_shape c c' =
     (c_size c' = c_size c \<and> windowSize c' = windowSize c \<and> c_writable c' = c_writable c
      \<and> maxWindows c' = maxWindows c)"

lemma same_shape_refl [simp]: "same_shape c c"
  by (simp add: same_shape_def)

lemma same_shape_trans: "same_shape a b \<Longrightarrow> same_shape b c \<Longrightarrow> same_shape a c"
  by (simp add: same_shape_def)

lemma window_ok_shape: "same_shape c c' \<Longrightarrow> window_ok c' d e = window_ok c d e"
  by (simp add: same_shape_def window_ok_def window_bytes_def)

lemma index_ok_fields:
  "lru c' = lru c \<Longrightarrow> index c' = index c \<Longrightarrow> fresh c' = fresh c \<Longrightarrow> index_ok c' = index_ok c"
  by (simp add: index_ok_def)

lemma index_ok_MoveToFront:
  "index_ok c \<Longrightarrow> index_ok (c\<lparr>lru := MoveToFront el (lru c), hits := h\<rparr>)"
  by (simp add: index_ok_def set_MoveToFront distinct_MoveToFront)

lemma window_store_ok:
  assumes inv: "cache_inv sz content good c" and none: "map_of (index c) start = None"
    and ok: "window_ok c (content (c_r c)) \<lparr>w_start = start, w_data = buf\<rparr>"
    and st: "window_store c start buf = (c', b)"
  shows "cache_inv sz content good c' \<and> same_shape c c' \<and> c_r c' = c_r c \<and> b = buf"
proof -
  let ?d = "c\<lparr>fetched := fetched c + int (length buf),
    lru := (fresh c, \<lparr>w_start = start, w_data = buf\<rparr>) # lru c,
    fresh := Suc (fresh c), index := AList.update start (fresh c) (index c)\<rparr>"
  have c': "c' = evict ?d" "b = buf"
    using st none by (auto simp: window_store_def Let_def)
  have "index_ok ?d"
    using inv none by (intro index_ok_push) (simp_all add: cache_inv_def)
  note ev = evict_ok [OF this]
  have shape: "same_shape c c'"
    using ev by (simp add: c' same_shape_def)
  moreover have "window_ok c (content (c_r c)) (snd x)" if "x \<in> set (lru c')" for x
    using that ev inv ok by (auto simp: c' cache_inv_def)
  ultimately show ?thesis
    using ev inv by (simp add: c' cache_inv_def window_ok_shape)
qed

context medium
begin

lemma window_ok_result:
  assumes inv: "cache_inv sz content good c"
    and start: "0 \<le> start" "start < c_size c" "start mod windowSize c = 0"
    and w: "window rd c start = (c', res)"
  shows "cache_inv sz content good c' \<and> same_shape c c' \<and> content (c_r c') = content (c_r c)
    \<and> (case res of Inr win \<Rightarrow> win = window_bytes c (content (c_r c)) start
        | Inl e \<Rightarrow> \<not> no_failure (Some e))"
proof (cases "map_of (index c) start")
  case (Some el)
  have ok: "index_ok c" using inv by (simp add: cache_inv_def)
  from index_ok_find [OF this Some] obtain e where
    e: "map_of (lru c) el = Some e" "w_start e = start" "(el, e) \<in> set (lru c)" by auto
  have dist: "distinct (map fst (lru c))"
    using ok by (simp add: index_ok_def)
  have c': "c' = c\<lparr>lru := MoveToFront el (lru c), hits := hits c + 1\<rparr>" "res = Inr (w_data e)"
    using w Some e by (auto simp: window_def entry_data_def)
  have "window_ok c (content (c_r c)) e"
    using inv e(3) by (fastforce simp: cache_inv_def)
  moreover have shape: "same_shape c c'"
    by (simp add: c' same_shape_def)
  moreover have "cache_inv sz content good c'"
    using inv index_ok_MoveToFront [OF ok] dist unfolding cache_inv_def window_ok_shape [OF shape]
    by (simp add: c' set_MoveToFront)
  ultimately show ?thesis
    using e(2) by (simp add: c' window_ok_def)
next
  case None
  let ?n = "if c_size c < start + windowSize c then c_size c - start else windowSize c"
  let ?c0 = "c\<lparr>misses := misses c + 1\<rparr>"
  obtain r' got err where rd: "rd (c_r c) (nat ?n) start = (r', got, err)"
    by (metis prod_cases3)
  have i: "good (c_r c)" using inv by (simp add: cache_inv_def)
  note keeps = rd_keeps [OF i rd]
  let ?c1 = "?c0\<lparr>c_r := r'\<rparr>"
  have shape: "same_shape c ?c1" by (simp add: same_shape_def)
  have inv1: "cache_inv sz content good ?c1"
    using inv keeps by (simp add: cache_inv_def index_ok_fields [of ?c1 c] window_ok_shape [OF shape])
  show ?thesis
  proof (cases "no_failure err")
    case False
    then obtain e where e: "err = Some e" by (cases err) auto
    have "c' = ?c1 \<and> res = Inl e"
      using w None rd False e by (simp add: window_def Let_def cong: if_cong)
    then show ?thesis
      using inv1 shape keeps False e by simp
  next
    case True
    then obtain b where b: "window_store ?c1 start got = (c', b)" "res = Inr b"
      using w None rd True by (auto simp: window_def Let_def cong: if_cong split: prod.splits)
    have got: "got = window_bytes c (content (c_r c)) start"
      using rd_done [OF i start(1) rd True] by (simp add: window_bytes_def)
    have "window_ok ?c1 (content (c_r ?c1)) \<lparr>w_start = start, w_data = got\<rparr>"
      using start keeps got by (simp add: window_ok_def window_bytes_def)
    from window_store_ok [OF inv1 _ this b(1)] None shape keeps b got show ?thesis
      by (auto intro: same_shape_trans)
  qed
qed

end

lemma window_bytes_split:
  fixes c :: "'s cache"
  assumes "0 < windowSize c" "0 \<le> pos" "pos < stop" "stop \<le> c_size c"
    and "c_size c \<le> int (length d)"
  defines "start \<equiv> pos - pos mod windowSize c"
  shows "nat (pos - start) < length (window_bytes c d start)"
    and "take k (drop (nat (pos - start)) (window_bytes c d start))
      = take (min k (length (window_bytes c d start) - nat (pos - start))) (drop (nat pos) d)"
    and "0 \<le> start" "start < c_size c" "start mod windowSize c = 0"
proof -
  let ?w = "windowSize c"
  have m: "0 \<le> pos mod ?w" "pos mod ?w < ?w" "pos mod ?w \<le> pos"
    using assms(1,2) by (auto intro: zmod_le_nonneg_dividend)
  then show s: "0 \<le> start" "start < c_size c"
    using assms(3,4) by (simp_all add: start_def)
  show "start mod ?w = 0"
    unfolding start_def by (metis mod_0 mod_diff_left_eq mod_diff_eq diff_self)
  have len: "length (window_bytes c d start) = nat (min (c_size c - start) ?w)"
    using s assms(5) by (auto simp: window_bytes_def min_def)
  have "pos - start < min (c_size c - start) ?w"
    using m assms(3,4) by (simp add: start_def min_def)
  then show "nat (pos - start) < length (window_bytes c d start)"
    unfolding len using m by (simp add: start_def)
  have "0 \<le> pos - start"
    using m by (simp add: start_def)
  then have eq: "nat (pos - start) + nat start = nat pos"
    using s by arith
  have "take k (drop i (take n (drop j d)))
      = take (min k (length (take n (drop j d)) - i)) (drop (i + j) d)" for i j n
    by (simp add: drop_take min_def)
  from this [of "nat (pos - start)" _ "nat start"]
  show "take k (drop (nat (pos - start)) (window_bytes c d start))
      = take (min k (length (window_bytes c d start) - nat (pos - start))) (drop (nat pos) d)"
    unfolding eq window_bytes_def .
qed

lemma take_drop_glue:
  assumes "0 \<le> pos" "ch = take (length ch) (drop (nat pos) d)"
  shows "ch @ take k (drop (nat (pos + int (length ch))) d) = take (length ch + k) (drop (nat pos) d)"
proof -
  have "nat (pos + int (length ch)) = length ch + nat pos"
    using assms(1) by arith
  then show ?thesis
    unfolding take_add drop_drop by (simp only:) (rule arg_cong2 [where f = append, OF assms(2) refl])
qed

lemma nat_diff_int: "nat (a - (b + int m)) = nat (a - b) - m"
  by arith

context medium
begin

lemma cache_inv_size:
  "cache_inv sz content good c \<Longrightarrow> 0 \<le> c_size c \<and> c_size c \<le> int (length (content (c_r c)))"
  using sz_content [of "c_r c"] by (simp add: cache_inv_def)

text \<open>One window's part of a read, then the loop over all of them.\<close>

lemma cache_read_loop_ok:
  assumes "cache_inv sz content good c" "0 \<le> pos" "stop \<le> c_size c"
    and "cache_read_loop rd c pos stop acc = (c', out, err)"
  shows "cache_inv sz content good c' \<and> same_shape c c' \<and> content (c_r c') = content (c_r c)
    \<and> (\<exists>k. out = acc @ take k (drop (nat pos) (content (c_r c))) \<and> k \<le> nat (stop - pos)
        \<and> (err = None \<longrightarrow> k = nat (stop - pos)))
    \<and> (\<forall>e. err = Some e \<longrightarrow> \<not> no_failure (Some e))"
  using assms
proof (induction "nat (stop - pos)" arbitrary: c pos acc rule: less_induct)
  case less
  note pre = less(2-5)
  show ?case
  proof (cases "pos < stop")
    case False
    then have "c' = c \<and> out = acc \<and> err = None"
      using pre(4) by (subst (asm) cache_read_loop.simps) simp
    then show ?thesis using pre(1) False by (auto intro: exI [of _ 0])
  next
    case True
    let ?st = "pos - pos mod windowSize c"
    have ws: "0 < windowSize c" using pre(1) by (simp add: cache_inv_def)
    have cs: "c_size c \<le> int (length (content (c_r c)))"
      using cache_inv_size [OF pre(1)] by simp
    note split = window_bytes_split [OF ws pre(2) True pre(3) cs]
    obtain c1 res where w: "window rd c ?st = (c1, res)" by force
    note wok = window_ok_result [OF pre(1) split(3,4,5) w]
    show ?thesis
    proof (cases res)
      case (Inl x)
      then have "c' = c1 \<and> out = acc \<and> err = Some x"
        using pre(4) True w pre(2) by (subst (asm) cache_read_loop.simps) simp
      then show ?thesis using wok Inl by auto
    next
      case (Inr win)
      let ?in = "nat (pos - ?st)"
      let ?chunk = "take (nat (stop - pos)) (drop ?in win)"
      have win: "win = window_bytes c (content (c_r c)) ?st"
        using wok Inr by simp
      have chunk: "?chunk = take (min (nat (stop - pos)) (length win - ?in)) (drop (nat pos) (content (c_r c)))"
        and inwin: "?in < length win"
        unfolding win by (rule split)+
      have lc: "length ?chunk = min (nat (stop - pos)) (length win - ?in)" by simp
      have ne: "?chunk \<noteq> []"
        using inwin True by simp
      have loop: "cache_read_loop rd c1 (pos + int (length ?chunk)) stop (acc @ ?chunk) = (c', out, err)"
        using pre(4) True w pre(2) Inr inwin ne
        by (subst (asm) cache_read_loop.simps) (simp add: Let_def)
      have bound: "0 \<le> pos + int (length ?chunk)" "stop \<le> c_size c1"
        using pre wok by (simp_all add: same_shape_def)
      have gi: "cache_inv sz content good c1"
        using wok by simp
      have "nat (stop - (pos + int (length ?chunk))) < nat (stop - pos)"
        using ne True by (cases ?chunk) auto
      from less(1) [OF this gi bound loop] wok
      have ih: "cache_inv sz content good c'" "same_shape c c'"
          "content (c_r c') = content (c_r c)" "\<forall>e. err = Some e \<longrightarrow> \<not> no_failure (Some e)"
        and "\<exists>k. out = (acc @ ?chunk) @ take k (drop (nat (pos + int (length ?chunk))) (content (c_r c)))
          \<and> k \<le> nat (stop - (pos + int (length ?chunk)))
          \<and> (err = None \<longrightarrow> k = nat (stop - (pos + int (length ?chunk))))"
        by (auto intro: same_shape_trans)
      then obtain k where k:
        "out = (acc @ ?chunk) @ take k (drop (nat (pos + int (length ?chunk))) (content (c_r c)))"
        "k \<le> nat (stop - (pos + int (length ?chunk)))"
        "err = None \<longrightarrow> k = nat (stop - (pos + int (length ?chunk)))"
        by blast
      let ?n = "length ?chunk"
      have c': "?chunk = take ?n (drop (nat pos) (content (c_r c)))"
        using chunk lc by metis
      have "out = acc @ take (?n + k) (drop (nat pos) (content (c_r c)))"
        unfolding k(1) append_assoc take_drop_glue [OF pre(2) c'] ..
      moreover have "?n \<le> nat (stop - pos)"
        by simp
      then have "?n + k \<le> nat (stop - pos)" "err = None \<longrightarrow> ?n + k = nat (stop - pos)"
        using k(2,3) unfolding nat_diff_int by linarith+
      ultimately show ?thesis
        using ih by blast
    qed
  qed
qed

lemma cache_ReadAt_ok:
  assumes inv: "cache_inv sz content good c" and rd: "cache_ReadAt rd c n off = (c', got, err)"
  shows "cache_inv sz content good c' \<and> same_shape c c' \<and> content (c_r c') = content (c_r c)
    \<and> (0 \<le> off \<longrightarrow> got = take (length got) (take n (drop (nat off) (cache_content content c))))
    \<and> (0 \<le> off \<longrightarrow> no_failure err \<longrightarrow> got = take n (drop (nat off) (cache_content content c)))
    \<and> (err = None \<longrightarrow> length got = n)"
proof (cases "off < 0 \<or> c_size c \<le> off")
  case True
  then show ?thesis
    using inv rd by (auto simp: cache_ReadAt_def cache_content_def no_failure_def split: if_splits)
next
  case False
  let ?d = "content (c_r c)"
  let ?stop = "if c_size c < off + int n then c_size c else off + int n"
  obtain x e where loop: "cache_read_loop rd c off ?stop [] = (c', x, e)" and x: "got = x"
    and err: "err = (case e of Some e \<Rightarrow> Some e
      | None \<Rightarrow> if length got < n then Some EOF else None)"
    using False rd by (auto simp: cache_ReadAt_def Let_def split: prod.splits option.splits)
  have bounds: "0 \<le> off" "?stop \<le> c_size c" using False by auto
  note ok = cache_read_loop_ok [OF inv bounds loop]
  then obtain k where k: "got = take k (drop (nat off) ?d)" "k \<le> nat (?stop - off)"
    "e = None \<longrightarrow> k = nat (?stop - off)"
    by (auto simp: x)
  have cs: "c_size c \<le> int (length ?d)" using cache_inv_size [OF inv] by simp
  have m: "nat (?stop - off) = min n (nat (c_size c) - nat off)"
    using False by auto
  have full: "take n (drop (nat off) (cache_content content c)) = take (nat (?stop - off)) (drop (nat off) ?d)"
    unfolding m cache_content_def by (simp add: drop_take)
  have lg: "length got = k"
  proof -
    have "k \<le> length ?d - nat off"
      using k(2) m cs False by linarith
    then show ?thesis by (simp add: k(1))
  qed
  have none: "e = None" if "no_failure err"
    using that ok err by (auto split: option.splits)
  have pre: "got = take (length got) (take n (drop (nat off) (cache_content content c)))"
    unfolding full lg using k(1,2) by (simp add: min_def)
  have len: "length got = n" if "err = None"
  proof -
    from that err have "\<not> length got < n" by (auto split: option.splits if_splits)
    with k(2) m lg show ?thesis by simp
  qed
  show ?thesis
  proof (intro conjI impI)
    show "got = take n (drop (nat off) (cache_content content c))" if "no_failure err"
      using none [OF that] k(1,3) full by simp
  qed (use ok pre len in blast)+
qed

end

text \<open>A window that the invalidation loop leaves does not meet the written range.\<close>

lemma kept_window_disjoint:
  assumes "0 < ws" "0 \<le> s" "s mod ws = 0"
    and "\<not> (\<exists>k. s = (off - go_rem off ws) + int k * ws \<and> s < stop)"
  shows "stop \<le> s \<or> s + ws \<le> off"
proof (rule ccontr)
  assume neg: "\<not> ?thesis"
  let ?w = "off - go_rem off ws"
  have rem: "?w mod ws = 0"
  proof (cases "off < 0")
    case True
    then have "?w = - ((- off) - (- off) mod ws)" by (simp add: go_rem_def)
    moreover have "((- off) - (- off) mod ws) mod ws = 0" by simp
    ultimately show ?thesis by (metis mod_minus_eq minus_zero mod_0)
  next
    case False
    then show ?thesis by simp
  qed
  have "?w \<le> s"
  proof (cases "off < 0")
    case True
    have "(- off) mod ws \<le> - off" using True assms(1) by (simp add: zmod_le_nonneg_dividend)
    then have "?w \<le> 0" using True by (simp add: go_rem_def)
    with assms(2) show ?thesis by simp
  next
    case False
    obtain a where a: "s = ws * a" using assms(3) by auto
    obtain b where b: "?w = ws * b" using rem by auto
    have "off mod ws < ws" "0 \<le> off mod ws" using assms(1) by auto
    then have "?w < s + ws" using neg False by simp
    then have "ws * b < ws * (a + 1)" by (simp add: a b algebra_simps)
    then have "b \<le> a" using assms(1) by simp
    then show ?thesis using assms(1) by (simp add: a b)
  qed
  moreover have "(s - ?w) mod ws = 0" using assms(3) rem by (metis diff_zero mod_diff_eq mod_0)
  then obtain k where k: "s - ?w = ws * k" by auto
  ultimately have "0 \<le> k" using assms(1) by (metis diff_ge_0_iff_ge not_less zero_le_mult_iff)
  with k have "s = ?w + int (nat k) * ws" by (simp add: algebra_simps)
  moreover have "s < stop" using neg by simp
  ultimately have "\<exists>k. s = ?w + int k * ws \<and> s < stop" by (intro exI [of _ "nat k"] conjI)
  with assms(4) show False ..
qed

context writable_medium
begin

lemma window_bytes_frame:
  assumes "good s" "wr s p off = (s', n, err)" "c_size c \<le> int (length (content s))"
    and "0 \<le> st" "st < c_size c" "0 < windowSize c"
    and "\<And>i. st \<le> i \<Longrightarrow> i < st + windowSize c \<Longrightarrow> i < off \<or> off + int (length p) \<le> i"
  shows "window_bytes c (content s') st = window_bytes c (content s) st"
proof -
  let ?n = "if c_size c < st + windowSize c then c_size c - st else windowSize c"
  have n: "0 \<le> ?n" "st + ?n \<le> c_size c" "?n \<le> windowSize c"
    using assms by auto
  have "slice (nat st) (nat (st + ?n)) (content s') = slice (nat st) (nat (st + ?n)) (content s)"
    using assms n by (intro wr_slice_frame [OF assms(1,2)]) auto
  moreover have "nat (st + ?n) - nat st = nat ?n"
    using assms(4) n(1) by simp
  ultimately show ?thesis
    by (simp only: slice_def window_bytes_def)
qed

lemma cache_WriteAt_ok:
  assumes inv: "cache_inv sz content good c" and w: "cache_WriteAt wr c p off = (c', n, err)"
  shows "cache_inv sz content good c' \<and> same_shape c c'
    \<and> ((c' = c \<and> n = 0 \<and> err \<noteq> None) \<or> wr (c_r c) p off = (c_r c', n, err))"
proof (cases "c_writable c")
  case False
  then show ?thesis using inv w by (auto simp: cache_WriteAt_def)
next
  case True
  obtain r' where wr: "wr (c_r c) p off = (r', n, err)"
      and c': "c' = invalidate (c\<lparr>c_r := r'\<rparr>) off (int (length p))"
    using w True by (auto simp: cache_WriteAt_def split: prod.splits)
  let ?c = "c\<lparr>c_r := r'\<rparr>"
  let ?w = "off - go_rem off (windowSize c)"
  have g: "good (c_r c)" "0 < windowSize c" using inv by (simp_all add: cache_inv_def)
  note keeps = wr_keeps [OF g(1) wr]
  have cs: "c_size c \<le> int (length (content (c_r c)))"
    using cache_inv_size [OF inv] by simp
  have ok: "index_ok ?c"
    using inv by (simp add: cache_inv_def index_ok_fields [of ?c c])
  have loop: "c_r c' = r' \<and> c_size c' = c_size c \<and> windowSize c' = windowSize c
      \<and> maxWindows c' = maxWindows c \<and> c_writable c' = c_writable c
      \<and> length (lru c') \<le> length (lru c) \<and> index_ok c'"
    using ok inval_loop_keeps [of ?c ?w "off + int (length p)"] by (simp add: c' invalidate_def)
  then have shape: "same_shape c c'" by (simp add: same_shape_def)
  have left: "x \<in> set (lru c) \<and> (i < off \<or> off + int (length p) \<le> i)"
    if "x \<in> set (lru c')" "w_start (snd x) \<le> i" "i < w_start (snd x) + windowSize c" for x i
  proof (cases "p = []")
    case True
    with that(1) show ?thesis by (auto simp: c' invalidate_def)
  next
    case False
    then have x: "x \<in> set (lru c)"
      and k: "\<not> (\<exists>k. w_start (snd x) = ?w + int k * windowSize c \<and> w_start (snd x) < off + int (length p))"
      using that(1) set_inval_loop [OF ok, of ?w "off + int (length p)"] g(2)
      by (auto simp: c' invalidate_def)
    have "0 \<le> w_start (snd x)" "w_start (snd x) mod windowSize c = 0"
      using x inv by (auto simp: cache_inv_def window_ok_def)
    from kept_window_disjoint [OF g(2) this k] have "off + int (length p) \<le> w_start (snd x) \<or> w_start (snd x) + windowSize c \<le> off"
      .
    with x that(2,3) show ?thesis by linarith
  qed
  have "window_ok c (content r') (snd x)" if x: "x \<in> set (lru c')" for x
  proof -
    have "x \<in> set (lru c)"
      using left [OF x, of "w_start (snd x)"] g(2) by simp
    then have "window_ok c (content (c_r c)) (snd x)"
      using inv by (simp add: cache_inv_def)
    moreover from this have "window_bytes c (content r') (w_start (snd x))
        = window_bytes c (content (c_r c)) (w_start (snd x))"
      using left [OF x] g(2) by (intro window_bytes_frame [OF g(1) wr cs]) (auto simp: window_ok_def)
    ultimately show ?thesis by (simp add: window_ok_def)
  qed
  then have "cache_inv sz content good c'"
    using inv keeps loop by (simp add: cache_inv_def window_ok_shape [OF shape])
  with shape wr loop show ?thesis by simp
qed

end

section \<open>The cache as a medium\<close>

text \<open>
  A cache in front of a medium is a medium with the same bytes, cut at the size the backing
  reported when the cache was made; in front of a writable medium, a writable one.
\<close>

locale cached_medium = medium

sublocale cached_medium \<subseteq> cached:
  medium "cache_ReadAt rd" cache_Size "cache_content content" "cache_inv sz content good"
proof unfold_locales
  fix c c' :: "'a cache" and n off got err
  assume inv: "cache_inv sz content good c"
  show "0 \<le> cache_Size c \<and> cache_Size c \<le> int (length (cache_content content c))"
    using cache_inv_size [OF inv] by (auto simp: cache_Size_def cache_content_def)
  {
    assume rd: "cache_ReadAt rd c n off = (c', got, err)"
    note ok = cache_ReadAt_ok [OF inv rd]
    show "cache_inv sz content good c' \<and> cache_Size c' = cache_Size c
        \<and> cache_content content c' = cache_content content c"
      using ok by (simp add: cache_Size_def cache_content_def same_shape_def)
    show "got = take (length got) (take n (drop (nat off) (cache_content content c)))" if "0 \<le> off"
      using ok that by blast
    show "got = take n (drop (nat off) (cache_content content c))" if "0 \<le> off" "no_failure err"
      using ok that by blast
  }
  show "length got = n" if "cache_ReadAt rd c n off = (c', got, None)"
    using cache_ReadAt_ok [OF inv that] by blast
qed

locale cached_writable = writable_medium

sublocale cached_writable \<subseteq> cached_medium ..

sublocale cached_writable \<subseteq> cached:
  writable_medium "cache_ReadAt rd" cache_Size "cache_content content" "cache_inv sz content good"
    "cache_WriteAt wr"
proof unfold_locales
  fix c c' :: "'a cache" and p off n err i
  assume inv: "cache_inv sz content good c" and w: "cache_WriteAt wr c p off = (c', n, err)"
  have g: "good (c_r c)" using inv by (simp add: cache_inv_def)
  note ok = cache_WriteAt_ok [OF inv w]
  have keeps: "length (content (c_r c)) \<le> length (content (c_r c'))"
    using ok wr_keeps [OF g] by auto
  show "cache_inv sz content good c' \<and> cache_Size c' = cache_Size c
      \<and> length (cache_content content c) \<le> length (cache_content content c')"
    using ok keeps by (auto simp: cache_Size_def cache_content_def same_shape_def)
  show "cache_content content c' ! i = cache_content content c ! i"
    if "i < length (cache_content content c)" "int i < off \<or> off + int (length p) \<le> int i"
    using that ok wr_frame [OF g, of p off "c_r c'" n err i]
    by (auto simp: cache_content_def same_shape_def)
  show "n \<le> length p"
    using ok wr_count [OF g] by auto
next
  fix c c' :: "'a cache" and p off n
  assume inv: "cache_inv sz content good c" and off: "0 \<le> off" "off + int (length p) \<le> cache_Size c"
    and w: "cache_WriteAt wr c p off = (c', n, None)"
  have g: "good (c_r c)" and size: "c_size c = sz (c_r c)" using inv by (simp_all add: cache_inv_def)
  have ok: "same_shape c c'" "wr (c_r c) p off = (c_r c', n, None)"
    using cache_WriteAt_ok [OF inv w] by auto
  have "length p \<le> nat (c_size c') - nat off"
    using off ok(1) by (simp add: cache_Size_def same_shape_def)
  then show "n = length p \<and> take (length p) (drop (nat off) (cache_content content c')) = p"
    using wr_done [OF g off(1) _ ok(2)] off(2) size
    by (simp add: cache_content_def cache_Size_def drop_take min_def)
qed

interpretation filecache: cached_writable file_ReadAt file_Size f_data file_inv file_WriteAt ..

section \<open>Runs over a file\<close>

datatype cache_op = Read nat int | Write bytes int

fun run_ops :: "'s read_at \<Rightarrow> 's write_at \<Rightarrow> cache_op list \<Rightarrow> 's cache \<Rightarrow> 's cache" where
  "run_ops rd wr [] c = c"
| "run_ops rd wr (Read n off # ops) c = run_ops rd wr ops (fst (cache_ReadAt rd c n off))"
| "run_ops rd wr (Write p off # ops) c = run_ops rd wr ops (fst (cache_WriteAt wr c p off))"

context cached_writable
begin

lemma run_ops_inv:
  "cache_inv sz content good c \<Longrightarrow>
   cache_inv sz content good (run_ops rd wr ops c) \<and> same_shape c (run_ops rd wr ops c)"
proof (induction ops arbitrary: c)
  case (Cons op ops)
  obtain d where d: "run_ops rd wr (op # ops) c = run_ops rd wr ops d"
    and inv: "cache_inv sz content good d" and shape: "same_shape c d"
  proof (cases op)
    case (Read n off)
    obtain d x where "cache_ReadAt rd c n off = (d, x)" by (metis surj_pair)
    with cache_ReadAt_ok [OF Cons.prems, of n off d "fst x" "snd x"] Read that [of d]
    show ?thesis by simp
  next
    case (Write p off)
    obtain d x where "cache_WriteAt wr c p off = (d, x)" by (metis surj_pair)
    with cache_WriteAt_ok [OF Cons.prems, of p off d "fst x" "snd x"] Write that [of d]
    show ?thesis by simp
  qed
  from Cons.IH [OF inv] shape show ?case
    unfolding d by (blast intro: same_shape_trans)
qed simp

lemma run_ops_NewCache:
  assumes "good s" and c: "c = run_ops rd wr ops (NewCache sz s w)"
  shows "cache_inv sz content good c \<and> c_size c = sz s \<and> maxWindows c = defaultMaxWindows"
proof -
  have "cache_inv sz content good (NewCache sz s w)"
    using assms by (simp add: cache_inv_def NewCache_def index_ok_def WindowSize_def)
  from run_ops_inv [OF this, of ops] show ?thesis
    by (simp add: c same_shape_def) (simp add: NewCache_def)
qed

end

text \<open>The index keeps at most one window per start.\<close>

lemma index_ok_distinct: "index_ok c \<Longrightarrow> distinct (map (w_start \<circ> snd) (lru c))"
proof -
  assume ok: "index_ok c"
  have "inj_on (w_start \<circ> snd) (set (lru c))"
  proof (rule inj_onI)
    fix x y
    assume xy: "x \<in> set (lru c)" "y \<in> set (lru c)" and eq: "(w_start \<circ> snd) x = (w_start \<circ> snd) y"
    then have "fst x = fst y"
      using index_ok_entry [OF ok, of "fst x" "snd x"] index_ok_entry [OF ok, of "fst y" "snd y"] by simp
    with index_ok_unique [OF ok, of "fst x" "snd x" "snd y"] xy show "x = y"
      by (cases x; cases y) auto
  qed
  moreover have "distinct (lru c)"
    using ok by (auto simp: index_ok_def distinct_map)
  ultimately show ?thesis by (simp add: distinct_map)
qed

lemma evict_take:
  "index_ok c \<Longrightarrow> lru (evict c) = take (maxWindows c) (lru c)"
proof (induction c rule: evict.induct)
  case (1 c)
  show ?case
  proof (cases "length (index c) \<le> maxWindows c \<or> lru c = []")
    case True
    then have "evict c = c" by (subst evict.simps) simp
    with True 1(2) show ?thesis by (auto simp: index_ok_length)
  next
    case False
    obtain el e where last: "last (lru c) = (el, e)" by force
    with False have l: "lru c = butlast (lru c) @ [(el, e)]"
      using append_butlast_last_id [of "lru c"] by simp
    let ?d = "c\<lparr>lru := butlast (lru c), index := AList.delete (w_start e) (index c)\<rparr>"
    have "evict c = evict ?d"
      using False last by (subst evict.simps) simp
    moreover have "index_ok ?d"
      using 1(2) l by (rule index_ok_pop)
    moreover have "take (maxWindows c) (butlast (lru c)) = take (maxWindows c) (lru c)"
      using False index_ok_length [OF 1(2)] by (subst (2) l) simp
    ultimately show ?thesis
      using 1(1) [OF False last [symmetric] refl] by simp
  qed
qed

text \<open>
  C8. A cache over a file reads exactly what the file holds: after any sequence of reads and
  writes through a new cache, a read that reports no failure returns the bytes the file has
  then, cut at the medium's size, whatever windows are cached, evicted or invalidated; and
  the cache never holds more than 64 windows, nor two of the same start.
\<close>

theorem cache_coherent_run:
  assumes "file_inv f" "c = run_ops file_ReadAt file_WriteAt ops (NewCache file_Size f w)"
    and "cache_ReadAt file_ReadAt c n off = (c', got, err)" "0 \<le> off" "no_failure err"
  shows "got = take n (drop (nat off) (take (f_size f) (f_data (c_r c))))
    \<and> f_data (c_r c') = f_data (c_r c)
    \<and> length (lru c') \<le> 64 \<and> distinct (map (w_start \<circ> snd) (lru c'))"
proof -
  note c = filecache.run_ops_NewCache [OF assms(1,2)]
  then have inv: "cache_inv file_Size f_data file_inv c" and size: "c_size c = int (f_size f)"
    by (simp_all add: file_Size_def)
  note rd = fileio.cache_ReadAt_ok [OF inv assms(3)]
  show ?thesis
    using rd assms(4,5) c index_ok_distinct [of c']
    by (simp add: cache_content_def size) (simp add: cache_inv_def same_shape_def defaultMaxWindows_def)
qed

lemma cache_coherent_run_witness:
  "let f = \<lparr>f_data = [1, 2, 3], f_writable = True, f_faults = [], f_size = 3\<rparr>;
       c = run_ops file_ReadAt file_WriteAt [Read 2 0, Write [9] 1] (NewCache file_Size f True)
   in fst (snd (cache_ReadAt file_ReadAt c 3 0)) = [1, 9, 3]"
proof -
  let ?f = "\<lparr>f_data = [1, 2, 3], f_writable = True, f_faults = [], f_size = 3\<rparr>"
  let ?c = "run_ops file_ReadAt file_WriteAt [Read 2 0, Write [9] 1] (NewCache file_Size ?f True)"
  have "file_inv ?f" by (simp add: file_inv_def)
  moreover have "no_failure (snd (snd (cache_ReadAt file_ReadAt ?c 3 0)))"
    and data: "f_data (c_r ?c) = [1, 9, 3]"
    by code_simp+
  moreover obtain c' got err where rd: "cache_ReadAt file_ReadAt ?c 3 0 = (c', got, err)"
    by (metis prod_cases3)
  ultimately have "got = take 3 (drop (nat 0) (take (f_size ?f) (f_data (c_r ?c))))"
    using cache_coherent_run [OF _ refl rd] by auto
  then show ?thesis
    unfolding Let_def rd data by simp
qed

text \<open>
  C9. What is written through the cache is read back: after a write that succeeded inside
  the medium, a read of the same range that reports no failure returns the bytes written,
  and a read of a range the write did not touch returns what it would have returned before.
\<close>

theorem cache_read_after_write:
  assumes "file_inv f" "c = run_ops file_ReadAt file_WriteAt ops (NewCache file_Size f True)"
    and "cache_WriteAt file_WriteAt c p off = (c1, k, None)"
    and "0 \<le> off" "off + int (length p) \<le> int (f_size f)"
    and "cache_ReadAt file_ReadAt c1 n pos = (c2, got, err)" "0 \<le> pos" "no_failure err"
  shows "(pos = off \<and> n = length p \<longrightarrow> got = p)
    \<and> (pos + int n \<le> off \<or> off + int (length p) \<le> pos \<longrightarrow>
        got = take n (drop (nat pos) (take (f_size f) (f_data (c_r c)))))"
proof -
  note c = filecache.run_ops_NewCache [OF assms(1,2)]
  then have inv: "cache_inv file_Size f_data file_inv c" and size: "c_size c = int (f_size f)"
    by (simp_all add: file_Size_def)
  note w = filecache.cached.wr_keeps [OF inv assms(3)]
  then have inv1: "cache_inv file_Size f_data file_inv c1" by simp
  note got = filecache.cached.rd_done [OF inv1 assms(7,6,8)]
  have "got = p" if "pos = off" "n = length p"
    using filecache.cached.wr_done [OF inv assms(4) _ assms(3)] assms(5) got that
    by (simp add: cache_Size_def size)
  moreover have "got = take n (drop (nat pos) (cache_content f_data c))"
    if "pos + int n \<le> off \<or> off + int (length p) \<le> pos"
  proof -
    have "length (cache_content f_data x) = nat (cache_Size x)"
      if "cache_inv file_Size f_data file_inv x" for x
      using fileio.cache_inv_size [OF that] by (auto simp: cache_content_def cache_Size_def)
    with inv inv1 w have eq: "length (cache_content f_data c1) = length (cache_content f_data c)"
      by simp
    show ?thesis unfolding got
      by (rule nth_equalityI) (use that eq filecache.cached.wr_frame [OF inv assms(3)] assms(7) in auto)
  qed
  ultimately show ?thesis
    by (simp add: cache_content_def size)
qed

lemma cache_read_after_write_witness:
  "let f = \<lparr>f_data = [1, 2, 3, 4], f_writable = True, f_faults = [], f_size = 4\<rparr>;
       c = run_ops file_ReadAt file_WriteAt [Read 4 0] (NewCache file_Size f True);
       c1 = fst (cache_WriteAt file_WriteAt c [8, 9] 1)
   in fst (snd (cache_ReadAt file_ReadAt c1 2 1)) = [8, 9]"
proof -
  let ?f = "\<lparr>f_data = [1, 2, 3, 4], f_writable = True, f_faults = [], f_size = 4\<rparr>"
  let ?c = "run_ops file_ReadAt file_WriteAt [Read 4 0] (NewCache file_Size ?f True)"
  let ?c1 = "fst (cache_WriteAt file_WriteAt ?c [8, 9] 1)"
  have f: "file_inv ?f" by (simp add: file_inv_def)
  have ok: "no_failure (snd (snd (cache_ReadAt file_ReadAt ?c1 2 1)))"
    and "snd (snd (cache_WriteAt file_WriteAt ?c [8, 9] 1)) = None"
    by code_simp+
  then obtain k where w: "cache_WriteAt file_WriteAt ?c [8, 9] 1 = (?c1, k, None)"
    by (metis prod.collapse)
  obtain c2 got err where rd: "cache_ReadAt file_ReadAt ?c1 2 1 = (c2, got, err)"
    by (metis prod_cases3)
  have "got = [8, 9]"
    using cache_read_after_write [OF f refl w _ _ rd] ok unfolding rd by simp
  then show ?thesis
    unfolding Let_def rd by simp
qed

lemma index_ok_element:
  assumes "index_ok c" "map_of (index c) start = Some el" "x \<in> set (lru c)"
  shows "fst x = el \<longleftrightarrow> w_start (snd x) = start"
proof -
  from index_ok_find [OF assms(1,2)] obtain e where
    e: "w_start e = start" "(el, e) \<in> set (lru c)" by auto
  obtain a y where x: "x = (a, y)" by force
  show ?thesis
  proof (cases "w_start y = start")
    case True
    with index_ok_entry [OF assms(1), of a y] assms(2,3) x show ?thesis by simp
  next
    case False
    with index_ok_unique [OF assms(1) e(2), of y] assms(3) x e(1) show ?thesis by auto
  qed
qed

text \<open>Taking an element out of the list takes out the window it stands for.\<close>

lemma delete_window:
  assumes "index_ok c" "map_of (index c) start = Some el"
  shows "map snd (AList.delete el (lru c)) = filter (\<lambda>e. w_start e \<noteq> start) (map snd (lru c))"
proof -
  have "fst x \<noteq> el \<longleftrightarrow> w_start (snd x) \<noteq> start" if "x \<in> set (lru c)" for x
    using index_ok_element [OF assms that] by simp
  then show ?thesis
    by (auto simp: AList.delete_eq filter_map o_def split_def intro!: arg_cong [where f = "map snd"] filter_cong)
qed

text \<open>
  C12. Looking a window up keeps the list in least-recently-used order: the window asked for
  moves or is pushed to the front, the others keep their order, and what exceeds the
  capacity is dropped from the back; the data returned is the front entry's.
\<close>

theorem window_lru_order:
  assumes "index_ok c" "length (lru c) \<le> maxWindows c" "0 < maxWindows c"
    and "window rd c start = (c', Inr win)"
  shows "map snd (lru c') = take (maxWindows c)
    (\<lparr>w_start = start, w_data = win\<rparr> # filter (\<lambda>e. w_start e \<noteq> start) (map snd (lru c)))"
proof (cases "map_of (index c) start")
  case (Some el)
  from index_ok_find [OF assms(1) Some] obtain e where
    e: "map_of (lru c) el = Some e" "w_start e = start" "(el, e) \<in> set (lru c)" by auto
  have c': "lru c' = (el, e) # AList.delete el (lru c)" "win = w_data e"
    using assms(4) Some e(1) by (auto simp: window_def MoveToFront_def entry_data_def)
  note del = delete_window [OF assms(1) Some]
  have "length (AList.delete el (lru c)) < length (lru c)"
    unfolding AList.delete_eq by (rule length_filter_less [OF e(3)]) simp
  then have "length (map snd (AList.delete el (lru c))) < maxWindows c"
    using assms(2) by simp
  then have "length (filter (\<lambda>e. w_start e \<noteq> start) (map snd (lru c))) < maxWindows c"
    unfolding del .
  then have "take (maxWindows c) (e # filter (\<lambda>e. w_start e \<noteq> start) (map snd (lru c)))
      = e # filter (\<lambda>e. w_start e \<noteq> start) (map snd (lru c))"
    by (cases "maxWindows c") simp_all
  moreover have "e = \<lparr>w_start = start, w_data = win\<rparr>"
    using e(2) c'(2) by simp
  ultimately show ?thesis
    by (simp only: c'(1) list.map snd_conv del)
next
  case None
  then have "w_start (snd x) \<noteq> start" if "x \<in> set (lru c)" for x
    using index_ok_none [OF assms(1)] that by blast
  then have all: "filter (\<lambda>e. w_start e \<noteq> start) (map snd (lru c)) = map snd (lru c)"
    by (auto simp: filter_id_conv)
  obtain r' got err where rd: "rd (c_r c) (nat (if c_size c < start + windowSize c
      then c_size c - start else windowSize c)) start = (r', got, err)"
    by (metis prod_cases3)
  let ?c1 = "c\<lparr>misses := misses c + 1, c_r := r'\<rparr>"
  have st: "window_store ?c1 start got = (c', win)"
    using assms(4) None rd by (auto simp: window_def Let_def cong: if_cong split: if_splits prod.splits)
  let ?d = "?c1\<lparr>fetched := fetched c + int (length got),
    lru := (fresh c, \<lparr>w_start = start, w_data = got\<rparr>) # lru c,
    fresh := Suc (fresh c), index := AList.update start (fresh c) (index c)\<rparr>"
  have c': "c' = evict ?d" "win = got"
    using st None by (auto simp: window_store_def Let_def)
  have "index_ok ?c1" using assms(1) by (simp add: index_ok_fields [of ?c1 c])
  then have "index_ok ?d"
    using index_ok_push [of ?c1 start] None by simp
  then show ?thesis
    by (simp add: c' evict_take all flip: take_map)
qed
lemma window_lru_order_witness:
  "let f = \<lparr>f_data = [1, 2, 3], f_writable = True, f_faults = [], f_size = 3\<rparr>;
       c = NewCache file_Size f True
   in map snd (lru (fst (window file_ReadAt c 0))) = [\<lparr>w_start = 0, w_data = [1, 2, 3]\<rparr>]"
proof -
  let ?f = "\<lparr>f_data = [1, 2, 3], f_writable = True, f_faults = [], f_size = 3\<rparr>"
  let ?c = "NewCache file_Size ?f True"
  have c: "lru ?c = []" "maxWindows ?c = 64" "index_ok ?c"
    by (simp_all add: NewCache_def defaultMaxWindows_def index_ok_def)
  have "snd (window file_ReadAt ?c 0) = Inr [1, 2, 3]"
    by code_simp
  then obtain c' where w: "window file_ReadAt ?c 0 = (c', Inr [1, 2, 3])"
    by (metis prod.collapse)
  show ?thesis
    using window_lru_order [OF c(3) _ _ w] c by (simp add: Let_def w)
qed

end
