(* ===== verification/Iusb.thy ===== *)
theory Iusb
  imports GoIO GoStrings
begin

text \<open>
  The IUSB packets of virtual media (\<^verbatim>\<open>internal/kvm/vmedia/iusb.go\<close>), the authentication
  handshake (\<^verbatim>\<open>auth.go\<close>) and the framing of packets on the connection (\<^verbatim>\<open>readPacket\<close> and
  \<^verbatim>\<open>writeResponse\<close> of \<^verbatim>\<open>session.go\<close>).
\<close>

section \<open>Constants\<close>

definition HeaderLen :: nat where "HeaderLen = 32"

definition signature :: bytes where "signature = go_string ''IUSB    ''"

definition iusbMajor :: u8 where "iusbMajor = 1"
definition iusbMinor :: u8 where "iusbMinor = 0"
definition DeviceCDROM :: u8 where "DeviceCDROM = 5"
definition PortCD :: int where "PortCD = 5120"
definition PortFD :: int where "PortFD = 5122"
definition PortHD :: int where "PortHD = 5123"
definition OpAuth :: u8 where "OpAuth = 0xF2"
definition OpRedirectAck :: nat where "OpRedirectAck = 0xF1"
definition OpKillRedir :: nat where "OpKillRedir = 0xF6"
definition OpStartStopUnit :: nat where "OpStartStopUnit = 0x1B"
definition envOffDataLen :: nat where "envOffDataLen = 0"
definition envOffRespLen :: nat where "envOffRespLen = 25"
definition opcodeOffset :: nat where "opcodeOffset = 9"
definition ejectByteOffset :: nat where "ejectByteOffset = 13"
definition connStatusOffset :: nat where "connStatusOffset = 30"
definition authTokenOffset :: nat where "authTokenOffset = 31"
definition authPayloadLen :: nat where "authPayloadLen = 128"
definition connOK :: u8 where "connOK = 1"
definition connErrInUse5 :: u8 where "connErrInUse5 = 5"
definition connErrInUse8 :: u8 where "connErrInUse8 = 8"
definition maxPacketPayload :: nat where "maxPacketPayload = 0x20000 + 4096"

lemmas iusb_offsets =
  HeaderLen_def envOffDataLen_def envOffRespLen_def opcodeOffset_def ejectByteOffset_def
  connStatusOffset_def authTokenOffset_def authPayloadLen_def

lemmas iusb_codes =
  OpAuth_def OpRedirectAck_def OpKillRedir_def OpStartStopUnit_def connOK_def
  connErrInUse5_def connErrInUse8_def iusbMajor_def iusbMinor_def DeviceCDROM_def

section \<open>Errors\<close>

datatype vm_err =
    ShortHeader nat
  | BadSignature bytes
  | ImplausibleLength u32
  | VmIO io_err
  | ExpectedAck nat
  | AckTooShort nat
  | DeviceError u8
  | RedirectedBy bytes u8
  | NotAccepted u8

section \<open>Packet headers\<close>

record iusb_header =
  Major :: u8
  Minor :: u8
  DataPacketLen :: u32
  ServerCaps :: u8
  DeviceType :: u8
  Protocol :: u8
  Direction :: u8
  DeviceNumber :: u8
  InterfaceNumber :: u8
  ClientData :: u8
  Instance :: u8
  SequenceNumber :: u32

text \<open>The destination is at least a header long, as in both callers.\<close>

definition iusb_marshal :: "iusb_header \<Rightarrow> bytes \<Rightarrow> bytes" where
  "iusb_marshal h dst =
     (let b = replicate HeaderLen 0;
          b = blit 0 signature b;
          b = b[8 := Major h, 9 := Minor h, 10 := of_nat HeaderLen];
          b = blit 12 (le32 (DataPacketLen h)) b;
          b = b[16 := ServerCaps h, 17 := DeviceType h, 18 := Protocol h, 19 := Direction h,
                20 := DeviceNumber h, 21 := InterfaceNumber h, 22 := ClientData h,
                23 := Instance h];
          b = blit 24 (le32 (SequenceNumber h)) b;
          sum = foldl (+) 0 b;
          b = b[11 := - sum]
      in b @ drop HeaderLen dst)"

definition parseHeader :: "bytes \<Rightarrow> vm_err + iusb_header" where
  "parseHeader b =
     (if length b < HeaderLen then Inl (ShortHeader (length b))
      else if take 8 b \<noteq> signature then Inl (BadSignature (take 8 b))
      else Inr \<lparr>Major = b ! 8, Minor = b ! 9, DataPacketLen = get_le32 b 12,
                ServerCaps = b ! 16, DeviceType = b ! 17, Protocol = b ! 18,
                Direction = b ! 19, DeviceNumber = b ! 20, InterfaceNumber = b ! 21,
                ClientData = b ! 22, Instance = b ! 23, SequenceNumber = get_le32 b 24\<rparr>)"

record packet =
  Header :: iusb_header
  Payload :: bytes

definition Opcode :: "packet \<Rightarrow> nat" where
  "Opcode p =
     (if length (Payload p) \<le> opcodeOffset then 0 else unat (Payload p ! opcodeOffset))"

definition IsEject :: "packet \<Rightarrow> bool" where
  "IsEject p =
     (Opcode p = OpStartStopUnit \<and> ejectByteOffset < length (Payload p)
      \<and> Payload p ! ejectByteOffset AND 0x03 = 2)"

definition IsKill :: "packet \<Rightarrow> bool" where
  "IsKill p = (Opcode p = OpKillRedir)"

section \<open>Authentication\<close>

definition buildAuth :: "u8 \<Rightarrow> u8 \<Rightarrow> bytes \<Rightarrow> bytes" where
  "buildAuth deviceType inst token =
     (let pkt = replicate (HeaderLen + authPayloadLen) 0;
          h = \<lparr>Major = iusbMajor, Minor = iusbMinor, DataPacketLen = of_nat authPayloadLen,
               ServerCaps = 0, DeviceType = deviceType, Protocol = 1, Direction = 128,
               DeviceNumber = 0, InterfaceNumber = 0, ClientData = 0, Instance = inst,
               SequenceNumber = 0\<rparr>;
          pkt = iusb_marshal h pkt;
          pkt = pkt[HeaderLen + opcodeOffset := OpAuth];
          pkt = pkt[HeaderLen + connStatusOffset := 0]
      in blit (HeaderLen + authTokenOffset) token pkt)"

definition otherIP :: "bytes \<Rightarrow> bytes" where
  "otherIP payload =
     (if length payload \<le> authTokenOffset then []
      else let raw = drop authTokenOffset payload;
               raw = (case indexByte raw 0 of None \<Rightarrow> raw | Some i \<Rightarrow> take i raw)
           in TrimSpace raw)"

definition ackStatus :: "packet \<Rightarrow> vm_err option" where
  "ackStatus p =
     (if Opcode p \<noteq> OpRedirectAck then Some (ExpectedAck (Opcode p))
      else if length (Payload p) \<le> connStatusOffset then Some (AckTooShort (length (Payload p)))
      else let status = Payload p ! connStatusOffset
           in if status = connOK then None
              else if status = connErrInUse5 \<or> status = connErrInUse8 then Some (DeviceError status)
              else let ip = otherIP (Payload p)
                   in if ip \<noteq> [] then Some (RedirectedBy ip status) else Some (NotAccepted status))"

section \<open>Packets on the connection\<close>

definition readPacket :: "bytes \<Rightarrow> vm_err + (packet \<times> bytes)" where
  "readPacket conn =
     (case read_full HeaderLen conn of
        Inl e \<Rightarrow> Inl (VmIO e)
      | Inr (hdr, conn) \<Rightarrow>
          (case parseHeader hdr of
             Inl e \<Rightarrow> Inl e
           | Inr h \<Rightarrow>
               if maxPacketPayload < unat (DataPacketLen h) then Inl (ImplausibleLength (DataPacketLen h))
               else (case read_full (unat (DataPacketLen h)) conn of
                       Inl e \<Rightarrow> Inl (VmIO e)
                     | Inr (payload, conn) \<Rightarrow> Inr (\<lparr>Header = h, Payload = payload\<rparr>, conn))))"

text \<open>The bytes \<^verbatim>\<open>writeResponse\<close> hands to one write of the connection.\<close>

definition writeResponse :: "u8 \<Rightarrow> packet \<Rightarrow> bytes \<Rightarrow> bytes" where
  "writeResponse deviceType req payload =
     (let out = replicate (HeaderLen + length payload) 0;
          h = \<lparr>Major = iusbMajor, Minor = iusbMinor, DataPacketLen = of_nat (length payload),
               ServerCaps = 0, DeviceType = deviceType, Protocol = 1, Direction = 128,
               DeviceNumber = 0, InterfaceNumber = 0, ClientData = 0,
               Instance = Instance (Header req), SequenceNumber = SequenceNumber (Header req)\<rparr>;
          out = iusb_marshal h out
      in blit HeaderLen payload out)"

section \<open>The layout of a header\<close>

text \<open>
  The header as a concatenation of its fields, with a given checksum byte; the marshalled
  header has the negated sum of the header with a zero there.
\<close>

definition iusb_layout :: "u8 \<Rightarrow> iusb_header \<Rightarrow> bytes" where
  "iusb_layout chk h =
     signature @ [Major h, Minor h, 32, chk] @ le32 (DataPacketLen h)
       @ [ServerCaps h, DeviceType h, Protocol h, Direction h, DeviceNumber h,
          InterfaceNumber h, ClientData h, Instance h]
       @ le32 (SequenceNumber h) @ [0, 0, 0, 0]"

definition iusb_checksum :: "iusb_header \<Rightarrow> u8" where
  "iusb_checksum h = - sum_list (iusb_layout 0 h)"

lemma length_signature [simp]: "length signature = 8"
  by (simp add: signature_def)

lemma length_iusb_layout [simp]: "length (iusb_layout c h) = 32"
  by (simp add: iusb_layout_def)

lemma iusb_layout_update: "(iusb_layout 0 h)[11 := c] = iusb_layout c h"
  by (simp add: iusb_layout_def signature_def go_string_def)

lemma iusb_layout_sum: "sum_list (iusb_layout c h) = sum_list (iusb_layout 0 h) + c"
proof -
  have "iusb_layout 0 h ! 11 = 0"
    by (simp add: iusb_layout_def signature_def go_string_def)
  then show ?thesis
    using sum_list_update_ring [of 11 "iusb_layout 0 h" c] by (simp add: iusb_layout_update)
qed

lemma iusb_marshal_layout:
  "iusb_marshal h dst = iusb_layout (iusb_checksum h) h @ drop HeaderLen dst"
proof -
  have "blit 0 signature (replicate 32 0) = signature @ replicate 24 0"
    by (simp add: blit_def)
  then have "blit 24 (le32 (SequenceNumber h))
     ((blit 12 (le32 (DataPacketLen h))
       ((blit 0 signature (replicate 32 0))[8 := Major h, 9 := Minor h, 10 := 32]))
      [16 := ServerCaps h, 17 := DeviceType h, 18 := Protocol h, 19 := Direction h,
       20 := DeviceNumber h, 21 := InterfaceNumber h, 22 := ClientData h, 23 := Instance h])
    = iusb_layout 0 h"
    by (simp add: iusb_layout_def signature_def go_string_def replicate_numeral_Cons blit_def le32_def)
  then show ?thesis
    by (simp add: iusb_marshal_def HeaderLen_def foldl_plus_sum_list iusb_layout_update
        iusb_checksum_def)
qed

lemma iusb_layout_fields:
  "take 8 (iusb_layout c h) = signature"
  "iusb_layout c h ! 8 = Major h" "iusb_layout c h ! 9 = Minor h"
  "iusb_layout c h ! 16 = ServerCaps h" "iusb_layout c h ! 17 = DeviceType h"
  "iusb_layout c h ! 18 = Protocol h" "iusb_layout c h ! 19 = Direction h"
  "iusb_layout c h ! 20 = DeviceNumber h" "iusb_layout c h ! 21 = InterfaceNumber h"
  "iusb_layout c h ! 22 = ClientData h" "iusb_layout c h ! 23 = Instance h"
  by (simp_all add: iusb_layout_def signature_def go_string_def le32_def)

lemma iusb_layout_words:
  "get_le32 (iusb_layout c h) 12 = DataPacketLen h"
  "get_le32 (iusb_layout c h) 24 = SequenceNumber h"
  by (simp_all add: iusb_layout_def wire_simps)

lemma parseHeader_layout [simp]: "parseHeader (iusb_layout c h) = Inr h"
  by (simp add: parseHeader_def HeaderLen_def iusb_layout_fields iusb_layout_words)

lemma readPacket_consumes:
  "readPacket s = Inr (p, s') \<Longrightarrow> length s' + 32 + length (Payload p) = length s"
  by (auto simp: readPacket_def HeaderLen_def dest!: read_full_Inr split: sum.splits if_splits)

section \<open>Packets as frames\<close>

definition packet_bytes :: "packet \<Rightarrow> bytes" where
  "packet_bytes p = iusb_marshal (Header p) (replicate HeaderLen 0) @ Payload p"

definition packet_wf :: "packet \<Rightarrow> bool" where
  "packet_wf p =
     (unat (DataPacketLen (Header p)) = length (Payload p) \<and> length (Payload p) \<le> maxPacketPayload)"

lemma packet_bytes_layout:
  "packet_bytes p = iusb_layout (iusb_checksum (Header p)) (Header p) @ Payload p"
  by (simp add: packet_bytes_def iusb_marshal_layout)

lemma readPacket_bytes: "packet_wf p \<Longrightarrow> readPacket (packet_bytes p @ s) = Inr (p, s)"
  by (simp add: readPacket_def packet_bytes_layout HeaderLen_def packet_wf_def)

interpretation iusb: framing packet_bytes readPacket packet_wf
  by unfold_locales (auto intro: readPacket_bytes dest: readPacket_consumes)

lemma writeResponse_packet:
  "length payload \<le> maxPacketPayload \<Longrightarrow>
   \<exists>h. writeResponse dt req payload = packet_bytes \<lparr>Header = h, Payload = payload\<rparr>
     \<and> packet_wf \<lparr>Header = h, Payload = payload\<rparr>
     \<and> SequenceNumber h = SequenceNumber (Header req) \<and> Instance h = Instance (Header req)
     \<and> DeviceType h = dt \<and> Direction h = 128"
proof -
  assume len: "length payload \<le> maxPacketPayload"
  let ?h = "\<lparr>Major = iusbMajor, Minor = iusbMinor, DataPacketLen = of_nat (length payload),
    ServerCaps = 0, DeviceType = dt, Protocol = 1, Direction = 128, DeviceNumber = 0,
    InterfaceNumber = 0, ClientData = 0, Instance = Instance (Header req),
    SequenceNumber = SequenceNumber (Header req)\<rparr>"
  have "unat (of_nat (length payload) :: u32) = length payload"
    using len by (simp add: unat_of_nat maxPacketPayload_def)
  then have "packet_wf \<lparr>Header = ?h, Payload = payload\<rparr>"
    using len by (simp add: packet_wf_def)
  moreover have "writeResponse dt req payload = packet_bytes \<lparr>Header = ?h, Payload = payload\<rparr>"
    by (simp add: writeResponse_def packet_bytes_layout iusb_marshal_layout HeaderLen_def
        blit_append_right blit_whole Let_def)
  ultimately show ?thesis by (intro exI [of _ ?h]) simp
qed

lemma readPacket_Inr:
  assumes "readPacket s = Inr (p, r)"
  shows "packet_wf p \<and> s = take HeaderLen s @ Payload p @ r \<and> take 8 s = signature"
proof -
  obtain hdr s1 where 1: "read_full HeaderLen s = Inr (hdr, s1)"
    using assms by (auto simp: readPacket_def split: sum.splits)
  from read_full_Inr [OF this] have s: "s = hdr @ s1" "length hdr = HeaderLen" by auto
  obtain h where h: "parseHeader hdr = Inr h"
    using assms 1 by (auto simp: readPacket_def split: sum.splits)
  then have sig: "take 8 hdr = signature"
    by (auto simp: parseHeader_def split: if_splits)
  have len: "unat (DataPacketLen h) \<le> maxPacketPayload"
    using assms 1 h by (auto simp: readPacket_def split: if_splits)
  then obtain pl where 2: "read_full (unat (DataPacketLen h)) s1 = Inr (pl, r)"
      and p: "p = \<lparr>Header = h, Payload = pl\<rparr>"
    using assms 1 h by (auto simp: readPacket_def split: sum.splits)
  from read_full_Inr [OF 2] s sig len p show ?thesis
    by (auto simp: packet_wf_def HeaderLen_def)
qed

text \<open>
  C19. The packet format round-trips: packets written one after another are read back one by
  one with every header field and payload, whatever follows; the 32 header bytes of each sum
  to 0 modulo 256, and the reader accepts a header with any other checksum byte as well.
\<close>

theorem iusb_stream_roundtrip:
  assumes "\<forall>p \<in> set ps. packet_wf p"
  shows "iusb.dec_n (length ps) (concat (map packet_bytes ps) @ rest) = Inr (ps, rest)
    \<and> (\<forall>p \<in> set ps. sum_list (take HeaderLen (packet_bytes p)) = 0
         \<and> (\<forall>c. readPacket ((packet_bytes p)[11 := c] @ rest) = Inr (p, rest)))"
proof -
  have "sum_list (take HeaderLen (packet_bytes p)) = 0" for p
  proof -
    have "take HeaderLen (packet_bytes p) = iusb_layout (iusb_checksum (Header p)) (Header p)"
      by (simp add: packet_bytes_layout HeaderLen_def)
    then show ?thesis
      using iusb_layout_sum [of "iusb_checksum (Header p)" "Header p"] by (simp add: iusb_checksum_def)
  qed
  moreover have "readPacket ((packet_bytes p)[11 := c] @ rest) = Inr (p, rest)" if "packet_wf p" for p c
  proof -
    have "(iusb_layout d h)[11 := c] = iusb_layout c h" for d h
    proof -
      have "((iusb_layout 0 h)[11 := d])[11 := c] = iusb_layout c h"
        unfolding list_update_overwrite by (rule iusb_layout_update)
      then show ?thesis
        by (simp only: iusb_layout_update)
    qed
    then have "(packet_bytes p)[11 := c] = iusb_layout c (Header p) @ Payload p"
      by (simp add: packet_bytes_layout list_update_append)
    with that show ?thesis
      by (simp add: readPacket_def HeaderLen_def packet_wf_def)
  qed
  ultimately show ?thesis
    using assms by (simp add: iusb.dec_n_concat)
qed

definition sample_header :: "u32 \<Rightarrow> u32 \<Rightarrow> iusb_header" where
  "sample_header len seq =
     \<lparr>Major = 1, Minor = 0, DataPacketLen = len, ServerCaps = 0, DeviceType = 5, Protocol = 1,
      Direction = 128, DeviceNumber = 0, InterfaceNumber = 0, ClientData = 0, Instance = 0,
      SequenceNumber = seq\<rparr>"

lemma iusb_stream_roundtrip_witness:
  "let ps = [\<lparr>Header = sample_header 2 7, Payload = [1, 2]\<rparr>,
             \<lparr>Header = sample_header 0 8, Payload = []\<rparr>]
   in iusb.dec_n (length ps) (concat (map packet_bytes ps) @ [3]) = Inr (ps, [3])"
proof -
  let ?ps = "[\<lparr>Header = sample_header 2 7, Payload = [1, 2]\<rparr>,
     \<lparr>Header = sample_header 0 8, Payload = []\<rparr>]"
  have "\<forall>p \<in> set ?ps. packet_wf p"
    by (simp add: packet_wf_def sample_header_def maxPacketPayload_def)
  from iusb_stream_roundtrip [OF this, of "[3]"] show ?thesis
    by (simp only: Let_def)
qed

text \<open>
  A packet is accepted only if its signature is there, its length field is within the
  payload limit, and the connection held that many bytes; what follows is left unread.
\<close>

theorem readPacket_accepts:
  assumes "readPacket conn = Inr (p, rest)"
  shows "take 8 conn = signature \<and> length (Payload p) = unat (get_le32 conn 12)
    \<and> length (Payload p) \<le> maxPacketPayload \<and> conn = take HeaderLen conn @ Payload p @ rest"
proof -
  have "Header p = h" if "parseHeader (take HeaderLen conn) = Inr h" for h
    using assms that by (auto simp: readPacket_def read_full_def split: sum.splits if_splits)
  moreover have "\<exists>h. parseHeader (take HeaderLen conn) = Inr h"
    using assms by (auto simp: readPacket_def read_full_def split: sum.splits if_splits)
  ultimately have "parseHeader (take HeaderLen conn) = Inr (Header p)" by auto
  then have len: "DataPacketLen (Header p) = get_le32 (take HeaderLen conn) 12" "HeaderLen \<le> length conn"
    by (auto simp: parseHeader_def split: if_splits dest!: arg_cong [where f = DataPacketLen])
  have "get_le32 (take HeaderLen conn) 12 = get_le32 conn 12"
    using get_append_left(3) [of 12 "take HeaderLen conn" "drop HeaderLen conn"] len(2)
    by (simp add: HeaderLen_def)
  with readPacket_Inr [OF assms] len show ?thesis
    by (auto simp: packet_wf_def)
qed

lemma readPacket_accepts_witness:
  "length (packet_bytes \<lparr>Header = sample_header 1 0, Payload = [5]\<rparr> @ [6]) = 34"
  using readPacket_accepts [OF readPacket_bytes [of "\<lparr>Header = sample_header 1 0, Payload = [5]\<rparr>" "[6]"]]
  by (simp add: packet_wf_def sample_header_def maxPacketPayload_def packet_bytes_layout)

text \<open>
  The authentication packet reads back as opcode 0xF2 with instance and device type, a
  128-byte payload carrying status 0 and the token, zero-padded or cut at 97 bytes.
\<close>

theorem buildAuth_packet:
  "\<exists>p. readPacket (buildAuth dev inst token) = Inr (p, [])
     \<and> Opcode p = 0xF2 \<and> DeviceType (Header p) = dev \<and> Instance (Header p) = inst
     \<and> length (Payload p) = 128 \<and> Payload p ! connStatusOffset = 0
     \<and> drop authTokenOffset (Payload p) = take 97 token @ replicate (97 - length token) 0"
proof -
  let ?h = "\<lparr>Major = iusbMajor, Minor = iusbMinor, DataPacketLen = of_nat authPayloadLen,
     ServerCaps = 0, DeviceType = dev, Protocol = 1, Direction = 128,
     DeviceNumber = 0, InterfaceNumber = 0, ClientData = 0, Instance = inst, SequenceNumber = 0\<rparr>"
  let ?l = "iusb_layout (iusb_checksum ?h) ?h"
  let ?pl = "blit 31 token ((replicate 128 0)[9 := OpAuth, 30 := 0])"
  have "buildAuth dev inst token = ?l @ ?pl"
    by (simp add: buildAuth_def iusb_marshal_layout iusb_offsets list_update_append
        blit_append_right Let_def)
  then have "readPacket (buildAuth dev inst token) = Inr (\<lparr>Header = ?h, Payload = ?pl\<rparr>, [])"
    by (simp add: readPacket_def HeaderLen_def authPayloadLen_def maxPacketPayload_def)
  moreover have "?pl ! 9 = OpAuth" "?pl ! 30 = 0"
    by (simp_all add: nth_blit)
  moreover have "drop 31 ?pl = take 97 token @ replicate (97 - length token) 0"
    by (simp add: blit_def drop_update_swap)
  ultimately show ?thesis
    by (simp add: Opcode_def iusb_offsets OpAuth_def)
qed

text \<open>
  The redirection is accepted exactly by an ACK (opcode 0xF1) of at least 31 payload
  bytes whose status byte is 1, and a refusal names an owner only for a status other than
  the two device errors.
\<close>

theorem ackStatus_outcome:
  "(ackStatus p = None \<longleftrightarrow>
      Opcode p = 0xF1 \<and> 31 \<le> length (Payload p) \<and> Payload p ! 30 = 1)
   \<and> (\<forall>ip st. ackStatus p = Some (RedirectedBy ip st) \<longrightarrow>
        st \<noteq> 1 \<and> st \<noteq> 5 \<and> st \<noteq> 8 \<and> ip = otherIP (Payload p) \<and> 31 < length (Payload p))"
  by (auto simp: ackStatus_def OpRedirectAck_def iusb_codes iusb_offsets otherIP_def Let_def
      split: if_splits)

lemma ackStatus_outcome_witness:
  "ackStatus \<lparr>Header = sample_header 0 0, Payload = (replicate 31 0)[9 := 0xF1, 30 := 1]\<rparr> = None"
  using ackStatus_outcome [of "\<lparr>Header = sample_header 0 0, Payload = (replicate 31 0)[9 := 0xF1, 30 := 1]\<rparr>"]
  by (simp add: Opcode_def opcodeOffset_def)

end
