(* ===== verification/Scsi.thy ===== *)
theory Scsi
  imports WinCache Iusb
begin

text \<open>
  The SCSI emulation (\<^verbatim>\<open>internal/kvm/vmedia/scsi.go\<close>): the device state, one definition per
  command, the response envelope and the dispatcher \<open>Handle\<close>. The device works on any
  medium (its state is the first field, its methods are the arguments \<open>rd\<close> and \<open>wr\<close>);
  \<open>d_w\<close> is \<^verbatim>\<open>w != nil\<close>, and the writer of a writable device is its reader, as in \<^verbatim>\<open>NewDiskRW\<close>.
  Payload slices are exactly as long as they were allocated, so slicing beyond the length is
  a run-time panic. Log output is not modelled.
\<close>

section \<open>Device\<close>

definition cdBlockSize :: nat where "cdBlockSize = 2048"
definition diskBlockSize :: nat where "diskBlockSize = 512"

definition scsiTestUnitReady :: u8 where "scsiTestUnitReady = 0x00"
definition scsiRequestSense :: u8 where "scsiRequestSense = 0x03"
definition scsiInquiry :: u8 where "scsiInquiry = 0x12"
definition scsiModeSelect6 :: u8 where "scsiModeSelect6 = 0x15"
definition scsiModeSense6 :: u8 where "scsiModeSense6 = 0x1A"
definition scsiStartStopUnit :: u8 where "scsiStartStopUnit = 0x1B"
definition scsiPreventAllow :: u8 where "scsiPreventAllow = 0x1E"
definition scsiReadCapacity10 :: u8 where "scsiReadCapacity10 = 0x25"
definition scsiRead10 :: u8 where "scsiRead10 = 0x28"
definition scsiWrite10 :: u8 where "scsiWrite10 = 0x2A"
definition scsiReadTOC :: u8 where "scsiReadTOC = 0x43"
definition scsiGetConfig :: u8 where "scsiGetConfig = 0x46"
definition scsiGetEventStatus :: u8 where "scsiGetEventStatus = 0x4A"
definition scsiReadDiscInfo :: u8 where "scsiReadDiscInfo = 0x51"
definition scsiModeSense10 :: u8 where "scsiModeSense10 = 0x5A"
definition scsiRead12 :: u8 where "scsiRead12 = 0xA8"
definition scsiWrite12 :: u8 where "scsiWrite12 = 0xAA"

lemmas scsi_codes =
  scsiTestUnitReady_def scsiRequestSense_def scsiInquiry_def scsiModeSelect6_def
  scsiModeSense6_def scsiStartStopUnit_def scsiPreventAllow_def scsiReadCapacity10_def
  scsiRead10_def scsiWrite10_def scsiReadTOC_def scsiGetConfig_def scsiGetEventStatus_def
  scsiReadDiscInfo_def scsiModeSense10_def scsiRead12_def scsiWrite12_def

record 's device =
  d_r :: 's
  d_w :: bool
  blockSize :: nat
  mmc :: bool
  lastLBA :: u32
  nBytes :: int

definition newDevice :: "('s \<Rightarrow> int) \<Rightarrow> 's \<Rightarrow> bool \<Rightarrow> nat \<Rightarrow> bool \<Rightarrow> 's device" where
  "newDevice sz r w bs is_mmc =
     (let n = sz r div int bs;
          last = (if 0 < n then word_of_int (n - 1) else 0)
      in \<lparr>d_r = r, d_w = w, blockSize = bs, mmc = is_mmc, lastLBA = last, nBytes = 0\<rparr>)"

definition NewCDROM where "NewCDROM sz r = newDevice sz r False cdBlockSize True"
definition NewDisk where "NewDisk sz r = newDevice sz r False diskBlockSize False"
definition NewDiskRW where "NewDiskRW sz rw = newDevice sz rw True diskBlockSize False"

definition BytesServed :: "'s device \<Rightarrow> int" where
  "BytesServed c = nBytes c"

section \<open>Responses\<close>

definition buildResponse :: "packet \<Rightarrow> bytes \<Rightarrow> bytes" where
  "buildResponse req data =
     (let env = Payload req;
          out = env @ data;
          n = of_nat (length data);
          out = (if envOffDataLen + 4 \<le> length out then blit envOffDataLen (le32 n) out else out)
      in if envOffRespLen + 4 \<le> length out then blit envOffRespLen (le32 n) out else out)"

definition clip :: "bytes \<Rightarrow> int \<Rightarrow> bytes" where
  "clip b n = (if 0 < n \<and> n < int (length b) then take (nat n) b else b)"

definition cdb :: "packet \<Rightarrow> bytes" where
  "cdb p = (if length (Payload p) \<le> opcodeOffset then [] else drop opcodeOffset (Payload p))"

definition allocLen :: "bytes \<Rightarrow> nat \<Rightarrow> nat \<Rightarrow> int" where
  "allocLen c off width =
     (if width = 2 then if off + 2 \<le> length c then int (unat (get_be16 c off)) else 0
      else if off < length c then int (unat (c ! off)) else 0)"

definition senseFixed :: "u8 \<Rightarrow> u8 \<Rightarrow> u8 \<Rightarrow> bytes" where
  "senseFixed key asc ascq =
     (replicate 18 0)[0 := 0x70, 2 := key AND 0x0F, 7 := 10, 12 := asc, 13 := ascq]"

definition getEventStatusNoChange :: "bytes \<Rightarrow> bytes" where
  "getEventStatusNoChange c =
     (let out = replicate 4 0;
          out = blit 0 (be16 2) out;
          out = out[2 := 0]
      in if 4 < length c then out[3 := c ! 4] else out)"

definition inquiry :: "'s device \<Rightarrow> int \<Rightarrow> bytes" where
  "inquiry c alloc =
     (let b = replicate 36 0;
          b = (if mmc c then blit 16 (go_string ''Virtual CD-ROM  '') (b[0 := 0x05])
               else blit 16 (go_string ''Virtual Disk    '') (b[0 := 0x00]));
          b = b[1 := 0x80, 2 := 0x05, 3 := 0x02, 4 := 31];
          b = blit 8 (go_string ''RD450X  '') b;
          b = blit 32 (go_string ''1.0 '') b
      in clip b alloc)"

definition readCapacity :: "'s device \<Rightarrow> bytes" where
  "readCapacity c =
     (let b = replicate 8 0;
          b = blit 0 (be32 (lastLBA c)) b
      in blit 4 (be32 (of_nat (blockSize c))) b)"

definition toc_track :: "u8 \<Rightarrow> u32 \<Rightarrow> bytes" where
  "toc_track no lba = (let d = (replicate 8 0)[1 := 0x14, 2 := no] in blit 4 (be32 lba) d)"

definition readTOC :: "'s device \<Rightarrow> bytes" where
  "readTOC c =
     (let body = toc_track 1 0 @ toc_track 0xAA (lastLBA c + 1);
          out = replicate (4 + length body) 0;
          out = blit 0 (be16 (of_nat (length body + 2))) out;
          out = out[2 := 1, 3 := 1]
      in blit 4 body out)"

definition getConfiguration :: bytes where
  "getConfiguration =
     (let out = replicate 12 0;
          out = blit 0 (be32 (of_nat (length out - 4))) out
      in blit 6 (be16 0x0008) out)"

definition readDiscInfo :: bytes where
  "readDiscInfo =
     (let out = replicate 34 0;
          out = blit 0 (be16 (of_nat (length out - 2))) out
      in out[2 := 0x0E, 3 := 1, 4 := 1, 5 := 1, 6 := 1])"

definition wpBit :: "'s device \<Rightarrow> u8" where
  "wpBit c = (if \<not> d_w c then 0x80 else 0)"

definition modeSense6 :: "'s device \<Rightarrow> bytes" where
  "modeSense6 c = (replicate 4 0)[0 := 3, 2 := wpBit c]"

definition modeSense10 :: "'s device \<Rightarrow> bytes" where
  "modeSense10 c = (blit 0 (be16 6) (replicate 8 0))[3 := wpBit c]"

section \<open>Reading and writing the medium\<close>

definition dev_read :: "'s read_at \<Rightarrow> 's device \<Rightarrow> u32 \<Rightarrow> u32 \<Rightarrow> 's device \<times> bytes" where
  "dev_read rd c lba blocks =
     (let n = unat blocks * blockSize c;
          off = int (unat lba) * int (blockSize c);
          (r', got, err) = rd (d_r c) n off
      in (c\<lparr>d_r := r', nBytes := nBytes c + int (length got)\<rparr>, blit 0 got (replicate n 0)))"

definition dev_write :: "'s write_at \<Rightarrow> 's device \<Rightarrow> packet \<Rightarrow> u32 \<Rightarrow> u32 \<Rightarrow> 's device" where
  "dev_write wr c req lba blocks =
     (let n = unat blocks * blockSize c
      in if n = 0 then c
         else if \<not> d_w c then c
         else if length (Payload req) < n then c
         else let data = drop (length (Payload req) - n) (Payload req);
                  off = int (unat lba) * int (blockSize c);
                  (r', wrote, err) = wr (d_r c) data off
              in c\<lparr>d_r := r', nBytes := nBytes c + int wrote\<rparr>)"

text \<open>The address and the block count in a CDB of the 10- and the 12-byte form.\<close>

definition args10 :: "bytes \<Rightarrow> (u32 \<times> u32) go" where
  "args10 c =
     (if length c < 6 then Inl SliceOutOfRange
      else let lba = get_be32 c 2
           in if length c < 9 then Inl SliceOutOfRange else Inr (lba, ucast (get_be16 c 7)))"

definition args12 :: "bytes \<Rightarrow> (u32 \<times> u32) go" where
  "args12 c =
     (if length c < 6 then Inl SliceOutOfRange
      else let lba = get_be32 c 2
           in if length c < 10 then Inl SliceOutOfRange else Inr (lba, get_be32 c 6))"

section \<open>Dispatch\<close>

definition do_read ::
  "'s read_at \<Rightarrow> 's device \<Rightarrow> packet \<Rightarrow> (u32 \<times> u32) go \<Rightarrow> ('s device \<times> bytes option) go" where
  "do_read rd c req args =
     (case args of
        Inl p \<Rightarrow> Inl p
      | Inr (lba, blocks) \<Rightarrow>
          (let (c, data) = dev_read rd c lba blocks in Inr (c, Some (buildResponse req data))))"

definition do_write ::
  "'s write_at \<Rightarrow> 's device \<Rightarrow> packet \<Rightarrow> (u32 \<times> u32) go \<Rightarrow> ('s device \<times> bytes option) go" where
  "do_write wr c req args =
     (case args of
        Inl p \<Rightarrow> Inl p
      | Inr (lba, blocks) \<Rightarrow> Inr (dev_write wr c req lba blocks, Some (buildResponse req [])))"

definition Handle ::
  "'s read_at \<Rightarrow> 's write_at \<Rightarrow> 's device \<Rightarrow> packet \<Rightarrow> ('s device \<times> bytes option) go" where
  "Handle rd wr c req =
     (let cd = cdb req; reply = (\<lambda>data. Inr (c, Some (buildResponse req data)))
      in if cd = [] then Inr (c, None)
         else let op = cd ! 0
         in if op = scsiTestUnitReady \<or> op = scsiPreventAllow \<or> op = scsiStartStopUnit
              \<or> op = scsiModeSelect6 then reply []
         else if op = scsiInquiry then reply (inquiry c (allocLen cd 3 4))
         else if op = scsiRequestSense then reply (senseFixed 0 0 0)
         else if op = scsiReadCapacity10 then reply (readCapacity c)
         else if op = scsiRead10 then do_read rd c req (args10 cd)
         else if op = scsiRead12 then do_read rd c req (args12 cd)
         else if op = scsiWrite10 then do_write wr c req (args10 cd)
         else if op = scsiWrite12 then do_write wr c req (args12 cd)
         else if op = scsiModeSense6 then reply (modeSense6 c)
         else if op = scsiModeSense10 then reply (modeSense10 c)
         else if op = scsiReadTOC then reply (if mmc c then readTOC c else [])
         else if op = scsiGetConfig then reply (if mmc c then getConfiguration else [])
         else if op = scsiGetEventStatus then reply (if mmc c then getEventStatusNoChange cd else [])
         else if op = scsiReadDiscInfo then reply (if mmc c then readDiscInfo else [])
         else reply [])"

section \<open>The response envelope\<close>

lemma blit_zeros: "length src \<le> n \<Longrightarrow> blit 0 src (replicate n 0) = src @ replicate (n - length src) 0"
  by (simp add: blit_def)

lemma length_buildResponse [simp]:
  "length (buildResponse req data) = length (Payload req) + length data"
  by (simp add: buildResponse_def Let_def)

lemma buildResponse_echo:
  "4 \<le> i \<Longrightarrow> i < 25 \<or> 29 \<le> i \<Longrightarrow> i < length (Payload req) \<Longrightarrow>
   buildResponse req data ! i = Payload req ! i"
  by (auto simp: buildResponse_def Let_def iusb_offsets nth_blit nth_append)

lemma buildResponse_full:
  assumes "29 \<le> length (Payload req)"
  shows "buildResponse req data =
    blit 25 (le32 (of_nat (length data))) (blit 0 (le32 (of_nat (length data))) (Payload req)) @ data"
  using assms by (simp add: buildResponse_def Let_def iusb_offsets blit_append_left)

text \<open>Every answer is an envelope around the command's data; only three commands have effects.\<close>

lemma Handle_Inr:
  assumes "Handle rd wr c req = Inr (c', out)"
  shows "(out = None \<and> c' = c \<and> length (Payload req) \<le> 9) \<or>
    (9 < length (Payload req) \<and> (\<exists>data. out = Some (buildResponse req data) \<and>
      (c' = c \<or> (\<exists>lba blocks. dev_read rd c lba blocks = (c', data))
       \<or> (data = [] \<and> (\<exists>lba blocks. c' = dev_write wr c req lba blocks)))))"
proof (cases "cdb req = []")
  case True
  then show ?thesis
    using assms by (auto simp: Handle_def cdb_def opcodeOffset_def split: if_splits)
next
  case False
  then have "9 < length (Payload req)"
    by (auto simp: cdb_def opcodeOffset_def split: if_splits)
  then show ?thesis
    using assms False
    by (auto simp: Handle_def do_read_def do_write_def Let_def
        split: if_splits sum.splits prod.splits)
qed

section \<open>Commands on a medium\<close>

context medium
begin

lemma dev_read_ok:
  assumes "good (d_r c)" and rd: "rd (d_r c) (unat blocks * blockSize c) (int (unat lba * blockSize c)) = (r', got, err)"
  shows "dev_read rd c lba blocks = (c\<lparr>d_r := r', nBytes := nBytes c + int (length got)\<rparr>,
       got @ replicate (unat blocks * blockSize c - length got) 0)
    \<and> good r' \<and> content r' = content (d_r c)
    \<and> (no_failure err \<longrightarrow> got @ replicate (unat blocks * blockSize c - length got) 0
         = take (unat blocks * blockSize c)
             (drop (unat lba * blockSize c) (content (d_r c)) @ replicate (unat blocks * blockSize c) 0))"
proof -
  have "length got \<le> unat blocks * blockSize c"
    using rd_length [OF assms(1) _ rd] by simp
  then have "dev_read rd c lba blocks = (c\<lparr>d_r := r', nBytes := nBytes c + int (length got)\<rparr>,
       got @ replicate (unat blocks * blockSize c - length got) 0)"
    using rd by (simp add: dev_read_def Let_def blit_zeros)
  moreover have "got @ replicate (unat blocks * blockSize c - length got) 0
         = take (unat blocks * blockSize c)
             (drop (unat lba * blockSize c) (content (d_r c)) @ replicate (unat blocks * blockSize c) 0)"
    if "no_failure err"
    using rd_zero_filled [OF assms(1) _ rd that] by (simp only: nat_int)
  ultimately show ?thesis
    using rd_keeps [OF assms(1) rd] by simp
qed

text \<open>No request changes the content of a device that is not writable.\<close>

lemma Handle_read_only:
  assumes "good (d_r c)" "\<not> d_w c" "Handle rd wr c req = Inr (c', out)"
  shows "good (d_r c') \<and> content (d_r c') = content (d_r c) \<and> d_w c' = d_w c"
proof -
  have r: "good (d_r c1) \<and> content (d_r c1) = content (d_r c) \<and> d_w c1 = d_w c"
    if "dev_read rd c lba blocks = (c1, d)" for lba blocks c1 d
  proof -
    obtain r' got err where
      rd: "rd (d_r c) (unat blocks * blockSize c) (int (unat lba * blockSize c)) = (r', got, err)"
      by (metis prod_cases3)
    from dev_read_ok [OF assms(1) rd] that show ?thesis by auto
  qed
  have w: "dev_write wr c req lba blocks = c" for lba blocks
    using assms(2) by (simp add: dev_write_def Let_def)
  show ?thesis
    using Handle_Inr [OF assms(3)] r assms(1,2) w by auto
qed

end

section \<open>Properties of the emulation\<close>

lemma cdb_Some: "9 < length (Payload req) \<Longrightarrow> cdb req = drop 9 (Payload req) \<and> cdb req \<noteq> [] \<and> cdb req ! 0 = Payload req ! 9"
  by (auto simp: cdb_def opcodeOffset_def)

text \<open>
  C18. The emulation panics exactly on a READ or WRITE whose CDB is cut short: a payload of
  10 to 17 bytes for the 10-byte commands, of 10 to 18 bytes for the 12-byte ones. It gives
  no answer exactly when the payload is too short for an opcode, and answers every other
  request.
\<close>

theorem Handle_panics:
  "(\<exists>p. Handle rd wr c req = Inl p) =
     (9 < length (Payload req) \<and>
       ((Payload req ! 9 = 0x28 \<or> Payload req ! 9 = 0x2A) \<and> length (Payload req) < 18 \<or>
        (Payload req ! 9 = 0xA8 \<or> Payload req ! 9 = 0xAA) \<and> length (Payload req) < 19))
   \<and> (\<forall>c' out. Handle rd wr c req = Inr (c', out) \<longrightarrow> (out = None \<longleftrightarrow> length (Payload req) \<le> 9))"
proof (intro conjI allI impI)
  show "(\<exists>p. Handle rd wr c req = Inl p) =
     (9 < length (Payload req) \<and>
       ((Payload req ! 9 = 0x28 \<or> Payload req ! 9 = 0x2A) \<and> length (Payload req) < 18 \<or>
        (Payload req ! 9 = 0xA8 \<or> Payload req ! 9 = 0xAA) \<and> length (Payload req) < 19))"
  proof (cases "9 < length (Payload req)")
    case False
    then show ?thesis by (simp add: Handle_def cdb_def opcodeOffset_def)
  next
    case True
    note cd = cdb_Some [OF True]
    define op where "op = Payload req ! 9"
    have a10: "(\<exists>p. args10 (cdb req) = Inl p) \<longleftrightarrow> length (Payload req) < 18"
      and a12: "(\<exists>p. args12 (cdb req) = Inl p) \<longleftrightarrow> length (Payload req) < 19"
      using True cd by (auto simp: args10_def args12_def Let_def)
    have r: "(\<exists>p. do_read rd c req a = Inl p) \<longleftrightarrow> (\<exists>p. a = Inl p)"
      and w: "(\<exists>p. do_write wr c req a = Inl p) \<longleftrightarrow> (\<exists>p. a = Inl p)" for a
      by (auto simp: do_read_def do_write_def split: sum.splits prod.splits)
    show ?thesis
      using True cd a10 a12
      by (simp add: Handle_def Let_def scsi_codes r w flip: op_def)
  qed
next
  fix c' out
  assume "Handle rd wr c req = Inr (c', out)"
  from Handle_Inr [OF this] show "out = None \<longleftrightarrow> length (Payload req) \<le> 9"
    by auto
qed

lemma Handle_panics_witness:
  "\<exists>p. Handle file_ReadAt file_WriteAt
     (NewCDROM file_Size \<lparr>f_data = [], f_writable = False, f_faults = [], f_size = 0\<rparr>)
     \<lparr>Header = sample_header 10 0, Payload = (replicate 10 0)[9 := 0x28]\<rparr> = Inl p"
  using Handle_panics [of file_ReadAt file_WriteAt
    "NewCDROM file_Size \<lparr>f_data = [], f_writable = False, f_faults = [], f_size = 0\<rparr>"
    "\<lparr>Header = sample_header 10 0, Payload = (replicate 10 0)[9 := 0x28]\<rparr>"]
  by simp

text \<open>
  Every answer echoes the request's envelope outside the two length fields and appends
  the data; with an envelope of at least 29 bytes both fields hold the number of data bytes.
\<close>

theorem response_envelope:
  assumes "Handle rd wr c req = Inr (c', Some out)"
  shows "length (Payload req) \<le> length out
    \<and> (\<forall>i. 4 \<le> i \<and> i < length (Payload req) \<and> (i < 25 \<or> 29 \<le> i) \<longrightarrow> out ! i = Payload req ! i)
    \<and> (29 \<le> length (Payload req) \<longrightarrow>
         get_le32 out 0 = of_nat (length out - length (Payload req))
         \<and> get_le32 out 25 = of_nat (length out - length (Payload req)))"
proof -
  obtain data where out: "out = buildResponse req data"
    using Handle_Inr [OF assms] by auto
  have "get_le32 out 0 = of_nat (length data) \<and> get_le32 out 25 = of_nat (length data)"
    if "29 \<le> length (Payload req)"
    using that by (simp add: out buildResponse_full wire_simps)
  then show ?thesis
    using buildResponse_echo [of _ req data] by (simp add: out)
qed

lemma response_envelope_witness:
  "let c = NewCDROM file_Size \<lparr>f_data = [], f_writable = False, f_faults = [], f_size = 0\<rparr>;
       req = \<lparr>Header = sample_header 30 0, Payload = (replicate 30 7)[9 := 0x25]\<rparr>
   in \<exists>c' out. Handle file_ReadAt file_WriteAt c req = Inr (c', Some out)
        \<and> get_le32 out 25 = of_nat (length out - 30) \<and> out ! 29 = 7"
proof -
  let ?c = "NewCDROM file_Size \<lparr>f_data = [], f_writable = False, f_faults = [], f_size = 0\<rparr>"
  let ?req = "\<lparr>Header = sample_header 30 0, Payload = (replicate 30 7)[9 := 0x25]\<rparr>"
  let ?out = "buildResponse ?req (readCapacity ?c)"
  have h: "Handle file_ReadAt file_WriteAt ?c ?req = Inr (?c, Some ?out)"
    by (simp add: Handle_def cdb_def opcodeOffset_def Let_def scsi_codes)
  note env = response_envelope [OF h]
  have "get_le32 ?out 25 = of_nat (length ?out - 30)"
    using env by simp
  moreover have "?out ! 29 = Payload ?req ! 29"
    using env by (elim conjE allE [of _ 29]) simp
  ultimately show ?thesis
    using h unfolding Let_def by (intro exI conjI) simp_all
qed

lemma read_only_device_keeps:
  assumes "cache_inv file_Size f_data file_inv (d_r c)" "\<not> d_w c"
    and "Handle (cache_ReadAt file_ReadAt) (cache_WriteAt file_WriteAt) c req = Inr (c', out)"
  shows "f_data (c_r (d_r c')) = f_data (c_r (d_r c)) \<and> \<not> d_w c'"
proof -
  have "f_data (c_r (d_r c1)) = f_data (c_r (d_r c)) \<and> \<not> d_w c1"
    if "dev_read (cache_ReadAt file_ReadAt) c lba blocks = (c1, data)" for lba blocks c1 data
    using that assms(2) fileio.cache_ReadAt_ok [OF assms(1)]
    by (force simp: dev_read_def Let_def split: prod.splits)
  moreover have "dev_write (cache_WriteAt file_WriteAt) c req lba blocks = c" for lba blocks
    using assms(2) by (simp add: dev_write_def Let_def)
  ultimately show ?thesis
    using Handle_Inr [OF assms(3)] assms(2) by auto
qed

text \<open>
  A device that is not writable (a CD-ROM, or a disk without a writer) never changes its
  medium: after any request through the cache the backing file holds the same bytes.
\<close>

theorem read_only_device_keeps_medium:
  assumes "cache_inv file_Size f_data file_inv (d_r c)" "\<not> d_w c"
    and "Handle (cache_ReadAt file_ReadAt) (cache_WriteAt file_WriteAt) c req = Inr (c', out)"
  shows "f_data (c_r (d_r c')) = f_data (c_r (d_r c)) \<and> \<not> d_w c'"
  using assms by (rule read_only_device_keeps)

lemma int_unat_u32: "0 \<le> k \<Longrightarrow> k < 2 ^ 32 \<Longrightarrow> int (unat (word_of_int k :: u32)) = k"
  by (simp add: unat_eq_nat_uint uint_word_of_int)

text \<open>
  READ CAPACITY reports the block size and the address of the last whole block: it fits
  in the medium and the next one does not, for a medium of at least one block and at most
  \<open>2 ^ 32\<close> blocks.
\<close>

theorem capacity_of_medium:
  assumes "0 < bs" "int bs \<le> sz r" "sz r < int bs * 2 ^ 32" "bs < 2 ^ 32"
  shows "let b = readCapacity (newDevice sz r w bs m); last = int (unat (get_be32 b 0)) in
    length b = 8 \<and> unat (get_be32 b 4) = bs
    \<and> (last + 1) * int bs \<le> sz r \<and> sz r < (last + 2) * int bs"
proof -
  let ?b = "readCapacity (newDevice sz r w bs m)"
  let ?n = "sz r div int bs"
  have eq: "sz r = int bs * ?n + sz r mod int bs" by simp
  have m: "0 \<le> sz r mod int bs" "sz r mod int bs < int bs"
    using assms(1) by simp_all
  have "int bs * ?n < int bs * 2 ^ 32"
    using eq m(1) assms(3) by linarith
  moreover have "int bs div int bs \<le> ?n"
    using assms(1,2) by (intro zdiv_mono1) simp_all
  ultimately have n: "1 \<le> ?n" "?n < 2 ^ 32"
    using assms(1) by simp_all
  have last: "int (unat (word_of_int (?n - 1) :: u32)) = ?n - 1"
    by (rule int_unat_u32) (use n in simp_all)
  have "get_be32 ?b 0 = word_of_int (?n - 1)" "get_be32 ?b 4 = of_nat bs" "length ?b = 8"
    using n by (simp_all add: readCapacity_def newDevice_def Let_def wire_simps)
  moreover have "(?n - 1 + 1) * int bs \<le> sz r" "sz r < (?n - 1 + 2) * int bs"
  proof -
    have "int bs * ?n \<le> sz r" "sz r < int bs + int bs * ?n"
      using eq m by linarith+
    then show "(?n - 1 + 1) * int bs \<le> sz r" "sz r < (?n - 1 + 2) * int bs"
      by (simp_all add: algebra_simps)
  qed
  ultimately show ?thesis
    using assms(4) last by (simp add: Let_def unat_of_nat)
qed

lemma capacity_of_medium_witness:
  "let b = readCapacity (newDevice int (6000 :: nat) False cdBlockSize True)
   in unat (get_be32 b 4) = 2048 \<and> (int (unat (get_be32 b 0)) + 1) * 2048 \<le> 6000"
  using capacity_of_medium [of cdBlockSize int 6000 False True]
  by (simp add: cdBlockSize_def Let_def)

lemma get_be_drop [wire_simps]:
  "k + i + 2 \<le> length xs \<Longrightarrow> get_be16 (drop k xs) i = get_be16 xs (k + i)"
  "k + i + 4 \<le> length xs \<Longrightarrow> get_be32 (drop k xs) i = get_be32 xs (k + i)"
  by (simp_all add: get_be16_def get_be32_def add.assoc)

lemma Handle_read10:
  assumes "18 \<le> length (Payload req)" "Payload req ! 9 = 0x28"
  shows "Handle rd wr c req = do_read rd c req
    (Inr (get_be32 (Payload req) 11, ucast (get_be16 (Payload req) 16)))"
proof -
  have "args10 (cdb req) = Inr (get_be32 (Payload req) 11, ucast (get_be16 (Payload req) 16))"
    using assms(1) cdb_Some [of req] by (simp add: args10_def Let_def get_be_drop)
  then show ?thesis
    using assms cdb_Some [of req] by (simp add: Handle_def Let_def scsi_codes)
qed

lemma Handle_write10:
  assumes "18 \<le> length (Payload req)" "Payload req ! 9 = 0x2A"
  shows "Handle rd wr c req = do_write wr c req
    (Inr (get_be32 (Payload req) 11, ucast (get_be16 (Payload req) 16)))"
proof -
  have "args10 (cdb req) = Inr (get_be32 (Payload req) 11, ucast (get_be16 (Payload req) 16))"
    using assms(1) cdb_Some [of req] by (simp add: args10_def Let_def get_be_drop)
  then show ?thesis
    using assms cdb_Some [of req] by (simp add: Handle_def Let_def scsi_codes)
qed

lemma buildResponse_data:
  "29 \<le> length (Payload req) \<Longrightarrow> drop (length (Payload req)) (buildResponse req data) = data"
  by (simp add: buildResponse_full)

lemma unat_ucast_u16: "unat (ucast w :: u32) = unat (w :: u16)"
proof -
  have "unat w < 2 ^ LENGTH(16)"
    by (rule unsigned_less)
  then show ?thesis
    by (simp add: unsigned_ucast_eq take_bit_nat_eq_self)
qed

lemma zero_filled_eq:
  assumes "length xs = length ys"
    and "\<And>i. pos \<le> i \<Longrightarrow> i < pos + m \<Longrightarrow> i < length xs \<Longrightarrow> xs ! i = ys ! i"
  shows "take m (drop pos xs @ replicate m 0) = take m (drop pos ys @ replicate m (0 :: u8))"
  by (rule nth_equalityI) (use assms in \<open>auto simp: nth_append\<close>)

context cached_medium
begin

lemma read10_data:
  assumes "cache_inv sz content good (d_r c)"
    and "29 \<le> length (Payload req)" "Payload req ! 9 = 0x28"
    and "n = unat (get_be16 (Payload req) 16) * blockSize c"
    and "off = unat (get_be32 (Payload req) 11) * blockSize c"
    and "no_failure (snd (snd (cache_ReadAt rd (d_r c) n (int off))))"
  shows "\<exists>c' out. Handle (cache_ReadAt rd) wr c req = Inr (c', Some out)
    \<and> drop (length (Payload req)) out
        = take n (drop off (take (nat (c_size (d_r c))) (content (c_r (d_r c)))) @ replicate n 0)
    \<and> content (c_r (d_r c')) = content (c_r (d_r c))
    \<and> cache_inv sz content good (d_r c')"
proof -
  let ?lba = "get_be32 (Payload req) 11" and ?blocks = "ucast (get_be16 (Payload req) 16) :: u32"
  have n: "n = unat ?blocks * blockSize c"
    by (simp add: assms(4) unat_ucast_u16)
  obtain r' got err where r: "cache_ReadAt rd (d_r c) n (int off) = (r', got, err)"
    by (metis prod_cases3)
  have ok: "dev_read (cache_ReadAt rd) c ?lba ?blocks
      = (c\<lparr>d_r := r', nBytes := nBytes c + int (length got)\<rparr>, got @ replicate (n - length got) 0)"
    and data: "got @ replicate (n - length got) 0
      = take n (drop off (cache_content content (d_r c)) @ replicate n 0)"
    and inv: "cache_inv sz content good r'"
    using cached.dev_read_ok [OF assms(1), of ?blocks ?lba r' got err] r assms(6)
    by (simp_all add: n assms(5))
  have "Handle (cache_ReadAt rd) wr c req
      = Inr (c\<lparr>d_r := r', nBytes := nBytes c + int (length got)\<rparr>,
          Some (buildResponse req (got @ replicate (n - length got) 0)))"
    using assms(2,3) ok by (simp add: Handle_read10 do_read_def)
  moreover have "content (c_r r') = content (c_r (d_r c))"
    using cache_ReadAt_ok [OF assms(1) r] by simp
  ultimately show ?thesis
    using data inv assms(2) by (simp add: buildResponse_data cache_content_def)
qed

end


text \<open>What a write through the cache leaves in the medium, as a zero-filled read sees it.\<close>

lemma written_content:
  assumes "cache_inv file_Size f_data file_inv s" "cache_WriteAt file_WriteAt s p (int off) = (r', k, None)"
    and "int (off + length p) \<le> cache_Size s" "p \<noteq> []"
  shows "take (length p) (drop off (cache_content f_data r') @ replicate (length p) 0) = p"
    and "pos + m \<le> off \<or> off + length p \<le> pos \<Longrightarrow> take m (drop pos (cache_content f_data r') @ replicate m 0)
      = take m (drop pos (cache_content f_data s) @ replicate m 0)"
proof -
  have inv1: "cache_inv file_Size f_data file_inv r'" and size: "cache_Size r' = cache_Size s"
    using filecache.cached.wr_keeps [OF assms(1,2)] by simp_all
  have len: "length (cache_content f_data x) = nat (cache_Size x)" if "cache_inv file_Size f_data file_inv x" for x
    using fileio.cache_inv_size [OF that] by (auto simp: cache_content_def cache_Size_def)
  have "off + length p \<le> length (cache_content f_data r')"
    using assms(3) by (simp add: len [OF inv1] size)
  then have "take (length p) (drop off (cache_content f_data r') @ replicate (length p) 0)
      = take (length p) (drop (nat (int off)) (cache_content f_data r'))" by simp
  also have "\<dots> = p"
    using filecache.cached.wr_done [OF assms(1) _ _ assms(2)] assms(3) by simp
  finally show "take (length p) (drop off (cache_content f_data r') @ replicate (length p) 0) = p" .
  have same: "length (cache_content f_data r') = length (cache_content f_data s)"
    by (simp add: len [OF inv1] len [OF assms(1)] size)
  then show "take m (drop pos (cache_content f_data r') @ replicate m 0)
      = take m (drop pos (cache_content f_data s) @ replicate m 0)" if "pos + m \<le> off \<or> off + length p \<le> pos"
    using that by (intro zero_filled_eq filecache.cached.wr_frame [OF assms(1,2)]) auto
qed

text \<open>
  C16. WRITE(10) then READ(10): when the write of the trailing bytes of the request succeeded
  inside the medium, reading the same blocks returns those bytes, and reading blocks that do
  not overlap returns what the medium held there before.
\<close>

theorem write10_then_read10:
  assumes "cache_inv file_Size f_data file_inv (d_r c)" "d_w c"
    and "29 \<le> length (Payload w)" "Payload w ! 9 = 0x2A"
    and "n = unat (get_be16 (Payload w) 16) * blockSize c" "0 < n" "n \<le> length (Payload w)"
    and "off = unat (get_be32 (Payload w) 11) * blockSize c" "int (off + n) \<le> c_size (d_r c)"
    and "snd (snd (cache_WriteAt file_WriteAt (d_r c) (drop (length (Payload w) - n) (Payload w)) (int off))) = None"
    and "Handle (cache_ReadAt file_ReadAt) (cache_WriteAt file_WriteAt) c w = Inr (c1, o1)"
    and "29 \<le> length (Payload req)" "Payload req ! 9 = 0x28"
    and "m = unat (get_be16 (Payload req) 16) * blockSize c"
    and "pos = unat (get_be32 (Payload req) 11) * blockSize c"
    and "no_failure (snd (snd (cache_ReadAt file_ReadAt (d_r c1) m (int pos))))"
  shows "\<exists>c2 out. Handle (cache_ReadAt file_ReadAt) (cache_WriteAt file_WriteAt) c1 req = Inr (c2, Some out)
    \<and> (pos = off \<and> m = n \<longrightarrow>
         drop (length (Payload req)) out = drop (length (Payload w) - n) (Payload w))
    \<and> (pos + m \<le> off \<or> off + n \<le> pos \<longrightarrow>
         drop (length (Payload req)) out
           = take m (drop pos (take (nat (c_size (d_r c))) (f_data (c_r (d_r c)))) @ replicate m 0))"
proof -
  let ?lba = "get_be32 (Payload w) 11" and ?blocks = "ucast (get_be16 (Payload w) 16) :: u32"
  let ?p = "drop (length (Payload w) - n) (Payload w)"
  have lp: "length ?p = n" using assms(7) by simp
  obtain r' k where wr: "cache_WriteAt file_WriteAt (d_r c) ?p (int off) = (r', k, None)"
    using assms(10) by (metis prod.collapse)
  have "dev_write (cache_WriteAt file_WriteAt) c w ?lba ?blocks = c\<lparr>d_r := r', nBytes := nBytes c + int k\<rparr>"
    using assms(2,6,7) wr by (simp add: dev_write_def Let_def unat_ucast_u16 assms(5,8))
  then have c1: "c1 = c\<lparr>d_r := r', nBytes := nBytes c + int k\<rparr>"
    using assms(3,4,11) by (simp add: Handle_write10 do_write_def)
  have inv1: "cache_inv file_Size f_data file_inv r'" and size: "cache_Size r' = cache_Size (d_r c)"
    using filecache.cached.wr_keeps [OF assms(1) wr] by simp_all
  obtain c2 out where rd: "Handle (cache_ReadAt file_ReadAt) (cache_WriteAt file_WriteAt) c1 req = Inr (c2, Some out)"
    "drop (length (Payload req)) out = take m (drop pos (cache_content f_data r') @ replicate m 0)"
    using filecache.read10_data [of c1 req m pos "cache_WriteAt file_WriteAt"] assms(12-16) inv1 by (auto simp: c1 cache_content_def)
  have "int (off + length ?p) \<le> cache_Size (d_r c)" "?p \<noteq> []"
    using assms(6,9) lp by (auto simp: cache_Size_def)
  from written_content [OF assms(1) wr this] show ?thesis
    using rd unfolding lp by (simp add: cache_content_def)
qed

lemma write10_then_read10_witness:
  "let f = \<lparr>f_data = [1, 2, 3, 4], f_writable = True, f_faults = [], f_size = 4\<rparr>;
       c = \<lparr>d_r = NewCache file_Size f True, d_w = True, blockSize = 2, mmc = False,
            lastLBA = 1, nBytes = 0\<rparr>;
       w = \<lparr>Header = sample_header 30 0, Payload = (replicate 30 0)[9 := 0x2A, 17 := 1, 29 := 5]\<rparr>;
       req = \<lparr>Header = sample_header 29 1, Payload = (replicate 29 0)[9 := 0x28, 17 := 1]\<rparr>
   in \<exists>c1 o1 c2 out. Handle (cache_ReadAt file_ReadAt) (cache_WriteAt file_WriteAt) c w = Inr (c1, o1)
        \<and> Handle (cache_ReadAt file_ReadAt) (cache_WriteAt file_WriteAt) c1 req = Inr (c2, Some out)
        \<and> drop 29 out = [0, 5]"
proof -
  let ?f = "\<lparr>f_data = [1, 2, 3, 4], f_writable = True, f_faults = [], f_size = 4\<rparr>"
  let ?c = "\<lparr>d_r = NewCache file_Size ?f True, d_w = True, blockSize = 2, mmc = False,
    lastLBA = 1, nBytes = 0\<rparr>"
  let ?w = "\<lparr>Header = sample_header 30 0, Payload = (replicate 30 0)[9 := 0x2A, 17 := 1, 29 := 5]\<rparr>"
  let ?req = "\<lparr>Header = sample_header 29 1, Payload = (replicate 29 0)[9 := 0x28, 17 := 1]\<rparr>"
  let ?h = "Handle (cache_ReadAt file_ReadAt) (cache_WriteAt file_WriteAt)"
  have inv: "cache_inv file_Size f_data file_inv (d_r ?c)"
    using filecache.run_ops_NewCache [of ?f _ "[]" True] by (simp add: file_inv_def)
  have f: "get_be32 (Payload ?w) 11 = 0" "get_be16 (Payload ?w) 16 = 1"
      "get_be32 (Payload ?req) 11 = 0" "get_be16 (Payload ?req) 16 = 1"
      "c_size (d_r ?c) = 4" "drop 28 (Payload ?w) = [0, 5]"
    by code_simp+
  have ok: "snd (snd (cache_WriteAt file_WriteAt (d_r ?c) [0, 5] (int 0))) = None"
    by code_simp
  have panic: "case ?h ?c ?w of Inl _ \<Rightarrow> False
      | Inr (c1, _) \<Rightarrow> no_failure (snd (snd (cache_ReadAt file_ReadAt (d_r c1) 2 (int 0))))"
    by code_simp
  then obtain c1 o1 where w: "?h ?c ?w = Inr (c1, o1)"
    and rd: "no_failure (snd (snd (cache_ReadAt file_ReadAt (d_r c1) 2 (int 0))))"
    by (auto split: sum.splits prod.splits)
  from write10_then_read10 [OF inv _ _ _ _ _ _ _ _ _ w, of 2 0 ?req 2 0] f ok rd
  obtain c2 out where "?h c1 ?req = Inr (c2, Some out)" "drop 29 out = [0, 5]"
    by auto
  with w show ?thesis
    unfolding Let_def by blast
qed

lemma read_only_device_keeps_medium_witness:
  "let f = \<lparr>f_data = [1, 2], f_writable = True, f_faults = [], f_size = 2\<rparr>;
       c = NewDisk cache_Size (NewCache file_Size f False);
       req = \<lparr>Header = sample_header 600 0, Payload = (replicate 600 0)[9 := 0x2A, 17 := 1]\<rparr>
   in \<exists>c' out. Handle (cache_ReadAt file_ReadAt) (cache_WriteAt file_WriteAt) c req = Inr (c', Some out)
        \<and> f_data (c_r (d_r c')) = [1, 2]"
proof -
  let ?f = "\<lparr>f_data = [1, 2], f_writable = True, f_faults = [], f_size = 2\<rparr>"
  let ?c = "NewDisk cache_Size (NewCache file_Size ?f False)"
  let ?req = "\<lparr>Header = sample_header 600 0, Payload = (replicate 600 0)[9 := 0x2A, 17 := 1]\<rparr>"
  have inv: "cache_inv file_Size f_data file_inv (d_r ?c)"
    using filecache.run_ops_NewCache [of ?f _ "[]" False]
    by (simp add: NewDisk_def newDevice_def Let_def file_inv_def)
  have ro: "\<not> d_w ?c" "f_data (c_r (d_r ?c)) = [1, 2]"
    by (simp_all add: NewDisk_def newDevice_def NewCache_def Let_def)
  obtain c' out where h: "Handle (cache_ReadAt file_ReadAt) (cache_WriteAt file_WriteAt) ?c ?req = Inr (c', Some out)"
    by (simp add: Handle_write10 do_write_def)
  from read_only_device_keeps_medium [OF inv ro(1) h] h ro(2) show ?thesis
    unfolding Let_def by auto
qed

end
