(* ===== verification/VmSession.thy ===== *)
theory VmSession
  imports Scsi
begin

text \<open>
  A device redirection (\<^verbatim>\<open>internal/kvm/vmedia/session.go\<close>) and its set-up by the KVM bridge
  (\<^verbatim>\<open>internal/kvm/vmediactl.go\<close>).

  A connection is the bytes the BMC will still send before it closes (or before the context
  closes the connection), and the bytes written to it. \<open>Serve\<close> takes the handler as a
  function on its state, whether the \<open>k\<close>-th write succeeds, and whether the context is
  cancelled when a read fails.
\<close>

section \<open>Connecting\<close>

record vm_options =
  Host :: bytes
  Port :: int
  opt_DeviceType :: u8
  opt_Instance :: u8
  opt_TLS :: bool

record vm_session =
  conn_in :: bytes
  conn_out :: bytes
  s_deviceType :: u8
  s_instance :: u8

datatype connect_err = DialFailed | SendAuthFailed | ReadAckFailed vm_err | AckRefused vm_err

text \<open>The result of dialling is \<^const>\<open>None\<close> or the bytes the peer will send.\<close>

definition Connect ::
  "(vm_options \<Rightarrow> bytes option) \<Rightarrow> bool \<Rightarrow> vm_options \<Rightarrow> bytes \<Rightarrow> connect_err + vm_session" where
  "Connect dial write_ok opts token =
     (case dial opts of
        None \<Rightarrow> Inl DialFailed
      | Some conn \<Rightarrow>
          (let auth = buildAuth (opt_DeviceType opts) (opt_Instance opts) token
           in if \<not> write_ok then Inl SendAuthFailed
              else case readPacket conn of
                     Inl e \<Rightarrow> Inl (ReadAckFailed e)
                   | Inr (ack, conn) \<Rightarrow>
                       (case ackStatus ack of
                          Some e \<Rightarrow> Inl (AckRefused e)
                        | None \<Rightarrow> Inr \<lparr>conn_in = conn, conn_out = auth,
                                       s_deviceType = opt_DeviceType opts,
                                       s_instance = opt_Instance opts\<rparr>)))"

section \<open>Serving\<close>

datatype serve_end =
  Killed | ContextDone | ReadRequestFailed vm_err | WriteResponseFailed | Panicked go_panic

type_synonym 'd handler = "'d \<Rightarrow> packet \<Rightarrow> ('d \<times> bytes option) go"

function serve_loop ::
  "'d handler \<Rightarrow> (nat \<Rightarrow> bool) \<Rightarrow> bool \<Rightarrow> u8 \<Rightarrow> nat \<Rightarrow> bytes \<Rightarrow> 'd \<Rightarrow> bytes
     \<Rightarrow> 'd \<times> bytes \<times> serve_end" where
  "serve_loop h write_ok cancelled dt k conn d out =
     (case readPacket conn of
        Inl e \<Rightarrow> (d, out, if cancelled then ContextDone else ReadRequestFailed e)
      | Inr (req, conn') \<Rightarrow>
          if IsKill req then (d, out, Killed)
          else case h d req of
                 Inl p \<Rightarrow> (d, out, Panicked p)
               | Inr (d', None) \<Rightarrow> serve_loop h write_ok cancelled dt k conn' d' out
               | Inr (d', Some payload) \<Rightarrow>
                   if \<not> write_ok k then (d', out, WriteResponseFailed)
                   else serve_loop h write_ok cancelled dt (k + 1) conn' d'
                          (out @ writeResponse dt req payload))"
  by pat_completeness auto
termination
  by (relation "measure (\<lambda>(h, w, c, dt, k, conn, d, out). length conn)")
    (auto dest!: readPacket_consumes)

declare serve_loop.simps [simp del]

definition Serve ::
  "'d handler \<Rightarrow> (nat \<Rightarrow> bool) \<Rightarrow> bool \<Rightarrow> vm_session \<Rightarrow> 'd \<Rightarrow> 'd \<times> bytes \<times> serve_end" where
  "Serve h write_ok cancelled s d =
     serve_loop h write_ok cancelled (s_deviceType s) 0 (conn_in s) d (conn_out s)"

text \<open>The requests that get an answer, with it, and the handler's state after all of them.\<close>

fun replies :: "'d handler \<Rightarrow> 'd \<Rightarrow> packet list \<Rightarrow> go_panic + ('d \<times> (packet \<times> bytes) list)" where
  "replies h d [] = Inr (d, [])"
| "replies h d (req # reqs) =
     (case h d req of
        Inl p \<Rightarrow> Inl p
      | Inr (d', ans) \<Rightarrow>
          (case replies h d' reqs of
             Inl p \<Rightarrow> Inl p
           | Inr (d'', rs) \<Rightarrow>
               Inr (d'', case ans of None \<Rightarrow> rs | Some payload \<Rightarrow> (req, payload) # rs)))"

section \<open>Set-up by the KVM bridge\<close>

datatype attach_err =
  NotReadyYet | NoSessionToken | UnknownDeviceKind | ConnectFailed connect_err

definition portOr :: "bytes \<Rightarrow> int \<Rightarrow> int" where
  "portOr s d = (case Atoi s of Some n \<Rightarrow> if 0 < n then n else d | None \<Rightarrow> d)"

type_synonym jnlp_args = "(string \<times> bytes) list"

definition arg :: "jnlp_args \<Rightarrow> string \<Rightarrow> bytes" where
  "arg args k = (case map_of args k of None \<Rightarrow> [] | Some v \<Rightarrow> v)"

definition vmediaPort :: "string \<Rightarrow> jnlp_args \<Rightarrow> attach_err + int" where
  "vmediaPort kind args =
     (if kind = ''cd'' then Inr (portOr (arg args ''cdport'') PortCD)
      else if kind = ''fd'' then Inr (portOr (arg args ''fdport'') PortFD)
      else if kind = ''hd'' then Inr (portOr (arg args ''hdport'') PortHD)
      else Inl UnknownDeviceKind)"

text \<open>The device; its cache is its first field.\<close>

definition buildEmulator :: "('s \<Rightarrow> int) \<Rightarrow> string \<Rightarrow> 's \<Rightarrow> bool \<Rightarrow> 's cache device" where
  "buildEmulator sz kind backing writable =
     (if kind = ''cd'' then NewCDROM cache_Size (NewCache sz backing False)
      else if writable then NewDiskRW cache_Size (NewCache sz backing True)
      else NewDisk cache_Size (NewCache sz backing False))"

text \<open>
  \<open>Attach\<close> with the published client's token and arguments, if there is one: the session
  and the emulator that \<open>Serve\<close> then runs on.
\<close>

definition Attach ::
  "(vm_options \<Rightarrow> bytes option) \<Rightarrow> bool \<Rightarrow> ('s \<Rightarrow> int) \<Rightarrow> bytes \<Rightarrow> (bytes \<times> jnlp_args) option
     \<Rightarrow> string \<Rightarrow> 's \<Rightarrow> bool \<Rightarrow> attach_err + (vm_session \<times> 's cache device)" where
  "Attach dial write_ok sz host cl kind backing writable =
     (case cl of
        None \<Rightarrow> Inl NotReadyYet
      | Some (token, args) \<Rightarrow>
          if token = [] then Inl NoSessionToken
          else case vmediaPort kind args of
                 Inl e \<Rightarrow> Inl e
               | Inr port \<Rightarrow>
                   (case Connect dial write_ok
                           \<lparr>Host = host, Port = port, opt_DeviceType = DeviceCDROM,
                            opt_Instance = 0, opt_TLS = (arg args ''vmsecure'' = go_string ''1'')\<rparr>
                           token of
                      Inl e \<Rightarrow> Inl (ConnectFailed e)
                    | Inr sess \<Rightarrow> Inr (sess, buildEmulator sz kind backing writable)))"

section \<open>Answers in order\<close>

lemma serve_loop_requests:
  "\<forall>p \<in> set reqs. packet_wf p \<and> \<not> IsKill p \<Longrightarrow> replies h d reqs = Inr (d', rs) \<Longrightarrow>
   \<exists>k'. serve_loop h (\<lambda>_. True) cancelled dt k (concat (map packet_bytes reqs) @ rest) d out =
     serve_loop h (\<lambda>_. True) cancelled dt k' rest d' (out @ concat (map (\<lambda>(r, p). writeResponse dt r p) rs))"
proof (induction reqs arbitrary: k d out rs)
  case Nil
  then show ?case by auto
next
  case (Cons req reqs)
  then obtain d1 ans rs1 where h: "h d req = Inr (d1, ans)" and r: "replies h d1 reqs = Inr (d', rs1)"
    and rs: "rs = (case ans of None \<Rightarrow> rs1 | Some p \<Rightarrow> (req, p) # rs1)"
    by (auto split: sum.splits prod.splits)
  have rd: "readPacket (packet_bytes req @ s) = Inr (req, s)" for s
    using Cons.prems(1) by (intro readPacket_bytes) simp
  show ?case
  proof (cases ans)
    case None
    with Cons.IH [OF _ r, of k out] Cons.prems(1) h rs show ?thesis
      by (subst serve_loop.simps) (simp add: rd)
  next
    case (Some p)
    with Cons.IH [OF _ r, of "k + 1" "out @ writeResponse dt req p"] Cons.prems(1) h rs
    show ?thesis
      by (subst serve_loop.simps) (simp add: rd)
  qed
qed

text \<open>
  C17. A redirection answers every request in order: for any sequence of well-formed requests
  followed by a kill, the loop runs the handler once per request in order, writes one packet
  per answer, and ends without error with the handler's last state; the answers, read back,
  carry the sequence numbers, instances and payloads of the requests they answer.
\<close>

theorem serve_answers_in_order:
  assumes "\<forall>p \<in> set reqs. packet_wf p \<and> \<not> IsKill p" "packet_wf kill" "IsKill kill"
    and "conn_in s = concat (map packet_bytes reqs) @ packet_bytes kill @ rest"
    and "replies h d reqs = Inr (d', rs)" "\<forall>(req, payload) \<in> set rs. length payload \<le> maxPacketPayload"
  shows "\<exists>written ps. Serve h (\<lambda>_. True) cancelled s d = (d', conn_out s @ written, Killed)
    \<and> iusb.dec_n (length rs) written = Inr (ps, [])
    \<and> map (\<lambda>p. (SequenceNumber (Header p), Instance (Header p), Payload p)) ps
      = map (\<lambda>(r, payload). (SequenceNumber (Header r), Instance (Header r), payload)) rs"
proof -
  let ?dt = "s_deviceType s"
  let ?w = "concat (map (\<lambda>(r, p). writeResponse ?dt r p) rs)"
  obtain k where "Serve h (\<lambda>_. True) cancelled s d
      = serve_loop h (\<lambda>_. True) cancelled ?dt k (packet_bytes kill @ rest) d' (conn_out s @ ?w)"
    using serve_loop_requests [OF assms(1,5), of cancelled ?dt 0 "packet_bytes kill @ rest" "conn_out s"]
    unfolding Serve_def assms(4) by blast
  then have serve: "Serve h (\<lambda>_. True) cancelled s d = (d', conn_out s @ ?w, Killed)"
    using assms(2,3) by (simp add: serve_loop.simps readPacket_bytes)
  have "\<exists>ps. ?w = concat (map packet_bytes ps) \<and> (\<forall>p \<in> set ps. packet_wf p) \<and> length ps = length rs
    \<and> map (\<lambda>p. (SequenceNumber (Header p), Instance (Header p), Payload p)) ps
      = map (\<lambda>(r, payload). (SequenceNumber (Header r), Instance (Header r), payload)) rs"
    using assms(6)
  proof (induction rs)
    case Nil
    then show ?case by (intro exI [of _ "[]"]) simp
  next
    case (Cons x rs)
    obtain r p where x: "x = (r, p)" by force
    with Cons obtain ps where ps: "concat (map (\<lambda>(r, p). writeResponse ?dt r p) rs) = concat (map packet_bytes ps)"
      "\<forall>p \<in> set ps. packet_wf p" "length ps = length rs"
      "map (\<lambda>p. (SequenceNumber (Header p), Instance (Header p), Payload p)) ps
      = map (\<lambda>(r, payload). (SequenceNumber (Header r), Instance (Header r), payload)) rs"
      by auto
    obtain hd where "writeResponse ?dt r p = packet_bytes \<lparr>Header = hd, Payload = p\<rparr>"
      "packet_wf \<lparr>Header = hd, Payload = p\<rparr>" "SequenceNumber hd = SequenceNumber (Header r)"
      "Instance hd = Instance (Header r)"
      using writeResponse_packet [of p ?dt r] Cons.prems x by auto
    with ps x show ?case
      by (intro exI [of _ "\<lparr>Header = hd, Payload = p\<rparr> # ps"]) simp
  qed
  then obtain ps where ps: "?w = concat (map packet_bytes ps)" "\<forall>p \<in> set ps. packet_wf p"
    "length ps = length rs" "map (\<lambda>p. (SequenceNumber (Header p), Instance (Header p), Payload p)) ps
      = map (\<lambda>(r, payload). (SequenceNumber (Header r), Instance (Header r), payload)) rs"
    by blast
  have "iusb.dec_n (length rs) ?w = Inr (ps, [])"
    using iusb.dec_n_concat [OF ps(2), of "[]"] ps(1,3) by simp
  with serve ps(4) show ?thesis by blast
qed

lemma serve_answers_in_order_witness:
  "let req = \<lparr>Header = sample_header 10 3, Payload = replicate 10 0\<rparr>;
       kill = \<lparr>Header = sample_header 10 4, Payload = (replicate 10 0)[9 := 0xF6]\<rparr>;
       s = \<lparr>conn_in = packet_bytes req @ packet_bytes kill, conn_out = [], s_deviceType = 5, s_instance = 0\<rparr>
   in \<exists>written p. Serve (\<lambda>d req. Inr (d + 1, Some [7])) (\<lambda>_. True) False s (0 :: nat) = (1, written, Killed)
        \<and> iusb.dec_n 1 written = Inr ([p], []) \<and> SequenceNumber (Header p) = 3 \<and> Payload p = [7]"
proof -
  let ?req = "\<lparr>Header = sample_header 10 3, Payload = replicate 10 0\<rparr>"
  let ?kill = "\<lparr>Header = sample_header 10 4, Payload = (replicate 10 0)[9 := 0xF6]\<rparr>"
  let ?s = "\<lparr>conn_in = packet_bytes ?req @ packet_bytes ?kill, conn_out = [], s_deviceType = 5, s_instance = 0\<rparr>"
  let ?h = "\<lambda>d req. Inr (d + 1, Some [7 :: u8]) :: (nat \<times> bytes option) go"
  have wf: "\<forall>p \<in> set [?req]. packet_wf p \<and> \<not> IsKill p" "packet_wf ?kill" "IsKill ?kill"
    by (simp_all add: packet_wf_def sample_header_def maxPacketPayload_def IsKill_def Opcode_def
        opcodeOffset_def OpKillRedir_def)
  have r: "replies ?h 0 [?req] = Inr (1, [(?req, [7])])" by simp
  obtain written ps where w: "Serve ?h (\<lambda>_. True) False ?s 0 = (1, [] @ written, Killed)"
    "iusb.dec_n (length [(?req, [7 :: u8])]) written = Inr (ps, [])"
    "map (\<lambda>p. (SequenceNumber (Header p), Instance (Header p), Payload p)) ps = [(3, 0, [7])]"
    using serve_answers_in_order [OF wf, of ?s "[]" ?h 0 1 "[(?req, [7])]" False] r
    by (auto simp: sample_header_def maxPacketPayload_def)
  from w(3) obtain p where "ps = [p]" "SequenceNumber (Header p) = 3" "Payload p = [7]"
    by auto
  with w show ?thesis
    unfolding Let_def by (intro exI [of _ written] exI [of _ p]) simp
qed

text \<open>What a handler's every step keeps, a whole session keeps, however it ends.\<close>

lemma serve_loop_invariant:
  assumes step: "\<And>d req d' ans. I d \<Longrightarrow> h d req = Inr (d', ans) \<Longrightarrow> I d'"
  shows "I d \<Longrightarrow> I (fst (serve_loop h write_ok cancelled dt k conn d out))"
proof (induction "length conn" arbitrary: k conn d out rule: less_induct)
  case less
  show ?case
  proof (cases "readPacket conn")
    case (Inl e)
    with less.prems show ?thesis by (simp add: serve_loop.simps)
  next
    case (Inr x)
    obtain req conn' where x: "x = (req, conn')" by force
    have shorter: "length conn' < length conn"
      using readPacket_consumes Inr x by fastforce
    show ?thesis
    proof (cases "IsKill req \<or> (\<exists>p. h d req = Inl p)")
      case True
      with less.prems Inr x show ?thesis by (auto simp: serve_loop.simps)
    next
      case False
      then obtain d' ans where h: "h d req = Inr (d', ans)"
        by (cases "h d req") auto
      have d': "I d'"
        using step [OF less.prems h] .
      show ?thesis
        using False Inr x h d' less.hyps [OF shorter]
        by (subst serve_loop.simps) (simp split: option.splits)
    qed
  qed
qed

context writable_medium
begin

lemma Handle_good:
  assumes "good (d_r c)" "Handle rd wr c req = Inr (c', out)"
  shows "good (d_r c') \<and> sz (d_r c') = sz (d_r c)"
proof -
  have r: "good (d_r c1) \<and> sz (d_r c1) = sz (d_r c)"
    if "dev_read rd c lba blocks = (c1, data)" for lba blocks c1 data
    using that rd_keeps [OF assms(1)] by (force simp: dev_read_def Let_def split: prod.splits)
  have w: "good (d_r (dev_write wr c req lba blocks)) \<and> sz (d_r (dev_write wr c req lba blocks)) = sz (d_r c)"
    for lba blocks
    using assms(1) wr_keeps [OF assms(1)] by (force simp: dev_write_def Let_def split: prod.splits)
  show ?thesis
    using Handle_Inr [OF assms(2)] r w assms(1) by auto
qed

end

lemma buildEmulator_ok:
  assumes "file_inv f"
  shows "cache_inv file_Size f_data file_inv (d_r (buildEmulator file_Size kind f writable))
    \<and> maxWindows (d_r (buildEmulator file_Size kind f writable)) = 64
    \<and> (d_w (buildEmulator file_Size kind f writable) \<longleftrightarrow> kind \<noteq> ''cd'' \<and> writable)
    \<and> c_r (d_r (buildEmulator file_Size kind f writable)) = f"
  using filecache.run_ops_NewCache [OF assms refl, of "[]"]
  by (simp add: buildEmulator_def NewCDROM_def NewDisk_def NewDiskRW_def newDevice_def Let_def
      defaultMaxWindows_def) (simp add: NewCache_def)

text \<open>
  C14. Whatever bytes the BMC sends and however the session ends, serving the emulator built
  for an image keeps the cache invariant, so that the medium reported and the windows cached
  stay those of the file; and for a CD-ROM, or a disk attached without write access, no byte
  of the file is changed.
\<close>

theorem session_protects_medium:
  assumes "file_inv f"
  defines "h \<equiv> Handle (cache_ReadAt file_ReadAt) (cache_WriteAt file_WriteAt)"
  shows "let d = fst (Serve h write_ok cancelled s (buildEmulator file_Size kind f writable)) in
    cache_inv file_Size f_data file_inv (d_r d) \<and> cache_Size (d_r d) = file_Size f
    \<and> (kind = ''cd'' \<or> \<not> writable \<longrightarrow> f_data (c_r (d_r d)) = f_data f)"
proof -
  let ?e = "buildEmulator file_Size kind f writable"
  let ?I = "\<lambda>d. cache_inv file_Size f_data file_inv (d_r d) \<and> cache_Size (d_r d) = file_Size f"
  let ?J = "\<lambda>d. ?I d \<and> \<not> d_w d \<and> f_data (c_r (d_r d)) = f_data f"
  note e = buildEmulator_ok [OF assms(1), of kind writable]
  then have "cache_Size (d_r ?e) = file_Size f"
    by (simp add: cache_inv_def cache_Size_def)
  with e have i: "?I ?e" by simp
  have step: "?I d'" if "?I d" "h d req = Inr (d', ans)" for d req d' ans
    using that filecache.cached.Handle_good [of d req d' ans] by (simp add: h_def)
  have "?I (fst (Serve h write_ok cancelled s ?e))"
    unfolding Serve_def by (rule serve_loop_invariant [where I = ?I, OF step i])
  moreover have "?J (fst (Serve h write_ok cancelled s ?e))" if "kind = ''cd'' \<or> \<not> writable"
  proof -
    have "?J d'" if "?J d" "h d req = Inr (d', ans)" for d req d' ans
      using that step [of d req d' ans] read_only_device_keeps [of d req d' ans] by (auto simp: h_def)
    moreover have "?J ?e" using i e that by auto
    ultimately show ?thesis
      unfolding Serve_def by (rule serve_loop_invariant [where I = ?J])
  qed
  ultimately show ?thesis by (auto simp: Let_def)
qed

lemma session_protects_medium_witness:
  "let f = \<lparr>f_data = [1, 2, 3], f_writable = True, f_faults = [], f_size = 3\<rparr>;
       s = \<lparr>conn_in = [1, 2, 3], conn_out = [], s_deviceType = 5, s_instance = 0\<rparr>
   in f_data (c_r (d_r (fst (Serve (Handle (cache_ReadAt file_ReadAt) (cache_WriteAt file_WriteAt))
        (\<lambda>_. True) False s (buildEmulator file_Size ''cd'' f True))))) = [1, 2, 3]"
  using session_protects_medium [of "\<lparr>f_data = [1, 2, 3], f_writable = True, f_faults = [], f_size = 3\<rparr>"
    "\<lambda>_. True" False "\<lparr>conn_in = [1, 2, 3], conn_out = [], s_deviceType = 5, s_instance = 0\<rparr>" "''cd''" True]
  by (simp add: Let_def file_inv_def)

lemma Connect_Inr:
  assumes "Connect dial write_ok opts token = Inr sess"
  shows "\<exists>conn ack. dial opts = Some conn \<and> readPacket conn = Inr (ack, conn_in sess)
    \<and> ackStatus ack = None \<and> conn_out sess = buildAuth (opt_DeviceType opts) (opt_Instance opts) token"
  using assms by (auto simp: Connect_def Let_def split: option.splits if_splits sum.splits prod.splits)

text \<open>
  Attaching succeeds only for a published session with a token, one of the three device
  kinds, and an ACK with status 1 as the first packet of the BMC; then the session has sent
  exactly the authentication packet, what follows the ACK is still unread, and the device
  is writable only if it is not a CD-ROM and write access was asked for.
\<close>

theorem attach_outcome:
  assumes "Attach dial write_ok sz host cl kind backing writable = Inr (sess, dev)"
  shows "(\<exists>token args port opts conn ack. cl = Some (token, args) \<and> token \<noteq> []
      \<and> vmediaPort kind args = Inr port \<and> 0 < port \<and> dial opts = Some conn \<and> Port opts = port
      \<and> readPacket conn = Inr (ack, conn_in sess) \<and> ackStatus ack = None
      \<and> conn_out sess = buildAuth DeviceCDROM 0 token)
    \<and> kind \<in> {''cd'', ''fd'', ''hd''} \<and> (d_w dev \<longleftrightarrow> kind \<noteq> ''cd'' \<and> writable)"
proof -
  obtain token args port where cl: "cl = Some (token, args)" "token \<noteq> []"
    and port: "vmediaPort kind args = Inr port"
    using assms by (auto simp: Attach_def split: option.splits if_splits sum.splits)
  let ?opts = "\<lparr>Host = host, Port = port, opt_DeviceType = DeviceCDROM, opt_Instance = 0,
    opt_TLS = (arg args ''vmsecure'' = go_string ''1'')\<rparr>"
  have c: "Connect dial write_ok ?opts token = Inr sess" and dev: "dev = buildEmulator sz kind backing writable"
    using assms cl port by (auto simp: Attach_def split: sum.splits)
  have "0 < portOr x p" if "0 < p" for x p
    using that by (auto simp: portOr_def split: option.splits)
  then have "0 < port" "kind \<in> {''cd'', ''fd'', ''hd''}"
    using port by (auto simp: vmediaPort_def PortCD_def PortFD_def PortHD_def split: if_splits)
  moreover have "d_w dev \<longleftrightarrow> kind \<noteq> ''cd'' \<and> writable"
    by (simp add: dev buildEmulator_def NewCDROM_def NewDisk_def NewDiskRW_def newDevice_def Let_def)
  moreover obtain conn ack where a: "dial ?opts = Some conn" "readPacket conn = Inr (ack, conn_in sess)"
    "ackStatus ack = None" "conn_out sess = buildAuth DeviceCDROM 0 token"
    using Connect_Inr [OF c] by auto
  moreover have "\<exists>token args port opts conn ack. cl = Some (token, args) \<and> token \<noteq> []
      \<and> vmediaPort kind args = Inr port \<and> 0 < port \<and> dial opts = Some conn \<and> Port opts = port
      \<and> readPacket conn = Inr (ack, conn_in sess) \<and> ackStatus ack = None
      \<and> conn_out sess = buildAuth DeviceCDROM 0 token"
    using cl port a \<open>0 < port\<close>
    by (intro exI [of _ token] exI [of _ args] exI [of _ port] exI [of _ ?opts] exI [of _ conn]
        exI [of _ ack] conjI) simp_all
  ultimately show ?thesis by blast
qed

lemma attach_outcome_witness:
  "let ack = packet_bytes \<lparr>Header = sample_header 31 0, Payload = (replicate 31 0)[9 := 0xF1, 30 := 1]\<rparr>
   in case Attach (\<lambda>_. Some ack) True file_Size [] (Some ([65], [])) ''fd''
          \<lparr>f_data = [], f_writable = False, f_faults = [], f_size = 0\<rparr> False of
        Inl _ \<Rightarrow> False | Inr (sess, dev) \<Rightarrow> \<not> d_w dev"
proof -
  let ?p = "\<lparr>Header = sample_header 31 0, Payload = (replicate 31 0)[9 := 0xF1, 30 := 1]\<rparr>"
  let ?f = "\<lparr>f_data = [], f_writable = False, f_faults = [], f_size = 0\<rparr>"
  have "readPacket (packet_bytes ?p) = Inr (?p, [])"
    using readPacket_bytes [of ?p "[]"] by (simp add: packet_wf_def sample_header_def maxPacketPayload_def)
  moreover have "ackStatus ?p = None"
    by (simp add: ackStatus_def Opcode_def iusb_codes iusb_offsets)
  ultimately obtain sess dev where a: "Attach (\<lambda>_. Some (packet_bytes ?p)) True file_Size [] (Some ([65], []))
      ''fd'' ?f False = Inr (sess, dev)"
    by (simp add: Attach_def vmediaPort_def Connect_def)
  from attach_outcome [OF a] show ?thesis
    unfolding Let_def a by simp
qed

end
