(* ===== verification/BrowserBacking.thy ===== *)
theory BrowserBacking
  imports ControlLink VmSession
begin

text \<open>
  The virtual-media backing whose bytes stay in the browser (\<^verbatim>\<open>internal/webui/browserbacking.go\<close>). It
  is a medium in the sense of \<open>Backing\<close>, so the cache and the SCSI emulation are correct in front of
  it, and reading a picked image through all layers is one theorem.
\<close>

section \<open>One request at a time\<close>

text \<open>
  What one mount sees of the connection: the next id, the files the browser serves, and for each
  request in turn whether the socket fails, the connection ends or the browser never answers.
\<close>

datatype link_fault = SocketFails nat | ConnectionEnds | NeverAnswers

record link =
  l_next :: u32
  l_files :: "u8 \<Rightarrow> bytes option"
  l_faults :: "link_fault option list"

definition current_fault :: "link \<Rightarrow> link_fault option" where
  "current_fault l = (case l_faults l of [] \<Rightarrow> None | f # fs \<Rightarrow> f)"

definition request :: "link \<Rightarrow> u8 \<Rightarrow> u8 \<Rightarrow> u64 \<Rightarrow> u32 \<Rightarrow> bytes \<Rightarrow> link \<times> (req_error + vm_resp)" where
  "request l op dev off len data =
     (let rid = l_next l + 1;
          answer = browser_answer (l_files l) (request_frame op dev rid off len data)
      in (l\<lparr>l_next := rid, l_faults := tl (l_faults l)\<rparr>,
          case current_fault l of
            Some (SocketFails e) \<Rightarrow> Inl (WriteError e)
          | Some ConnectionEnds \<Rightarrow> Inl ContextErr
          | Some NeverAnswers \<Rightarrow> Inl BrowserTimedOut
          | None \<Rightarrow> (case parse_response answer of
                       None \<Rightarrow> Inl BrowserTimedOut
                     | Some (rid', r) \<Rightarrow> if rid' = rid then Inr r else Inl BrowserTimedOut)))"

text \<open>The steps of the connection that make up one request and its answer.\<close>

definition request_events :: "link \<Rightarrow> nat \<Rightarrow> u8 \<Rightarrow> u8 \<Rightarrow> u64 \<Rightarrow> u32 \<Rightarrow> bytes \<Rightarrow> conn_event list" where
  "request_events l k op dev off len data =
     Begin op dev off len data #
     (case current_fault l of
        Some (SocketFails e) \<Rightarrow> [WriteBinary k (Some e)]
      | Some ConnectionEnds \<Rightarrow> [WriteBinary k None, EndContext, SeeDone k]
      | Some NeverAnswers \<Rightarrow> [WriteBinary k None, TimerFires k]
      | None \<Rightarrow> [WriteBinary k None,
                 Arrive (browser_answer (l_files l) (request_frame op dev (l_next l + 1) off len data)),
                 TakeResponse k]) @ [Finish k]"

lemma browser_echoes_id: "\<exists>r. parse_response (browser_answer files (request_frame op dev rid off len data)) = Some (rid, r)"
  unfolding browser_answer_def Let_def request_frame_fields
  by (auto simp: parse_response_def status_reply_def wire_simps nth_append split: option.split)

text \<open>C4. The one-at-a-time view of the browser connection that the virtual-media backing is built on is what
  the interleaved connection does: from any state in which the read loop is free, the steps of one
  request (its frame written, the browser's answer, a timeout, the end of the connection or a failing
  socket) are all enabled, the call returns exactly the result of the sequential \<open>request\<close>, and
  afterwards no entry for its id is left and the read loop is free again.\<close>

theorem request_refines:
  assumes "stuck c = None" "nextID c = l_next l" "request l op dev off len data = (l', res)"
  shows "\<exists>c' q. conn_run c (request_events l (length (calls c)) op dev off len data) = Some c'
    \<and> calls c' = calls c @ [q] \<and> q_id q = l_next l' \<and> q_phase q = Returned res \<and> q_chan q = None
    \<and> nextID c' = l_next l' \<and> pending c' = (pending c)(l_next l' := None) \<and> stuck c' = None"
proof -
  obtain r where r: "parse_response (browser_answer (l_files l) (request_frame op dev (l_next l + 1) off len data))
      = Some (l_next l + 1, r)"
    using browser_echoes_id by blast
  have l': "l_next l' = l_next l + 1" using assms(3) by (auto simp: request_def Let_def)
  note steps = request_events_def request_begin_def Let_def call_step_def set_call_def write_binary_def give_up_def
    take_response_def finish_def nth_append
  show ?thesis
  proof (cases "current_fault l")
    case None
    with assms r have "res = Inr r" by (simp add: request_def Let_def)
    with assms None r l' show ?thesis by (simp add: steps handleBinaryResponse_def)
  next
    case (Some f)
    with assms r l' show ?thesis by (cases f) (auto simp: request_def Let_def steps)
  qed
qed

section \<open>The backing in the browser\<close>

record browser_backing =
  bb_link :: link
  bb_dev :: u8
  bb_size :: int
  bb_writable :: bool

definition newBrowserBacking :: "link \<Rightarrow> u8 \<Rightarrow> int \<Rightarrow> bool \<Rightarrow> browser_backing" where
  "newBrowserBacking l dev n w = \<lparr>bb_link = l, bb_dev = dev, bb_size = n, bb_writable = w\<rparr>"

fun backing_err :: "req_error \<Rightarrow> io_err" where
  "backing_err (WriteError e) = BackingFailure e"
| "backing_err ContextErr = ContextCanceled"
| "backing_err BrowserTimedOut = BrowserTimeout"

definition bb_ReadAt :: "browser_backing read_at" where
  "bb_ReadAt b n off =
     (if bb_size b \<le> off then (b, [], Some EOF)
      else let want = int n;
               want = (if bb_size b - off < want then bb_size b - off else want);
               (l, resp) = request (bb_link b) opRead (bb_dev b) (word_of_int off) (word_of_int want) [];
               b = b\<lparr>bb_link := l\<rparr>
           in case resp of
                Inl e \<Rightarrow> (b, [], Some (backing_err e))
              | Inr r \<Rightarrow>
                  if rs_status r \<noteq> 0 then (b, [], Some BrowserIO)
                  else let got = take n (rs_data r)
                       in (b, got, if length got < n then Some EOF else None))"

definition bb_WriteAt :: "browser_backing write_at" where
  "bb_WriteAt b p off =
     (if \<not> bb_writable b then (b, 0, Some ReadOnlyMedium)
      else let (l, resp) = request (bb_link b) opWrite (bb_dev b) (word_of_int off) (of_nat (length p)) p;
               b = b\<lparr>bb_link := l\<rparr>
           in case resp of
                Inl e \<Rightarrow> (b, 0, Some (backing_err e))
              | Inr r \<Rightarrow> if rs_status r \<noteq> 0 then (b, 0, Some BrowserIO) else (b, length p, None))"

definition bb_content :: "browser_backing \<Rightarrow> bytes" where
  "bb_content b = (case l_files (bb_link b) (bb_dev b) of None \<Rightarrow> [] | Some content \<Rightarrow> content)"

text \<open>
  The browser serves a file of the size the mount was told. The length of a request has 32 bits, and
  a single read of the backing may ask for as much as the whole file: below 4 GiB no request wraps.
\<close>

definition bb_good :: "browser_backing \<Rightarrow> bool" where
  "bb_good b =
     (l_files (bb_link b) (bb_dev b) \<noteq> None \<and> bb_size b = int (length (bb_content b)) \<and> bb_size b < 2 ^ 32)"

lemma request_files: "request l op dev off len data = (l', res) \<Longrightarrow> l_files l' = l_files l"
  by (auto simp: request_def Let_def)

lemma backing_err_fails [simp]: "\<not> no_failure (Some (backing_err e))"
  by (cases e) (simp_all add: no_failure_def)

lemma request_read_result:
  assumes "request l opRead dev off len [] = (l', Inr r)" "l_files l dev = Some content"
  shows "r = \<lparr>rs_status = 0, rs_data = take (unat len) (drop (unat off) content)\<rparr>"
  using assms browser_answer_read [of "l_files l" dev "l_next l + 1" off len]
  by (auto simp: request_def Let_def split: option.splits link_fault.splits)

lemma request_write_result:
  "request l opWrite dev off len data = (l', Inr r) \<Longrightarrow> rs_status r = 1"
  using browser_answer_write [of "l_files l" dev "l_next l + 1" off len data]
  by (auto simp: request_def Let_def split: option.splits link_fault.splits)

lemma bb_keeps:
  "bb_ReadAt b n off = (b', got, err) \<Longrightarrow> bb_good b' = bb_good b \<and> bb_size b' = bb_size b \<and> bb_content b' = bb_content b"
  "bb_WriteAt b p off = (b', k, err) \<Longrightarrow> bb_good b' = bb_good b \<and> bb_size b' = bb_size b \<and> bb_content b' = bb_content b"
  by (auto simp: bb_ReadAt_def bb_WriteAt_def Let_def bb_good_def bb_content_def dest!: request_files
      split: if_splits prod.splits sum.splits)

lemma bb_WriteAt_fails: "bb_WriteAt b p off = (b', k, err) \<Longrightarrow> k = 0 \<and> err \<noteq> None"
  by (auto simp: bb_WriteAt_def Let_def dest!: request_write_result split: if_splits prod.splits sum.splits)

lemma word_small: "0 \<le> i \<Longrightarrow> i < 2 ^ LENGTH('a) \<Longrightarrow> unat (word_of_int i :: 'a::len word) = nat i"
  by (simp add: unat_eq_nat_uint uint_word_of_int)

lemma no_failure_short [simp]: "no_failure (if c then Some EOF else None)"
  by simp

lemma bb_ReadAt_cases:
  assumes g: "bb_good b" and off: "0 \<le> off" and rd: "bb_ReadAt b n off = (b', got, err)"
  shows "(got = [] \<and> \<not> no_failure err)
    \<or> (got = take n (drop (nat off) (bb_content b)) \<and> no_failure err)"
proof (cases "bb_size b \<le> off")
  case True
  with g off rd show ?thesis by (auto simp: bb_ReadAt_def bb_good_def)
next
  case False
  define want where "want = (if bb_size b - off < int n then bb_size b - off else int n)"
  obtain l resp where q: "request (bb_link b) opRead (bb_dev b) (word_of_int off) (word_of_int want) [] = (l, resp)"
    by force
  show ?thesis
  proof (cases resp)
    case (Inl e)
    with False q rd show ?thesis by (auto simp: bb_ReadAt_def Let_def simp flip: want_def)
  next
    case (Inr r)
    have b: "0 \<le> want" "want < 2 ^ 32" "off < 2 ^ 64"
      using g off False by (auto simp: want_def bb_good_def)
    have w: "unat (word_of_int off :: u64) = nat off" "unat (word_of_int want :: u32) = nat want"
      by (rule word_small; use b off in simp)+
    obtain content where c: "l_files (bb_link b) (bb_dev b) = Some content" "bb_content b = content"
      using g by (auto simp: bb_good_def bb_content_def)
    have r: "r = \<lparr>rs_status = 0, rs_data = take (nat want) (drop (nat off) content)\<rparr>"
      using request_read_result [OF q [unfolded Inr] c(1)] w by simp
    have "take n (take (nat want) (drop (nat off) content)) = take n (drop (nat off) content)"
      using g c(2) off False by (auto simp: want_def bb_good_def min_def)
    with False q rd Inr r c show ?thesis by (auto simp: bb_ReadAt_def Let_def simp flip: want_def)
  qed
qed

interpretation browser: writable_medium bb_ReadAt bb_size bb_content bb_good bb_WriteAt
proof unfold_locales
  fix b b' :: browser_backing and n off got err p k i
  show "0 \<le> bb_size b \<and> bb_size b \<le> int (length (bb_content b))" if "bb_good b"
    using that by (simp add: bb_good_def)
  {
    assume g: "bb_good b" and rd: "bb_ReadAt b n off = (b', got, err)"
    show "bb_good b' \<and> bb_size b' = bb_size b \<and> bb_content b' = bb_content b"
      using bb_keeps(1) [OF rd] g by simp
    assume off: "0 \<le> off"
    note c = bb_ReadAt_cases [OF g off rd]
    show "got = take (length got) (take n (drop (nat off) (bb_content b)))"
    proof -
      from c have "got = [] \<or> got = take n (drop (nat off) (bb_content b))" by blast
      then show ?thesis by (metis length_0_conv take0 take_all order_refl)
    qed
    show "got = take n (drop (nat off) (bb_content b))" if "no_failure err"
      using c that by auto
  }
  show "length got = n" if "bb_good b" "bb_ReadAt b n off = (b', got, None)"
    using that by (auto simp: bb_ReadAt_def Let_def split: if_splits prod.splits sum.splits)
  {
    assume g: "bb_good b" and wr: "bb_WriteAt b p off = (b', k, err)"
    note keeps = bb_keeps(2) [OF wr]
    show "bb_good b' \<and> bb_size b' = bb_size b \<and> length (bb_content b) \<le> length (bb_content b')"
      using keeps g by simp
    show "bb_content b' ! i = bb_content b ! i"
      using keeps by simp
    show "k \<le> length p" using bb_WriteAt_fails [OF wr] by simp
  }
  show "k = length p \<and> take (length p) (drop (nat off) (bb_content b')) = p"
    if "bb_WriteAt b p off = (b', k, None)"
    using bb_WriteAt_fails [OF that] by simp
qed

interpretation browsercache: cached_writable bb_ReadAt bb_size bb_content bb_good bb_WriteAt ..

section \<open>A medium streamed from the browser\<close>

abbreviation browser_handler :: "browser_backing cache device handler" where
  "browser_handler \<equiv> Handle (cache_ReadAt bb_ReadAt) (cache_WriteAt bb_WriteAt)"

text \<open>A device whose cache is in order and whose backing serves this content.\<close>

definition serves :: "bytes \<Rightarrow> browser_backing cache device \<Rightarrow> bool" where
  "serves content d =
     (cache_inv bb_size bb_content bb_good (d_r d) \<and> bb_content (c_r (d_r d)) = content)"

lemma serves_size: "serves content d \<Longrightarrow> nat (c_size (d_r d)) = length content"
  by (auto simp: serves_def cache_inv_def bb_good_def)

lemma Handle_serves:
  assumes s: "serves content d" and h: "browser_handler d req = Inr (d', ans)"
  shows "serves content d'"
proof -
  have inv: "cache_inv bb_size bb_content bb_good (d_r d)" and c: "bb_content (c_r (d_r d)) = content"
    using s by (simp_all add: serves_def)
  have inv': "cache_inv bb_size bb_content bb_good (d_r d')"
    using browsercache.cached.Handle_good [OF inv h] by simp
  have r: "bb_content (c_r (d_r d1)) = content" if rd: "dev_read (cache_ReadAt bb_ReadAt) d lba blocks = (d1, data)" for lba blocks d1 data
  proof -
    obtain r' got err where "cache_ReadAt bb_ReadAt (d_r d) (unat blocks * blockSize d) (int (unat lba) * int (blockSize d)) = (r', got, err)"
      by (metis prod_cases3)
    note x = this
    have "d_r d1 = r'" using rd unfolding dev_read_def Let_def x by auto
    with browser.cache_ReadAt_ok [OF inv x] c show ?thesis by simp
  qed
  have wc: "bb_content (c_r e) = content" if "cache_WriteAt bb_WriteAt (d_r d) p off = (e, n, err)" for e p off n err
    using browser.cache_WriteAt_ok [OF inv that] c bb_keeps(2) [of "c_r (d_r d)" p off "c_r e" n err] by auto
  have w: "bb_content (c_r (d_r (dev_write (cache_WriteAt bb_WriteAt) d req lba blocks))) = content" for lba blocks
    using c wc by (auto simp: dev_write_def Let_def split: prod.split)
  show ?thesis
    using Handle_Inr [OF h] r w inv' c unfolding serves_def by auto
qed

lemma emulator_serves:
  assumes "l_files l dev = Some content" "length content < 2 ^ 32"
  shows "serves content (buildEmulator bb_size kind (newBrowserBacking l dev (int (length content)) w) w)"
proof -
  let ?b = "newBrowserBacking l dev (int (length content)) w"
  have b: "bb_good ?b" "bb_content ?b = content"
    using assms by (simp_all add: bb_good_def bb_content_def newBrowserBacking_def)
  have "cache_inv bb_size bb_content bb_good (NewCache bb_size ?b x)" for x
    using browsercache.run_ops_NewCache [OF b(1), of "NewCache bb_size ?b x" "[]" x] by simp
  moreover have "c_r (NewCache bb_size ?b x) = ?b" for x by (simp add: NewCache_def)
  ultimately show ?thesis
    using b by (cases w) (simp_all add: serves_def buildEmulator_def NewCDROM_def NewDisk_def NewDiskRW_def newDevice_def Let_def)
qed

lemma session_serves:
  assumes "serves content d"
  shows "serves content (fst (Serve browser_handler write_ok cancelled s d))"
  unfolding Serve_def by (rule serve_loop_invariant [where I = "serves content", OF Handle_serves assms])

text \<open>C5. Reading the picked image end to end. Let a file below 4 GiB be mounted from the browser as any kind of
  device, and let the BMC have sent any requests before, in any session that may have failed in any
  way. Then READ(10) is answered with the file's bytes at the requested blocks, zero-filled past its
  end, unless the read it needs failed: the frames to the browser, its answers, the window cache and
  the response envelope together neither lose, shift nor mix up a byte.\<close>

theorem browser_read_end_to_end:
  assumes "l_files l (kindToDev kind) = Some content" "length content < 2 ^ 32"
    and "d = fst (Serve browser_handler write_ok cancelled s
           (buildEmulator bb_size kind (newBrowserBacking l (kindToDev kind) (int (length content)) w) w))"
    and "29 \<le> length (Payload req)" "Payload req ! 9 = 0x28"
    and "n = unat (get_be16 (Payload req) 16) * blockSize d"
    and "off = unat (get_be32 (Payload req) 11) * blockSize d"
    and "no_failure (snd (snd (cache_ReadAt bb_ReadAt (d_r d) n (int off))))"
  shows "\<exists>d' out. browser_handler d req = Inr (d', Some out)
    \<and> drop (length (Payload req)) out = take n (drop off content @ replicate n 0)"
proof -
  have s: "serves content d"
    unfolding assms(3) by (rule session_serves [OF emulator_serves [OF assms(1,2)]])
  then have inv: "cache_inv bb_size bb_content bb_good (d_r d)" and c: "bb_content (c_r (d_r d)) = content"
    by (simp_all add: serves_def)
  from browsercache.read10_data [OF inv assms(4-8), of "cache_WriteAt bb_WriteAt"] c serves_size [OF s]
  show ?thesis by auto
qed

definition sample_link :: link where
  "sample_link = \<lparr>l_next = 0, l_files = (\<lambda>dev. if dev = 2 then Some [7, 8, 9] else None), l_faults = []\<rparr>"

lemma request_refines_witness:
  "\<exists>c' q. conn_run new_conn (request_events sample_link 0 opRead 2 0 2 []) = Some c' \<and> calls c' = [q]
     \<and> q_phase q = Returned (Inr \<lparr>rs_status = 0, rs_data = [7, 8]\<rparr>) \<and> pending c' 1 = None \<and> stuck c' = None"
proof -
  obtain l' res where r: "request sample_link opRead 2 0 2 [] = (l', res)" by force
  have "snd (request sample_link opRead 2 0 2 []) = Inr \<lparr>rs_status = 0, rs_data = [7, 8]\<rparr>"
    "l_next (fst (request sample_link opRead 2 0 2 [])) = 1" by code_simp+
  with r have "res = Inr \<lparr>rs_status = 0, rs_data = [7, 8]\<rparr>" "l_next l' = 1" by simp_all
  with request_refines [of new_conn sample_link, OF _ _ r] show ?thesis
    by (auto simp: new_conn_def sample_link_def)
qed

definition read10_request :: packet where
  "read10_request = \<lparr>Header = sample_header 30 0, Payload = (replicate 30 0)[9 := 0x28, 17 := 1]\<rparr>"

lemma browser_read_end_to_end_witness:
  "let d = fst (Serve browser_handler (\<lambda>_. True) False
             \<lparr>conn_in = [1, 2, 3], conn_out = [], s_deviceType = 5, s_instance = 0\<rparr>
             (buildEmulator bb_size ''hd'' (newBrowserBacking sample_link 2 3 False) False))
   in \<exists>d' out. browser_handler d read10_request = Inr (d', Some out) \<and> drop 30 out = [7, 8, 9] @ replicate 509 0"
proof -
  let ?s = "\<lparr>conn_in = [1, 2, 3], conn_out = [], s_deviceType = 5, s_instance = 0\<rparr>"
  let ?e = "buildEmulator bb_size ''hd'' (newBrowserBacking sample_link 2 3 False) False"
  have d: "fst (Serve browser_handler (\<lambda>_. True) False ?s ?e) = ?e"
    by (simp add: Serve_def serve_loop.simps readPacket_def read_full_def HeaderLen_def)
  have f: "get_be32 (Payload read10_request) 11 = 0" "get_be16 (Payload read10_request) 16 = 1" "blockSize ?e = 512"
    "length (Payload read10_request) = 30" "Payload read10_request ! 9 = 0x28"
    by (simp_all add: get_be32_def get_be16_def buildEmulator_def NewDisk_def newDevice_def diskBlockSize_def Let_def
        read10_request_def)
  have ok: "no_failure (snd (snd (cache_ReadAt bb_ReadAt (d_r ?e) 512 (int 0))))"
    by code_simp
  have "kindToDev ''hd'' = 2" by (simp add: kindToDev_def devHD_def)
  with browser_read_end_to_end [of sample_link "''hd''" "[7, 8, 9]" ?e "\<lambda>_. True" False ?s False read10_request 512 0]
    d f ok show ?thesis
    unfolding Let_def by (auto simp: sample_link_def)
qed

text \<open>The data plane hides failures: an answer to READ(10) carries what was read, and zeros for the rest.\<close>

lemma read_failure_answers_zeros:
  assumes "29 \<le> length (Payload req)" "Payload req ! 9 = 0x28"
    and "n = unat (get_be16 (Payload req) 16) * blockSize d"
    and "cache_ReadAt rd (d_r d) n (int (unat (get_be32 (Payload req) 11)) * int (blockSize d)) = (r', [], Some e)"
  shows "\<exists>d'. Handle (cache_ReadAt rd) wr d req = Inr (d', Some (buildResponse req (replicate n 0)))"
  using assms by (simp add: Handle_read10 do_read_def dev_read_def Let_def unat_ucast_u16)

end
