(* ===== verification/ControlPlane.thy ===== *)
theory ControlPlane
  imports BrowserBacking
begin

text \<open>
  The JSON plane of the control WebSocket (\<^verbatim>\<open>internal/webui/control.go\<close>): power actions and attaching and
  detaching virtual media, handled one message at a time by a worker, and the clean-up when the
  socket goes away, which runs concurrently with it.

  Messages arrive decoded: \<^verbatim>\<open>json.Unmarshal\<close> of the text is an option. The controllers are functions
  that return an error text or none; a Go map of mounts is a function into options.
\<close>

section \<open>Messages and replies\<close>

record ctrl_msg =
  m_type :: string
  m_action :: string
  m_kind :: string
  m_name :: string
  m_size :: int
  m_writable :: bool

record ctrl_reply =
  r_type :: string
  r_ok :: bool
  r_action :: string
  r_kind :: string
  r_on :: bool
  r_state :: string
  r_error :: string

definition empty_reply :: ctrl_reply where
  "empty_reply = \<lparr>r_type = '''', r_ok = False, r_action = '''', r_kind = '''', r_on = False, r_state = '''', r_error = ''''\<rparr>"

section \<open>The handlers\<close>

text \<open>
  What the handlers are given: the power controller and the virtual-media controller, \<^const>\<open>None\<close>
  without credentials, and whether the \<open>n\<close>-th reply can be written. An error is its text.
\<close>

record plane_env =
  e_power :: "(string \<Rightarrow> string option) option"
  e_status :: "string + bool"
  e_attach :: "(string \<Rightarrow> browser_backing \<Rightarrow> int \<Rightarrow> bool \<Rightarrow> string option) option"
  e_reply_ok :: "nat \<Rightarrow> bool"

text \<open>
  A mount is its place in \<open>opened\<close>, which holds its kind and whether it has been closed. \<open>storing\<close> is a
  mount attached and not yet stored. \<open>powered\<close> are the power actions issued.
\<close>

record plane =
  p_link :: link
  opened :: "(string \<times> bool) list"
  mounts :: "string \<Rightarrow> nat option"
  storing :: "(string \<times> nat) option"
  powered :: "string list"
  replies :: "ctrl_reply list"
  sends :: nat
  p_done :: bool

definition new_plane :: "link \<Rightarrow> plane" where
  "new_plane l =
     \<lparr>p_link = l, opened = [], mounts = (\<lambda>_. None), storing = None, powered = [], replies = [], sends = 0, p_done = False\<rparr>"

definition reply :: "plane_env \<Rightarrow> ctrl_reply \<Rightarrow> plane \<Rightarrow> plane" where
  "reply env r p =
     (if \<not> p_done p \<and> e_reply_ok env (sends p) then p\<lparr>replies := replies p @ [r], sends := sends p + 1\<rparr>
      else p\<lparr>p_done := True, sends := sends p + 1\<rparr>)"

definition close_mount :: "nat option \<Rightarrow> plane \<Rightarrow> plane" where
  "close_mount mt p =
     (case mt of None \<Rightarrow> p | Some k \<Rightarrow> p\<lparr>opened := (opened p)[k := (fst (opened p ! k), True)]\<rparr>)"

definition handlePower :: "plane_env \<Rightarrow> ctrl_msg \<Rightarrow> plane \<Rightarrow> plane" where
  "handlePower env m p =
     (let r = empty_reply\<lparr>r_type := ''power.result'', r_action := m_action m\<rparr>
      in case e_power env of
           None \<Rightarrow> reply env (r\<lparr>r_error := ''power control unavailable (no BMC credentials)''\<rparr>) p
         | Some issue \<Rightarrow>
             (let p = p\<lparr>powered := powered p @ [m_action m]\<rparr>
              in case issue (m_action m) of
                   Some e \<Rightarrow> reply env (r\<lparr>r_error := e\<rparr>) p
                 | None \<Rightarrow> reply env (r\<lparr>r_ok := True\<rparr>) p))"

definition handlePowerStatus :: "plane_env \<Rightarrow> plane \<Rightarrow> plane" where
  "handlePowerStatus env p =
     (let r = empty_reply\<lparr>r_type := ''power.status''\<rparr>
      in case e_power env of
           None \<Rightarrow> reply env (r\<lparr>r_error := ''unavailable''\<rparr>) p
         | Some issue \<Rightarrow>
             (case e_status env of
                Inl e \<Rightarrow> reply env (r\<lparr>r_error := e\<rparr>) p
              | Inr on \<Rightarrow> reply env (r\<lparr>r_ok := True, r_on := on\<rparr>) p))"

definition vmedia_status :: "string \<Rightarrow> string \<Rightarrow> string \<Rightarrow> ctrl_reply" where
  "vmedia_status kind st e = empty_reply\<lparr>r_type := ''vmedia.status'', r_kind := kind, r_state := st, r_error := e\<rparr>"

text \<open>\<open>handleAttach\<close> up to the return of the controller, and from there.\<close>

definition handleAttach :: "plane_env \<Rightarrow> ctrl_msg \<Rightarrow> plane \<Rightarrow> plane" where
  "handleAttach env m p =
     (case e_attach env of
        None \<Rightarrow> reply env (vmedia_status (m_kind m) ''error'' ''virtual media unavailable (no BMC credentials)'') p
      | Some attach \<Rightarrow>
          if m_size m \<le> 0 then reply env (vmedia_status (m_kind m) ''error'' ''invalid medium size'') p
          else
            (let backing = newBrowserBacking (p_link p) (kindToDev (m_kind m)) (m_size m) (m_writable m)
             in case attach (m_kind m) backing (m_size m) (m_writable m) of
                  Some e \<Rightarrow> reply env (vmedia_status (m_kind m) ''error'' e) p
                | None \<Rightarrow> p\<lparr>opened := opened p @ [(m_kind m, False)], storing := Some (m_kind m, length (opened p))\<rparr>))"

definition setMount :: "string \<Rightarrow> nat \<Rightarrow> plane \<Rightarrow> plane" where
  "setMount kind mt p =
     (let old = mounts p kind in close_mount old (p\<lparr>mounts := (mounts p)(kind := Some mt)\<rparr>))"

definition attached :: "plane_env \<Rightarrow> string \<Rightarrow> nat \<Rightarrow> plane \<Rightarrow> plane" where
  "attached env kind mt p = reply env (vmedia_status kind ''mounted'' '''') (setMount kind mt (p\<lparr>storing := None\<rparr>))"

definition handleDetach :: "plane_env \<Rightarrow> ctrl_msg \<Rightarrow> plane \<Rightarrow> plane" where
  "handleDetach env m p =
     (let mt = mounts p (m_kind m);
          p = p\<lparr>mounts := (mounts p)(m_kind m := None)\<rparr>
      in reply env (vmedia_status (m_kind m) ''unmounted'' '''') (close_mount mt p))"

text \<open>The result of decoding the JSON text; what does not decode is ignored.\<close>

definition handleJSON :: "plane_env \<Rightarrow> ctrl_msg option \<Rightarrow> plane \<Rightarrow> plane" where
  "handleJSON env data p =
     (case data of
        None \<Rightarrow> p
      | Some m \<Rightarrow>
          if m_type m = ''power'' then handlePower env m p
          else if m_type m = ''power.status'' then handlePowerStatus env p
          else if m_type m = ''vmedia.attach'' then handleAttach env m p
          else if m_type m = ''vmedia.detach'' then handleDetach env m p
          else reply env (empty_reply\<lparr>r_type := ''error'', r_error := ''unknown control message: '' @ m_type m\<rparr>) p)"

text \<open>The mounts taken out of the table are closed one by one; the order does not matter.\<close>

definition cleanup :: "plane \<Rightarrow> plane" where
  "cleanup p =
     p\<lparr>p_done := True, mounts := (\<lambda>_. None),
       opened := map (\<lambda>(k, x). (fst x, snd x \<or> mounts p (fst x) = Some k)) (enumerate 0 (opened p))\<rparr>"

text \<open>
  The worker takes a message, or stores the mount it has attached; the end of the read loop runs
  \<open>cleanup\<close> at any time between. Messages still queued are handled after it.
\<close>

datatype plane_event = Work "ctrl_msg option" | Store | Disconnect

fun plane_step :: "plane_env \<Rightarrow> plane \<Rightarrow> plane_event \<Rightarrow> plane option" where
  "plane_step env p (Work data) = (if storing p = None then Some (handleJSON env data p) else None)"
| "plane_step env p Store =
     (case storing p of None \<Rightarrow> None | Some (kind, mt) \<Rightarrow> Some (attached env kind mt p))"
| "plane_step env p Disconnect = Some (cleanup p)"

abbreviation plane_run :: "plane_env \<Rightarrow> link \<Rightarrow> plane \<Rightarrow> bool" where
  "plane_run env l \<equiv> reach (plane_step env) (new_plane l)"

abbreviation plane_steps :: "plane_env \<Rightarrow> plane \<Rightarrow> plane_event list \<Rightarrow> plane option" where
  "plane_steps env \<equiv> run_steps (plane_step env)"

section \<open>No mount is lost\<close>

definition is_open :: "plane \<Rightarrow> nat \<Rightarrow> bool" where
  "is_open p k = (k < length (opened p) \<and> \<not> snd (opened p ! k))"

definition mount_kind :: "plane \<Rightarrow> nat \<Rightarrow> string" where
  "mount_kind p k = fst (opened p ! k)"

text \<open>Every open mount can be reached: it is in the table under its kind, or about to be stored.\<close>

definition plane_ok :: "plane \<Rightarrow> bool" where
  "plane_ok p =
     ((\<forall>k. is_open p k \<longrightarrow> mounts p (mount_kind p k) = Some k \<or> storing p = Some (mount_kind p k, k))
      \<and> (\<forall>kind k. mounts p kind = Some k \<longrightarrow> is_open p k \<and> mount_kind p k = kind)
      \<and> (\<forall>kind k. storing p = Some (kind, k) \<longrightarrow> is_open p k \<and> mount_kind p k = kind \<and> mounts p kind \<noteq> Some k))"

lemma reply_keeps [simp]:
  "opened (reply env r p) = opened p" "mounts (reply env r p) = mounts p" "storing (reply env r p) = storing p"
  "is_open (reply env r p) = is_open p" "mount_kind (reply env r p) = mount_kind p"
  by (simp_all add: reply_def is_open_def mount_kind_def fun_eq_iff)

lemma reply_ok [simp]: "plane_ok (reply env r p) = plane_ok p"
  by (simp add: plane_ok_def)

lemma fst_nth_close: "fst (xs[k := (fst (xs ! k), True)] ! j) = fst (xs ! j)"
  by (cases "j < length xs"; cases "j = k") (simp_all add: list_update_beyond not_less)

lemma close_mount_keeps:
  "mounts (close_mount mt p) = mounts p" "storing (close_mount mt p) = storing p"
  "length (opened (close_mount mt p)) = length (opened p)"
  by (simp_all add: close_mount_def split: option.split)

lemma close_mount_kind: "mount_kind (close_mount mt p) k = mount_kind p k"
  by (cases mt) (simp_all add: close_mount_def mount_kind_def fst_nth_close)

lemma close_mount_open: "is_open (close_mount mt p) k = (is_open p k \<and> mt \<noteq> Some k)"
  by (cases mt) (auto simp: close_mount_def is_open_def nth_update_any split: if_splits)

lemmas close_simps = close_mount_keeps close_mount_kind close_mount_open

lemma plane_okD:
  assumes "plane_ok p"
  shows "is_open p k \<Longrightarrow> mounts p (mount_kind p k) = Some k \<or> storing p = Some (mount_kind p k, k)"
    "mounts p kind = Some k \<Longrightarrow> is_open p k \<and> mount_kind p k = kind"
    "storing p = Some (kind, k) \<Longrightarrow> is_open p k \<and> mount_kind p k = kind \<and> mounts p kind \<noteq> Some k"
  using assms by (auto simp: plane_ok_def)

lemma view_simps [simp]:
  "is_open (p\<lparr>mounts := m\<rparr>) = is_open p" "mount_kind (p\<lparr>mounts := m\<rparr>) = mount_kind p"
  "is_open (p\<lparr>storing := s\<rparr>) = is_open p" "mount_kind (p\<lparr>storing := s\<rparr>) = mount_kind p"
  "is_open (p\<lparr>powered := w\<rparr>) = is_open p" "mount_kind (p\<lparr>powered := w\<rparr>) = mount_kind p"
  by (simp_all add: is_open_def mount_kind_def fun_eq_iff)

lemma store_ok:
  assumes ok: "plane_ok p" and s: "storing p = Some (kind, mt)"
  shows "plane_ok (attached env kind mt p)"
proof -
  note d = plane_okD [OF ok]
  have "\<And>k. mounts p kind = Some k \<Longrightarrow> k \<noteq> mt" using d(3) [OF s] by auto
  then show ?thesis
    using d(1,2) d(3) [OF s] s unfolding plane_ok_def attached_def setMount_def Let_def
    by (auto simp: close_simps) metis+
qed

lemma detach_ok:
  assumes ok: "plane_ok p" and s: "storing p = None"
  shows "plane_ok (handleDetach env m p)"
  using plane_okD [OF ok] s unfolding plane_ok_def handleDetach_def Let_def
  by (auto simp: close_simps) metis+

lemma attach_ok:
  assumes ok: "plane_ok p" and s: "storing p = None"
  shows "plane_ok (handleAttach env m p)"
proof -
  let ?p = "p\<lparr>opened := opened p @ [(m_kind m, False)], storing := Some (m_kind m, length (opened p))\<rparr>"
  have o: "is_open ?p k = (is_open p k \<or> k = length (opened p))" for k
    by (auto simp: is_open_def nth_append)
  have mk: "k < length (opened p) \<Longrightarrow> mount_kind ?p k = mount_kind p k" "mount_kind ?p (length (opened p)) = m_kind m" for k
    by (simp_all add: mount_kind_def nth_append)
  have lt: "is_open p k \<Longrightarrow> k < length (opened p)" for k by (simp add: is_open_def)
  have "plane_ok ?p"
    unfolding plane_ok_def
  proof (intro conjI allI impI)
    show "mounts ?p (mount_kind ?p k) = Some k \<or> storing ?p = Some (mount_kind ?p k, k)" if "is_open ?p k" for k
    proof (cases "k = length (opened p)")
      case False
      with that o have k: "is_open p k" by blast
      with plane_okD(1) [OF ok] s have "mounts p (mount_kind p k) = Some k" by auto
      with mk(1) [OF lt [OF k]] show ?thesis by simp
    qed (simp add: mount_kind_def)
    fix kind k
    {
      assume "mounts ?p kind = Some k"
      then have k: "is_open p k" "mount_kind p k = kind" using plane_okD(2) [OF ok] by auto
      with o mk(1) [OF lt [OF k(1)]] show "is_open ?p k" "mount_kind ?p k = kind" by auto
    }
    {
      assume "storing ?p = Some (kind, k)"
      then have k: "kind = m_kind m" "k = length (opened p)" by auto
      with o mk(2) show "is_open ?p k" "mount_kind ?p k = kind" by auto
      show "mounts ?p kind \<noteq> Some k" using k plane_okD(2) [OF ok, of kind k] lt by auto
    }
  qed
  then show ?thesis
    using ok by (simp add: handleAttach_def Let_def split: option.split)
qed

lemma cleanup_view:
  "is_open (cleanup p) k = (is_open p k \<and> mounts p (mount_kind p k) \<noteq> Some k)"
  "k < length (opened p) \<Longrightarrow> mount_kind (cleanup p) k = mount_kind p k"
  by (auto simp: cleanup_def is_open_def mount_kind_def nth_enumerate_eq)

lemma cleanup_ok:
  assumes ok: "plane_ok p"
  shows "plane_ok (cleanup p)"
proof -
  have m: "mounts (cleanup p) kind = None" "storing (cleanup p) = storing p" for kind
    by (simp_all add: cleanup_def)
  have k: "mount_kind (cleanup p) k = mount_kind p k" if "is_open p k" for k
    using that by (intro cleanup_view(2)) (simp add: is_open_def)
  show ?thesis
    unfolding plane_ok_def m
  proof (intro conjI allI impI)
    fix k
    assume "is_open (cleanup p) k"
    then have o: "is_open p k" "mounts p (mount_kind p k) \<noteq> Some k" by (simp_all add: cleanup_view(1))
    with plane_okD(1) [OF ok o(1)] k [OF o(1)]
    show "None = Some k \<or> storing p = Some (mount_kind (cleanup p) k, k)" by simp
  next
    fix kind k
    assume "storing p = Some (kind, k)"
    note o = plane_okD(3) [OF ok this]
    with k show "is_open (cleanup p) k" "mount_kind (cleanup p) k = kind"
      by (simp_all add: cleanup_view(1))
  qed simp_all
qed

lemma plane_step_ok: "plane_ok p \<Longrightarrow> plane_step env p e = Some p' \<Longrightarrow> plane_ok p'"
proof (cases e)
  case (Work data)
  assume ok: "plane_ok p" and s: "plane_step env p e = Some p'"
  then have n: "storing p = None" and p': "p' = handleJSON env data p" using Work by (auto split: if_splits)
  have pw: "plane_ok (p\<lparr>powered := w\<rparr>)" for w
    using ok by (simp add: plane_ok_def)
  have "plane_ok (handlePower env m p)" "plane_ok (handlePowerStatus env p)" for m
    using ok pw by (simp_all add: handlePower_def handlePowerStatus_def Let_def split: option.split sum.split)
  with detach_ok [OF ok n] attach_ok [OF ok n] ok show ?thesis
    unfolding p' handleJSON_def by (simp split: option.split)
next
  case Store
  assume "plane_ok p" "plane_step env p e = Some p'"
  with Store store_ok show ?thesis by (auto split: option.splits)
next
  case Disconnect
  assume "plane_ok p" "plane_step env p e = Some p'"
  with Disconnect cleanup_ok show ?thesis by auto
qed

interpretation mounting: machine "plane_step env" "new_plane l" plane_ok for env l
proof
  show "plane_ok (new_plane l)" by (simp add: plane_ok_def new_plane_def is_open_def)
qed (rule plane_step_ok)

lemma detach_opens:
  assumes ok: "plane_ok p" and s: "storing p = None"
  shows "is_open (handleDetach env m p) k = (is_open p k \<and> mount_kind p k \<noteq> m_kind m)"
  using plane_okD(1) [OF ok, of k] plane_okD(2) [OF ok, of "m_kind m" k] s
  by (auto simp: handleDetach_def Let_def close_simps)

lemma attached_opens:
  assumes ok: "plane_ok p" and s: "storing p = Some (kind, mt)"
  shows "is_open (attached env kind mt p) k = (is_open p k \<and> (mount_kind p k \<noteq> kind \<or> k = mt))"
proof -
  have "is_open (attached env kind mt p) k = (is_open p k \<and> mounts p kind \<noteq> Some k)"
    by (simp add: attached_def setMount_def Let_def close_simps)
  moreover have "is_open p k \<Longrightarrow> (mounts p kind \<noteq> Some k) = (mount_kind p k \<noteq> kind \<or> k = mt)"
    using plane_okD(1) [OF ok, of k] plane_okD(2) [OF ok, of kind k] plane_okD(3) [OF ok s] s
    by (metis option.inject prod.inject)
  ultimately show ?thesis by blast
qed

text \<open>C6. No redirection is orphaned. Whatever the browser sends and whenever the socket goes away: every open
  mount is in the table under its kind or is about to be put there, and the table holds open mounts
  only, so at most one per kind. Detaching closes the open mounts of its kind and no others; storing a new mount
  closes the previous one of its kind and no others; and the end of the connection closes every mount
  but one whose attach is just returning, whose context it cancels.\<close>

theorem mounts_never_orphaned:
  assumes "plane_run env l p"
  shows "(\<forall>k. is_open p k \<longrightarrow> mounts p (mount_kind p k) = Some k \<or> storing p = Some (mount_kind p k, k))
    \<and> (\<forall>kind k. mounts p kind = Some k \<longrightarrow> is_open p k \<and> mount_kind p k = kind)
    \<and> (\<forall>env m k. storing p = None \<longrightarrow>
         is_open (handleDetach env m p) k = (is_open p k \<and> mount_kind p k \<noteq> m_kind m))
    \<and> (\<forall>env kind mt k. storing p = Some (kind, mt) \<longrightarrow>
         is_open (attached env kind mt p) k = (is_open p k \<and> (mount_kind p k \<noteq> kind \<or> k = mt)))
    \<and> (\<forall>k. is_open (cleanup p) k \<longrightarrow> storing p = Some (mount_kind p k, k)) \<and> p_done (cleanup p)"
proof (intro conjI allI impI)
  note ok = mounting.reachable [OF assms]
  note d = plane_okD [OF ok]
  show "mounts p (mount_kind p k) = Some k \<or> storing p = Some (mount_kind p k, k)" if "is_open p k" for k
    using d(1) that by blast
  show "is_open p k" "mount_kind p k = kind" if "mounts p kind = Some k" for kind k
    using d(2) that by auto
  show "is_open (handleDetach env m p) k = (is_open p k \<and> mount_kind p k \<noteq> m_kind m)" if "storing p = None" for env m k
    by (rule detach_opens [OF ok that])
  show "is_open (attached env kind mt p) k = (is_open p k \<and> (mount_kind p k \<noteq> kind \<or> k = mt))"
    if "storing p = Some (kind, mt)" for env kind mt k
    by (rule attached_opens [OF ok that])
  show "storing p = Some (mount_kind p k, k)" if "is_open (cleanup p) k" for k
    using that d(1) [of k] by (simp add: cleanup_view(1))
  show "p_done (cleanup p)" by (simp add: cleanup_def)
qed

definition sample_env :: plane_env where
  "sample_env =
     \<lparr>e_power = Some (\<lambda>_. None), e_status = Inr True, e_attach = Some (\<lambda>_ _ _ _. None), e_reply_ok = (\<lambda>_. True)\<rparr>"

definition attach_msg :: "string \<Rightarrow> int \<Rightarrow> ctrl_msg" where
  "attach_msg kind n = \<lparr>m_type = ''vmedia.attach'', m_action = '''', m_kind = kind, m_name = ''a.iso'', m_size = n, m_writable = False\<rparr>"

lemma mounts_never_orphaned_witness:
  "case plane_steps sample_env (new_plane sample_link)
      [Work (Some (attach_msg ''cd'' 5)), Store, Work (Some (attach_msg ''cd'' 7)), Store] of
     None \<Rightarrow> False
   | Some p \<Rightarrow> \<not> is_open p 0 \<and> is_open p 1 \<and> mount_kind p 1 = ''cd'' \<and> \<not> is_open (cleanup p) 1"
proof -
  let ?es = "[Work (Some (attach_msg ''cd'' 5)), Store, Work (Some (attach_msg ''cd'' 7)), Store]"
  have "map_option (\<lambda>p. (mounts p ''cd'', storing p, opened p)) (plane_steps sample_env (new_plane sample_link) ?es)
      = Some (Some 1, None, [(''cd'', True), (''cd'', False)])"
    by code_simp
  then obtain p where p: "plane_steps sample_env (new_plane sample_link) ?es = Some p"
    and o: "mounts p ''cd'' = Some 1" "storing p = None" "opened p = [(''cd'', True), (''cd'', False)]"
    by auto
  have "plane_run sample_env sample_link p"
    by (rule reach_from_init [OF p])
  note c = mounts_never_orphaned [OF this]
  have "is_open p 1" "mount_kind p 1 = ''cd''" using c o(1) by blast+
  moreover have "\<not> is_open (cleanup p) 1" using c o(2) by auto
  moreover have "\<not> is_open p 0" by (simp add: is_open_def o(3))
  ultimately show ?thesis unfolding p by simp
qed

section \<open>One reply per message\<close>

text \<open>The worker on its own: each message to the end.\<close>

definition work :: "plane_env \<Rightarrow> ctrl_msg option \<Rightarrow> plane \<Rightarrow> plane" where
  "work env data p =
     (let p = handleJSON env data p
      in case storing p of None \<Rightarrow> p | Some (kind, mt) \<Rightarrow> attached env kind mt p)"

definition reply_type :: "string \<Rightarrow> string" where
  "reply_type t =
     (if t = ''power'' then ''power.result'' else if t = ''power.status'' then ''power.status''
      else if t = ''vmedia.attach'' \<or> t = ''vmedia.detach'' then ''vmedia.status'' else ''error'')"

definition answers_to :: "ctrl_msg \<Rightarrow> ctrl_reply \<Rightarrow> bool" where
  "answers_to m r =
     (r_type r = reply_type (m_type m)
      \<and> (r_type r = ''power.result'' \<longrightarrow> r_action r = m_action m)
      \<and> (r_type r = ''vmedia.status'' \<longrightarrow> r_kind r = m_kind m)
      \<and> (r_ok r \<longrightarrow> r_error r = '''') \<and> (r_state r = ''error'' \<or> r_type r = ''error'' \<longrightarrow> \<not> r_ok r))"

definition connected_plane :: "plane_env \<Rightarrow> plane \<Rightarrow> bool" where
  "connected_plane env p = (\<not> p_done p \<and> storing p = None)"

lemma reply_writes:
  "(\<forall>n. e_reply_ok env n) \<Longrightarrow> \<not> p_done p \<Longrightarrow>
   replies (reply env r p) = replies p @ [r] \<and> p_done (reply env r p) = p_done p"
  by (simp add: reply_def)

lemma close_writes [simp]: "replies (close_mount mt p) = replies p" "p_done (close_mount mt p) = p_done p"
  by (simp_all add: close_mount_def split: option.split)

lemma work_replies:
  assumes env: "\<forall>n. e_reply_ok env n" and p: "connected_plane env p"
  shows "connected_plane env (work env data p)
    \<and> (\<exists>rs. replies (work env data p) = replies p @ rs
         \<and> list_all2 answers_to (case data of None \<Rightarrow> [] | Some m \<Rightarrow> [m]) rs)"
proof (cases data)
  case None
  with p show ?thesis by (simp add: work_def handleJSON_def connected_plane_def)
next
  case (Some m)
  have *: "\<not> p_done p" "storing p = None" using p by (simp_all add: connected_plane_def)
  note defs = handlePower_def handlePowerStatus_def handleAttach_def handleDetach_def Let_def attached_def setMount_def
    vmedia_status_def empty_reply_def
  show ?thesis
    using * unfolding Some work_def handleJSON_def option.case connected_plane_def
    by (auto simp: defs reply_writes [OF env] close_mount_keeps answers_to_def reply_type_def split: option.split sum.split)
qed

text \<open>C7. While the socket can be written, every message that decodes gets exactly one reply, in order,
  of the type the toolbar listens for, with the action or the kind it asked about; what does not
  decode gets none.\<close>

theorem one_reply_per_message:
  assumes "\<forall>n. e_reply_ok env n" "connected_plane env p"
  shows "\<exists>rs. replies (fold (work env) msgs p) = replies p @ rs
    \<and> list_all2 answers_to (concat (map (case_option [] (\<lambda>m. [m])) msgs)) rs"
  using assms(2)
proof (induction msgs arbitrary: p)
  case (Cons data msgs)
  obtain rs1 where 1: "connected_plane env (work env data p)" "replies (work env data p) = replies p @ rs1"
    "list_all2 answers_to (case_option [] (\<lambda>m. [m]) data) rs1"
    using work_replies [OF assms(1) Cons.prems] by blast
  obtain rs2 where "replies (fold (work env) msgs (work env data p)) = replies (work env data p) @ rs2"
    "list_all2 answers_to (concat (map (case_option [] (\<lambda>m. [m])) msgs)) rs2"
    using Cons.IH [OF 1(1)] by blast
  with 1 show ?case by (auto intro!: exI [of _ "rs1 @ rs2"] list_all2_appendI)
qed simp

lemma one_reply_per_message_witness:
  "length (replies (fold (work sample_env) [None, Some (attach_msg ''fd'' 0)] (new_plane sample_link))) = 1"
proof -
  have "\<forall>n. e_reply_ok sample_env n" "connected_plane sample_env (new_plane sample_link)"
    by (simp_all add: sample_env_def connected_plane_def new_plane_def)
  from one_reply_per_message [OF this, of "[None, Some (attach_msg ''fd'' 0)]"]
  obtain rs where "replies (fold (work sample_env) [None, Some (attach_msg ''fd'' 0)] (new_plane sample_link))
      = replies (new_plane sample_link) @ rs" "list_all2 answers_to [attach_msg ''fd'' 0] rs"
    by auto
  then show ?thesis by (simp add: new_plane_def list_all2_Cons1) (auto simp: list_all2_Cons1)
qed

end
