(* ===== verification/Config.thy ===== *)
theory Config
  imports GoStrings
begin

text \<open>
  Where the settings come from (\<^verbatim>\<open>internal/config/config.go\<close>) and the chassis power control
  (\<^verbatim>\<open>internal/power/power.go\<close>). The process environment is a map from names to values; the
  dotenv file is its bytes, or \<open>None\<close> where it cannot be opened. Of go-ipmi, power control sees
  whether a client can be made and connected and what its commands answer; the calls it
  makes are recorded in order.
\<close>

section \<open>The environment\<close>

type_synonym environment = "bytes \<rightharpoonup> bytes"

definition Setenv :: "bytes \<Rightarrow> bytes \<Rightarrow> environment \<Rightarrow> environment" where
  "Setenv k v env =
     (if k = [] \<or> 0x3D \<in> set k \<or> 0 \<in> set k \<or> 0 \<in> set v then env else env(k \<mapsto> v))"

definition Getenv :: "environment \<Rightarrow> string \<Rightarrow> bytes" where
  "Getenv env k = (case env (go_string k) of None \<Rightarrow> [] | Some v \<Rightarrow> v)"

text \<open>\<^verbatim>\<open>bufio.Scanner\<close>: lines, without a final CR; a line that fills the buffer ends the scan.\<close>

definition MaxScanTokenSize :: nat where
  "MaxScanTokenSize = 64 * 1024"

definition dropCR :: "bytes \<Rightarrow> bytes" where
  "dropCR l = (if l \<noteq> [] \<and> last l = 13 then butlast l else l)"

function scan_lines :: "bytes \<Rightarrow> bytes list" where
  "scan_lines s =
     (if s = [] then []
      else let l = takeWhile (\<lambda>c. c \<noteq> 10) s; r = dropWhile (\<lambda>c. c \<noteq> 10) s
           in if MaxScanTokenSize \<le> length l then []
              else dropCR l # scan_lines (drop 1 r))"
  by pat_completeness auto
termination
proof (relation "measure length")
  fix s :: bytes and l r
  assume "s \<noteq> []" "r = dropWhile (\<lambda>c. c \<noteq> 10) s"
  moreover have "length (dropWhile (\<lambda>c. c \<noteq> 10) s) \<le> length s"
    by (rule length_dropWhile_le)
  ultimately have "0 < length s" "length r \<le> length s" by simp_all
  then have "length (drop 1 r) < length s" by (simp only: length_drop)
  then show "(drop 1 r, s) \<in> measure length" by simp
qed simp

declare scan_lines.simps [simp del]

definition Cut :: "bytes \<Rightarrow> u8 \<Rightarrow> (bytes \<times> bytes) option" where
  "Cut s c = (case indexByte s c of None \<Rightarrow> None | Some i \<Rightarrow> Some (take i s, drop (i + 1) s))"

definition Trim :: "bytes \<Rightarrow> u8 set \<Rightarrow> bytes" where
  "Trim s cs = rev (dropWhile (\<lambda>c. c \<in> cs) (rev (dropWhile (\<lambda>c. c \<in> cs) s)))"

text \<open>What one line of the file does.\<close>

definition dotenv_line :: "environment \<Rightarrow> bytes \<Rightarrow> environment" where
  "dotenv_line env text =
     (let line = TrimSpace text
      in if line = [] \<or> starts_with [0x23] line then env
         else case Cut line 0x3D of
                None \<Rightarrow> env
              | Some (k, v) \<Rightarrow>
                  (let k = TrimSpace k; v = Trim (TrimSpace v) {0x22, 0x27}
                   in if env k = None then Setenv k v env else env))"

definition LoadDotEnv :: "environment \<Rightarrow> bytes option \<Rightarrow> environment" where
  "LoadDotEnv env f =
     (case f of None \<Rightarrow> env | Some s \<Rightarrow> foldl dotenv_line env (scan_lines s))"

section \<open>Credentials\<close>

record creds =
  Host :: bytes
  User :: bytes
  Password :: bytes

fun firstNonEmpty :: "bytes list \<Rightarrow> bytes" where
  "firstNonEmpty [] = []"
| "firstNonEmpty (v # vals) = (if v \<noteq> [] then v else firstNonEmpty vals)"

definition Load :: "environment \<Rightarrow> bytes \<Rightarrow> bytes \<Rightarrow> creds" where
  "Load env hostOverride userOverride =
     \<lparr>Host = firstNonEmpty [hostOverride, Getenv env ''IPMI_HOST''],
      User = firstNonEmpty [userOverride, Getenv env ''IPMI_USER''],
      Password = Getenv env ''IPMI_PASSWORD''\<rparr>"

definition PortOr :: "environment \<Rightarrow> int \<Rightarrow> int" where
  "PortOr env d =
     (let v = Getenv env ''IPMI_PORT''
      in if v \<noteq> [] then (case Atoi v of Some n \<Rightarrow> n | None \<Rightarrow> d) else d)"

section \<open>Power control\<close>

datatype chassis_control =
  ChassisControlPowerUp | ChassisControlPowerDown | ChassisControlSoftShutdown
| ChassisControlHardReset | ChassisControlPowerCycle

definition actionToControl :: "bytes \<Rightarrow> chassis_control option" where
  "actionToControl = map_of
     [(go_string ''on'', ChassisControlPowerUp),
      (go_string ''off'', ChassisControlPowerDown),
      (go_string ''acpi'', ChassisControlSoftShutdown),
      (go_string ''reset'', ChassisControlHardReset),
      (go_string ''cycle'', ChassisControlPowerCycle)]"

datatype ipmi_call = ConnectCall | ChassisCall chassis_control | StatusCall | CloseCall

datatype power_err = UnknownAction | NewClientFailed | ConnectFailed | CommandFailed

text \<open>
  \<open>made\<close> and \<open>connected\<close> say whether a client can be made and connected; the list holds the calls
  made so far.
\<close>

definition power_session :: "bool \<Rightarrow> bool \<Rightarrow> (power_err + unit) \<times> ipmi_call list" where
  "power_session made connected =
     (if \<not> made then (Inl NewClientFailed, [])
      else if \<not> connected then (Inl ConnectFailed, [ConnectCall])
      else (Inr (), [ConnectCall]))"

definition power_Do ::
  "bool \<Rightarrow> bool \<Rightarrow> (chassis_control \<Rightarrow> bool) \<Rightarrow> bytes \<Rightarrow> power_err option \<times> ipmi_call list" where
  "power_Do made connected accepts action =
     (case actionToControl action of
        None \<Rightarrow> (Some UnknownAction, [])
      | Some ctrl \<Rightarrow>
          (case power_session made connected of
             (Inl e, calls) \<Rightarrow> (Some e, calls)
           | (Inr _, calls) \<Rightarrow>
               (if accepts ctrl then (None, calls @ [ChassisCall ctrl, CloseCall])
                else (Some CommandFailed, calls @ [ChassisCall ctrl, CloseCall]))))"

definition power_Status ::
  "bool \<Rightarrow> bool \<Rightarrow> bool option \<Rightarrow> (power_err + bool) \<times> ipmi_call list" where
  "power_Status made connected answer =
     (case power_session made connected of
        (Inl e, calls) \<Rightarrow> (Inl e, calls)
      | (Inr _, calls) \<Rightarrow>
          (case answer of
             None \<Rightarrow> (Inl CommandFailed, calls @ [StatusCall, CloseCall])
           | Some on \<Rightarrow> (Inr on, calls @ [StatusCall, CloseCall])))"

section \<open>What a dotenv file sets\<close>

text \<open>The assignment a line makes, if it makes one.\<close>

definition line_assignment :: "bytes \<Rightarrow> (bytes \<times> bytes) option" where
  "line_assignment text =
     (let line = TrimSpace text
      in if line = [] \<or> hd line = 0x23 then None
         else case Cut line 0x3D of
                None \<Rightarrow> None
              | Some (k, v) \<Rightarrow>
                  (let k = TrimSpace k; v = Trim (TrimSpace v) {0x22, 0x27}
                   in if k = [] \<or> 0 \<in> set k \<or> 0 \<in> set v then None else Some (k, v)))"

definition assignments :: "bytes \<Rightarrow> (bytes \<times> bytes) list" where
  "assignments s = List.map_filter line_assignment (scan_lines s)"

lemma set_trim_left: "set (trim_left ps s) \<subseteq> set s"
proof (induction ps s rule: trim_left.induct)
  case (1 ps s)
  then show ?case
    by (subst trim_left.simps) (auto split: option.splits dest!: in_set_dropD)
qed

lemma set_TrimSpace: "set (TrimSpace s) \<subseteq> set s"
  using set_trim_left [of "map rev space_encodings" "rev (trim_left space_encodings s)"]
    set_trim_left [of space_encodings s]
  by (auto simp: TrimSpace_def)

lemma dotenv_line_assignment:
  "dotenv_line env text =
     (case line_assignment text of
        None \<Rightarrow> env
      | Some (k, v) \<Rightarrow> if env k = None then env(k \<mapsto> v) else env)"
proof -
  have "0x3D \<notin> set (TrimSpace k)" if "Cut s 0x3D = Some (k, v)" for s k v
  proof -
    have "0x3D \<notin> set k"
      using that by (auto simp: Cut_def dest: indexByte_Some split: option.splits)
    then show ?thesis using set_TrimSpace by blast
  qed
  moreover have "starts_with [0x23] line \<longleftrightarrow> line \<noteq> [] \<and> hd line = 0x23" for line :: bytes
    by (cases line) (auto simp: starts_with_def)
  ultimately show ?thesis
    by (auto simp: dotenv_line_def line_assignment_def Setenv_def Let_def split: option.splits)
qed

lemma dotenv_lines:
  "foldl dotenv_line env ls = map_of (List.map_filter line_assignment ls) ++ env"
proof (induction ls arbitrary: env)
  case Nil
  show ?case by (simp add: map_filter_simps)
next
  case (Cons l ls)
  have "dotenv_line env l = (case line_assignment l of None \<Rightarrow> env | Some (k, v) \<Rightarrow> [k \<mapsto> v] ++ env)"
    by (auto simp: dotenv_line_assignment map_add_def fun_eq_iff split: option.splits)
  then show ?case
    using Cons by (auto simp: map_filter_simps map_add_def fun_eq_iff split: option.splits)
qed

text \<open>
  A dotenv file only fills gaps: after loading it, a variable the environment already had keeps
  its value, and any other one has the value of the first line that assigns it, or stays unset.
\<close>

theorem dotenv_fills_gaps:
  "LoadDotEnv env (Some s) = map_of (assignments s) ++ env \<and> LoadDotEnv env None = env
   \<and> LoadDotEnv (LoadDotEnv env f) f = LoadDotEnv env f"
proof -
  have some: "LoadDotEnv env (Some s) = map_of (assignments s) ++ env" for env s
    by (simp add: LoadDotEnv_def assignments_def dotenv_lines)
  have none: "LoadDotEnv env None = env" for env
    by (simp add: LoadDotEnv_def)
  have "LoadDotEnv (LoadDotEnv env f) f = LoadDotEnv env f"
    by (cases f) (auto simp: some none map_add_def fun_eq_iff split: option.splits)
  with some none show ?thesis by blast
qed

text \<open>
  A power action opens at most one session and closes the one it opened: an unknown action opens
  none; a known one sends exactly its chassis command between connecting and closing, whether
  the command succeeds or fails, and reports success only if it was accepted.
\<close>

theorem power_action_session:
  "power_Do made connected accepts action =
     (case actionToControl action of
        None \<Rightarrow> (Some UnknownAction, [])
      | Some ctrl \<Rightarrow>
          (if \<not> made then (Some NewClientFailed, [])
           else if \<not> connected then (Some ConnectFailed, [ConnectCall])
           else (if accepts ctrl then None else Some CommandFailed,
                 [ConnectCall, ChassisCall ctrl, CloseCall])))
   \<and> dom actionToControl = go_string ` {''on'', ''off'', ''acpi'', ''reset'', ''cycle''}
   \<and> inj_on actionToControl (dom actionToControl)"
proof (intro conjI)
  show "dom actionToControl = go_string ` {''on'', ''off'', ''acpi'', ''reset'', ''cycle''}"
    by (simp add: actionToControl_def dom_map_of_conv_image_fst)
  show "inj_on actionToControl (dom actionToControl)"
    by (auto simp: inj_on_def actionToControl_def go_string_def split: if_splits)
qed (simp add: power_Do_def power_session_def split: option.splits)

end
