(* ===== verification/Bridge.thy ===== *)
theory Bridge
  imports KvmClient Rfb CodecSafety ControlPlane Config
begin

text \<open>
  The bridge as a whole (\<^verbatim>\<open>internal/kvm/command.go\<close>, \<^verbatim>\<open>internal/kvm/vmediactl.go\<close>, \<^verbatim>\<open>cmd/rd450x-console\<close>):
  the goroutine that connects to the BMC and shows its frames, next to the browser's input, as steps;
  the way of a picture from the video socket to the browser through the read loop, the decoder, the
  frame source and the RFB server; the choice between the BMC and the test pattern.

  A frame's decoding and the update of the source are one step, the resize of the sink the next: they
  share no lock, so browser input can come between them.
\<close>

section \<open>The bridge from the BMC to the browser\<close>

text \<open>
  The goroutine of \<^verbatim>\<open>connectBMC\<close>: connecting, the client published for virtual media, the sink
  bound, and then the read loop, which between two fragments may have a frame to show: the callback
  \<^verbatim>\<open>OnFrame\<close> updates the source and then resizes the sink. Decoding may panic, which ends the
  program, or not return, which stops this goroutine.
\<close>

datatype bmc_phase =
    Connecting
  | ClientPublished
  | Streaming
  | Showing codec_frame
  | SessionOver
  | DecoderHangs
  | Crashed go_panic

record bridge =
  b_phase :: bmc_phase
  b_dec :: decoder
  b_fsrc :: frame_source
  b_late :: late_sink
  b_client :: "(bytes \<times> web_args) option"

definition new_bridge :: bridge where
  "new_bridge =
     \<lparr>b_phase = Connecting, b_dec = newDecoder, b_fsrc = NewFrameSource 1024 768, b_late = newLateSink,
      b_client = None\<rparr>"

text \<open>\<^verbatim>\<open>vmediaControl\<close>: the client the attaches find.\<close>

definition setClient :: "bridge \<Rightarrow> kvm_client \<Rightarrow> bridge" where
  "setClient b c = b\<lparr>b_client := Some (VMediaSession c)\<rparr>"

text \<open>A frame handed on by the read loop.\<close>

definition bridge_frame :: "bridge \<Rightarrow> bytes \<Rightarrow> bridge" where
  "bridge_frame b frame =
     (case Decode (b_dec b) frame of
        None \<Rightarrow> b\<lparr>b_phase := DecoderHangs\<rparr>
      | Some (Inl p) \<Rightarrow> b\<lparr>b_phase := Crashed p\<rparr>
      | Some (Inr (d, Rejected)) \<Rightarrow> b\<lparr>b_dec := d\<rparr>
      | Some (Inr (d, Decoded f)) \<Rightarrow>
          b\<lparr>b_dec := d, b_fsrc := Update (b_fsrc b) (fW f) (fH f) (fPix f), b_phase := Showing f\<rparr>)"

datatype bridge_event =
    ConnectReturns "connect_error + kvm_client"
  | BindSink
  | FrameComplete bytes
  | ResizeSink
  | LoopEnds
  | BrowserKey u32 bool
  | BrowserPointer int int u8
  | PastePress u8 bool
  | PasteRelease
  | TakeSignal

definition bridge_step :: "bridge \<Rightarrow> bridge_event \<Rightarrow> bridge option" where
  "bridge_step b e =
     (case e of
        ConnectReturns r \<Rightarrow>
          (if b_phase b \<noteq> Connecting then None
           else case r of
                  Inl _ \<Rightarrow> Some (b\<lparr>b_phase := SessionOver\<rparr>)
                | Inr c \<Rightarrow> Some ((setClient b c)\<lparr>b_phase := ClientPublished\<rparr>))
      | BindSink \<Rightarrow>
          (if b_phase b \<noteq> ClientPublished then None
           else Some (b\<lparr>b_late := late_set (b_late b) (NewSink 1024 768), b_phase := Streaming\<rparr>))
      | FrameComplete frame \<Rightarrow> if b_phase b = Streaming then Some (bridge_frame b frame) else None
      | ResizeSink \<Rightarrow>
          (case b_phase b of
             Showing f \<Rightarrow>
               Some (b\<lparr>b_late := map_option (\<lambda>s. SetFrameSize s (fW f) (fH f)) (b_late b), b_phase := Streaming\<rparr>)
           | _ \<Rightarrow> None)
      | LoopEnds \<Rightarrow> if b_phase b = Streaming then Some (b\<lparr>b_phase := SessionOver\<rparr>) else None
      | BrowserKey k down \<Rightarrow> Some (b\<lparr>b_late := late_KeyEvent (b_late b) k down\<rparr>)
      | BrowserPointer x y buttons \<Rightarrow> Some (b\<lparr>b_late := late_PointerEvent (b_late b) x y buttons\<rparr>)
      | PastePress usage shift \<Rightarrow>
          Some (b\<lparr>b_late := map_option (\<lambda>s. send_keyboard s (paste_down usage shift)) (b_late b)\<rparr>)
      | PasteRelease \<Rightarrow> Some (b\<lparr>b_late := map_option (\<lambda>s. send_keyboard s paste_up) (b_late b)\<rparr>)
      | TakeSignal \<Rightarrow> Some (b\<lparr>b_fsrc := (b_fsrc b)\<lparr>changed := False\<rparr>\<rparr>))"

abbreviation bridged :: "bridge \<Rightarrow> bool" where
  "bridged \<equiv> reach bridge_step new_bridge"

abbreviation bridge_run :: "bridge \<Rightarrow> bridge_event list \<Rightarrow> bridge option" where
  "bridge_run \<equiv> run_steps bridge_step"

section \<open>What the browser is shown\<close>

lemma Decoded_frame:
  assumes "decoding d" "Decode d frame = Some (Inr (d', Decoded f))"
  shows "1 \<le> fW f \<and> fW f \<le> maxResolution \<and> 1 \<le> fH f \<and> fH f \<le> maxResolution
    \<and> int (length (fPix f)) = fW f * fH f * 4
    \<and> fW f = uint (get_le16 frame 13) \<and> fH f = uint (get_le16 frame 15)"
proof -
  have ok: "decoder_ok d" by (rule decoding_ok [OF assms(1)])
  have a: "accepted frame"
    using assms(2) Decode_rejects [of frame d] by auto
  obtain h c where h: "parseFrameHeader frame = Some (h, c)"
    using a parseFrameHeader_size [of frame] by (auto simp: accepted_def)
  have "\<not> (destX h \<le> 0 \<or> destY h \<le> 0 \<or> maxResolution < destX h \<or> maxResolution < destY h)"
    using a parsed_dims [OF h] by (auto simp: accepted_def)
  with assms(2) h obtain e where e: "decode h (makeIntArray c) d = Some (Inr e)"
    by (auto simp: Decode_def split: option.splits sum.splits)
  note D = Decode_accepts [OF ok a h e]
  from D(4) assms(2) have f: "f = \<lparr>fW = realWidth e, fH = realH e, fPix = picture e\<rparr>" by simp
  show ?thesis using D(1-3) length_picture [OF D(1)] by (simp add: f framed_def)
qed

definition shown_ok :: "frame_source \<Rightarrow> bool" where
  "shown_ok s = (frame_ok (fs_Frame s) \<and> W (fs_Frame s) \<le> maxResolution \<and> H (fs_Frame s) \<le> maxResolution)"

definition sized :: "frame_source \<Rightarrow> hid_sink \<Rightarrow> bool" where
  "sized s k = (fbW k = W (fs_Frame s) \<and> fbH k = H (fs_Frame s))"

text \<open>
  What holds of the bridge between two steps; \<open>Showing f\<close> is the moment between the update of the
  source and the resize of the sink, and a crash or a hang leaves everything as it was before the
  frame.
\<close>

definition bridge_ok :: "bridge \<Rightarrow> bool" where
  "bridge_ok b =
     (shown_ok (b_fsrc b)
      \<and> (b_phase b = Connecting \<longleftrightarrow> b_client b = None \<and> b_phase b \<noteq> SessionOver)
      \<and> (case b_late b of
           None \<Rightarrow> b_phase b \<in> {Connecting, ClientPublished, SessionOver}
                   \<and> fs_Frame (b_fsrc b) = fs_Frame (NewFrameSource 1024 768)
         | Some s \<Rightarrow> b_client b \<noteq> None \<and> sink_inv s
             \<and> (case b_phase b of
                  Showing f \<Rightarrow> fs_Frame (b_fsrc b) = \<lparr>W = fW f, H = fH f, Pix = fPix f\<rparr>
                | p \<Rightarrow> p \<notin> {Connecting, ClientPublished} \<and> sized (b_fsrc b) s)))"

lemma hid_step_size:
  "fbW (KeyEvent s k d) = fbW s" "fbH (KeyEvent s k d) = fbH s"
  "fbW (PointerEvent s x y n) = fbW s" "fbH (PointerEvent s x y n) = fbH s"
  "fbW (send_keyboard s usb) = fbW s" "fbH (send_keyboard s usb) = fbH s"
  by (auto simp: KeyEvent_def buildKeyboardReport_def PointerEvent_def SendHIDReport_def send_keyboard_def
      split_beta Let_def key_state_keeps split: option.splits)

lemma bridge_ok_new: "bridge_ok new_bridge"
  by (simp add: bridge_ok_def new_bridge_def shown_ok_def NewFrameSource_def fs_Frame_def frame_ok_def size_ok_def
      maxResolution_def newLateSink_def)

lemma bridge_ok_input:
  assumes "bridge_ok b" "\<And>s. hid_step s (g s)" "\<And>s. fbW (g s) = fbW s" "\<And>s. fbH (g s) = fbH s"
  shows "bridge_ok (b\<lparr>b_late := map_option g (b_late b)\<rparr>)"
  using assms(1) sink_inv_step [OF assms(2)] assms(3,4)
  by (auto simp: bridge_ok_def sized_def split: option.splits bmc_phase.splits)

lemma bridge_frame_ok:
  assumes "decoding (b_dec b)" "bridge_ok b" "b_phase b = Streaming"
  shows "decoding (b_dec (bridge_frame b frame)) \<and> bridge_ok (bridge_frame b frame)"
proof (cases "Decode (b_dec b) frame")
  case None
  with assms show ?thesis by (auto simp: bridge_frame_def bridge_ok_def split: option.splits)
next
  case (Some r)
  show ?thesis
  proof (cases r)
    case (Inl p)
    with assms Some show ?thesis by (auto simp: bridge_frame_def bridge_ok_def split: option.splits)
  next
    case (Inr dr)
    obtain d x where dx: "dr = (d, x)" by force
    have d: "decoding d" using decoding_step [OF assms(1)] Some Inr dx by blast
    show ?thesis
    proof (cases x)
      case Rejected
      with assms Some Inr dx d show ?thesis by (auto simp: bridge_frame_def bridge_ok_def split: option.splits)
    next
      case (Decoded f)
      with Decoded_frame [OF assms(1)] Some Inr dx
      have f: "1 \<le> fW f" "fW f \<le> maxResolution" "1 \<le> fH f" "fH f \<le> maxResolution"
        "int (length (fPix f)) = fW f * fH f * 4" by blast+
      then have "Update (b_fsrc b) (fW f) (fH f) (fPix f)
          = (b_fsrc b)\<lparr>fs_frame := \<lparr>W = fW f, H = fH f, Pix = fPix f\<rparr>, changed := True\<rparr>"
        by (simp add: Update_def)
      with assms Some Inr dx Decoded d f show ?thesis
        by (auto simp: bridge_frame_def bridge_ok_def shown_ok_def frame_ok_def size_ok_def fs_Frame_def
            maxResolution_def split: option.splits)
    qed
  qed
qed

lemma bridge_step_ok:
  assumes "bridge_step b e = Some b'" "decoding (b_dec b)" "bridge_ok b"
  shows "decoding (b_dec b') \<and> bridge_ok b'"
proof (cases e)
  case (ConnectReturns r)
  with assms show ?thesis
    by (auto simp: bridge_step_def bridge_ok_def setClient_def split: if_splits sum.splits option.splits)
next
  case BindSink
  with assms sink_inv_NewSink [of 1024 768] show ?thesis
    by (auto simp: bridge_step_def bridge_ok_def late_set_def sized_def NewSink_def NewFrameSource_def fs_Frame_def
        split: if_splits option.splits)
next
  case (FrameComplete frame)
  with assms bridge_frame_ok [of b frame] show ?thesis
    by (auto simp: bridge_step_def split: if_splits)
next
  case ResizeSink
  with assms(1) obtain f where f: "b_phase b = Showing f"
    "b' = b\<lparr>b_late := map_option (\<lambda>s. SetFrameSize s (fW f) (fH f)) (b_late b), b_phase := Streaming\<rparr>"
    by (auto simp: bridge_step_def split: bmc_phase.splits)
  with assms(3) obtain s where s: "b_late b = Some s" "sink_inv s" "b_client b \<noteq> None"
    "fs_Frame (b_fsrc b) = \<lparr>W = fW f, H = fH f, Pix = fPix f\<rparr>" "shown_ok (b_fsrc b)"
    by (auto simp: bridge_ok_def split: option.splits)
  from s(4,5) have "0 < fW f" "0 < fH f" by (simp_all add: shown_ok_def frame_ok_def size_ok_def)
  with f s assms(2) sink_inv_step [OF hid_step.resize [of s "fW f" "fH f"] s(2)] show ?thesis
    by (auto simp: bridge_ok_def sized_def SetFrameSize_def)
next
  case LoopEnds
  with assms show ?thesis
    by (auto simp: bridge_step_def bridge_ok_def split: if_splits option.splits)
next
  case (BrowserKey k d)
  have "late_KeyEvent l k d = map_option (\<lambda>s. KeyEvent s k d) l" for l
    by (cases l) (simp_all add: late_KeyEvent_def)
  with BrowserKey assms bridge_ok_input [OF assms(3), of "\<lambda>s. KeyEvent s k d"] show ?thesis
    by (auto simp: bridge_step_def hid_step_size intro: hid_step.key)
next
  case (BrowserPointer x y n)
  have "late_PointerEvent l x y n = map_option (\<lambda>s. PointerEvent s x y n) l" for l
    by (cases l) (simp_all add: late_PointerEvent_def)
  with BrowserPointer assms bridge_ok_input [OF assms(3), of "\<lambda>s. PointerEvent s x y n"] show ?thesis
    by (auto simp: bridge_step_def hid_step_size intro: hid_step.pointer)
next
  case (PastePress u sh)
  with assms bridge_ok_input [OF assms(3), of "\<lambda>s. send_keyboard s (paste_down u sh)"] show ?thesis
    by (auto simp: bridge_step_def hid_step_size intro: hid_step.paste_press)
next
  case PasteRelease
  with assms bridge_ok_input [OF assms(3), of "\<lambda>s. send_keyboard s paste_up"] show ?thesis
    by (auto simp: bridge_step_def hid_step_size intro: hid_step.paste_release)
next
  case TakeSignal
  with assms show ?thesis
    by (auto simp: bridge_step_def bridge_ok_def shown_ok_def sized_def fs_Frame_def
        split: option.splits bmc_phase.splits)
qed

interpretation bridging: machine bridge_step new_bridge "\<lambda>b. decoding (b_dec b) \<and> bridge_ok b"
proof
  show "decoding (b_dec new_bridge) \<and> bridge_ok new_bridge" using bridge_ok_new decoding_new by (simp add: new_bridge_def)
qed (use bridge_step_ok in blast)


definition sample_client :: kvm_client where
  "sample_client = \<lparr>k_in = [], k_sent = [], webHost = [], webCookie = [1], webToken = [2], webArgs = []\<rparr>"


section \<open>From the video socket to the browser\<close>

text \<open>The pictures shown for a sequence of frames; nothing is shown after a crash or a hang.\<close>

fun shown_frames :: "decoder \<Rightarrow> bytes list \<Rightarrow> codec_frame list" where
  "shown_frames d [] = []"
| "shown_frames d (frame # frames) =
     (case Decode d frame of
        Some (Inr (d', Decoded f)) \<Rightarrow> f # shown_frames d' frames
      | Some (Inr (d', Rejected)) \<Rightarrow> shown_frames d' frames
      | _ \<Rightarrow> [])"

definition is_shown :: "codec_frame list \<Rightarrow> frame \<Rightarrow> bool" where
  "is_shown fs f =
     (f = fs_Frame (NewFrameSource 1024 768) \<or> (\<exists>p \<in> set fs. f = \<lparr>W = fW p, H = fH p, Pix = fPix p\<rparr>))"

definition picture_ok :: "codec_frame \<Rightarrow> bool" where
  "picture_ok f =
     (1 \<le> fW f \<and> fW f \<le> maxResolution \<and> 1 \<le> fH f \<and> fH f \<le> maxResolution
      \<and> int (length (fPix f)) = fW f * fH f * 4)"

lemma shown_frames_ok: "decoding d \<Longrightarrow> list_all picture_ok (shown_frames d frames)"
proof (induction d frames rule: shown_frames.induct)
  case (2 d frame frames)
  have "Decode d frame = Some (Inr (d', Decoded f)) \<Longrightarrow> picture_ok f" for d' f
    using Decoded_frame [OF 2(3)] unfolding picture_ok_def by blast
  moreover have "Decode d frame = Some (Inr (d', x)) \<Longrightarrow> decoding d'" for d' x
    using decoding_step [OF 2(3)] by blast
  ultimately show ?case using 2(1,2) by (fastforce split: option.splits sum.splits decode_result.splits)
qed simp

text \<open>The frames a run completes, and what its source holds in the end.\<close>

definition completed :: "bridge_event list \<Rightarrow> bytes list" where
  "completed es = concat (map (\<lambda>e. case e of FrameComplete frame \<Rightarrow> [frame] | _ \<Rightarrow> []) es)"

lemma completed_simps [simp]:
  "completed [] = []" "completed (FrameComplete frame # es) = frame # completed es"
  "(\<And>frame. e \<noteq> FrameComplete frame) \<Longrightarrow> completed (e # es) = completed es"
  by (auto simp: completed_def split: bridge_event.split)

lemma is_shown_mono: "is_shown fs f \<Longrightarrow> set fs \<subseteq> set gs \<Longrightarrow> is_shown gs f"
  by (auto simp: is_shown_def)

lemma dead_run:
  assumes "bridge_run b es = Some b'" "b_phase b = DecoderHangs \<or> b_phase b = Crashed p"
  shows "fs_Frame (b_fsrc b') = fs_Frame (b_fsrc b)"
proof -
  have "b_phase b' = b_phase b \<and> fs_Frame (b_fsrc b') = fs_Frame (b_fsrc b)"
  proof (rule run_steps_keeps [where I = "\<lambda>c. b_phase c = b_phase b \<and> fs_Frame (b_fsrc c) = fs_Frame (b_fsrc b)", OF _ _ assms(1)])
    fix b1 e b2 assume "b_phase b1 = b_phase b \<and> fs_Frame (b_fsrc b1) = fs_Frame (b_fsrc b)" "bridge_step b1 e = Some b2"
    with assms(2) show "b_phase b2 = b_phase b \<and> fs_Frame (b_fsrc b2) = fs_Frame (b_fsrc b)"
      by (auto simp: bridge_step_def fs_Frame_def split: bridge_event.splits if_splits)
  qed simp
  then show ?thesis by simp
qed

lemma bridge_source_shown:
  assumes "bridge_run b es = Some b'" "is_shown before (fs_Frame (b_fsrc b))"
  shows "is_shown (before @ shown_frames (b_dec b) (completed es)) (fs_Frame (b_fsrc b'))"
  using assms
proof (induction es arbitrary: b before)
  case (Cons e es)
  obtain b1 where s: "bridge_step b e = Some b1" and r: "bridge_run b1 es = Some b'"
    using Cons.prems(1) by (rule run_steps_Cons)
  show ?case
  proof (cases "\<exists>frame. e = FrameComplete frame")
    case False
    then have "completed (e # es) = completed es" "fs_Frame (b_fsrc b1) = fs_Frame (b_fsrc b)" "b_dec b1 = b_dec b"
      using s by (auto simp: bridge_step_def setClient_def fs_Frame_def completed_def
          split: bridge_event.splits if_splits sum.splits bmc_phase.splits)
    with Cons.IH [OF r, of before] Cons.prems(2) show ?thesis by simp
  next
    case True
    then obtain frame where e: "e = FrameComplete frame" by blast
    with s have b1: "b1 = bridge_frame b frame" by (auto simp: bridge_step_def split: if_splits)
    consider "Decode (b_dec b) frame = None" | p where "Decode (b_dec b) frame = Some (Inl p)"
      | d where "Decode (b_dec b) frame = Some (Inr (d, Rejected))"
      | d f where "Decode (b_dec b) frame = Some (Inr (d, Decoded f))"
      by (metis decode_result.exhaust not_None_eq old.sum.exhaust surj_pair)
    then show ?thesis
    proof cases
      case 1
      with b1 dead_run [OF r] Cons.prems(2) e show ?thesis by (simp add: bridge_frame_def)
    next
      case 2
      with b1 dead_run [OF r] Cons.prems(2) e show ?thesis by (simp add: bridge_frame_def)
    next
      case 3
      with b1 Cons.IH [OF r, of before] Cons.prems(2) e show ?thesis by (simp add: bridge_frame_def)
    next
      case 4
      then have "is_shown (before @ [f]) (fs_Frame (b_fsrc b1))"
        using Cons.prems(2) b1
        by (auto simp: bridge_frame_def Update_def fs_Frame_def is_shown_def)
      with b1 Cons.IH [OF r, of "before @ [f]"] e 4 show ?thesis by (simp add: bridge_frame_def)
    qed
  qed
qed simp


lemma empty_frame_decodes:
  "\<exists>d p. Decode newDecoder empty_frame = Some (Inr (d, Decoded p)) \<and> fW p = 2 \<and> fH p = 1"
proof -
  obtain h where h: "parseFrameHeader empty_frame = Some (h, [])"
    using parseFrameHeader_size [of empty_frame] empty_frame_simps by (auto simp: accepted_def)
  have "rc4Enable h = 0" "jpegTableSelector h = 0" "advanceTableSelector h = 0" "jpegYUVTableMapping h = 0"
    using h by (auto simp: parseFrameHeader_def empty_frame_simps split: if_splits)
  then obtain d where "decode h (makeIntArray []) newDecoder = Some (Inr d)"
    using decode_no_words [of h newDecoder] by auto
  from Decode_accepts [OF newDecoder_ok empty_frame_simps(1) h this] show ?thesis
    by (simp add: empty_frame_simps)
qed

lemma placeholder_size: "W (fs_Frame (NewFrameSource 1024 768)) = 1024" "H (fs_Frame (NewFrameSource 1024 768)) = 768"
  by (simp_all add: NewFrameSource_def fs_Frame_def)


section \<open>The command\<close>

text \<open>
  \<^verbatim>\<open>kvm.RunCommand\<close> after its flags are parsed: with credentials the bridge is started, without them the
  test pattern is served and there is no power control and no virtual media.
\<close>

datatype kvm_mode =
    RealBMC creds int
  | TestPatternOnly

definition kvm_RunCommand :: "environment \<Rightarrow> bytes \<Rightarrow> bytes \<Rightarrow> kvm_mode" where
  "kvm_RunCommand env hostFlag userFlag =
     (let c = Load env hostFlag userFlag
      in if creds.Host c \<noteq> [] \<and> User c \<noteq> [] \<and> Password c \<noteq> [] then RealBMC c (PortOr env 623) else TestPatternOnly)"

datatype main_action =
    UsageExit2
  | UnknownModeExit2
  | RunKvm "bytes list"
  | RunSol "bytes list"
  | ShowUsage
  | ShowVersion

text \<open>The mode is dispatched after \<^verbatim>\<open>.env\<close> has been loaded, which usage errors without a mode do not do.\<close>

definition main_dispatch :: "environment \<Rightarrow> bytes option \<Rightarrow> bytes list \<Rightarrow> main_action \<times> environment" where
  "main_dispatch env dotenv args =
     (case args of
        prog # mode # rest \<Rightarrow>
          (let env = LoadDotEnv env dotenv
           in if mode = go_string ''kvm'' then (RunKvm rest, env)
              else if mode = go_string ''sol'' then (RunSol rest, env)
              else if mode \<in> {go_string ''-h'', go_string ''--help'', go_string ''help''} then (ShowUsage, env)
              else if mode \<in> {go_string ''-v'', go_string ''--version'', go_string ''version''} then (ShowVersion, env)
              else (UnknownModeExit2, env))
      | _ \<Rightarrow> (UsageExit2, env))"

section \<open>Without a BMC\<close>

fun tp_ticks :: "nat \<Rightarrow> test_pattern go \<Rightarrow> test_pattern go" where
  "tp_ticks 0 g = g"
| "tp_ticks (Suc n) g = go_bind (tp_ticks n g) tp_tick"

lemma render_ok:
  assumes "tp_w tp = 1024" "tp_h tp = 768"
  shows "\<exists>f. render tp = Inr (tp\<lparr>tp_frame := Some f\<rparr>) \<and> frame_ok f \<and> W f = 1024 \<and> H f = 768"
proof -
  have "length (concat (map (\<lambda>x. pattern_pixel h off box (int x) y) xs)) = 4 * length xs" for h off box y xs
    by (induction xs) (simp_all add: pattern_pixel_def)
  then have "length (concat (map (\<lambda>y. concat (map (\<lambda>x. pattern_pixel h off box (int x) (int y)) xs)) ys))
      = 4 * length xs * length ys" for h off box xs ys
    by (induction ys) simp_all
  then show ?thesis
    using assms
    by (simp add: render_def Let_def frame_ok_def size_ok_def) (intro exI conjI, rule refl, simp_all)
qed

text \<open>Without credentials the pattern is served, and only then: the real BMC is used exactly if host,
  user and password are all given, and the password comes from the environment alone. The pattern
  never panics: after any number of ticks it holds a picture of 1024 by 768 with exactly its pixels.\<close>

theorem test_pattern_never_panics:
  "(kvm_RunCommand env h u = TestPatternOnly \<longleftrightarrow>
      creds.Host (Load env h u) = [] \<or> User (Load env h u) = [] \<or> Getenv env ''IPMI_PASSWORD'' = [])
   \<and> (\<exists>tp f. tp_ticks n (NewTestPattern 1024 768) = Inr tp \<and> tick tp = int n \<and> tp_frame tp = Some f
        \<and> frame_ok f \<and> W f = 1024 \<and> H f = 768)"
proof -
  have "\<exists>tp f. tp_ticks n (NewTestPattern 1024 768) = Inr tp \<and> tick tp = int n \<and> tp_frame tp = Some f
        \<and> frame_ok f \<and> W f = 1024 \<and> H f = 768 \<and> tp_w tp = 1024 \<and> tp_h tp = 768"
  proof (induction n)
    case 0
    show ?case
      using render_ok [of "\<lparr>tp_w = 1024, tp_h = 768, tp_frame = None, tick = 0\<rparr>"]
      by (auto simp: NewTestPattern_def)
  next
    case (Suc n)
    then obtain tp where tp: "tp_ticks n (NewTestPattern 1024 768) = Inr tp" "tick tp = int n"
      "tp_w tp = 1024" "tp_h tp = 768" by blast
    then show ?case
      using render_ok [of "tp\<lparr>tick := tick tp + 1\<rparr>"] by (auto simp: go_bind_def tp_tick_def)
  qed
  then show ?thesis by (auto simp: kvm_RunCommand_def Let_def Load_def)
qed

section \<open>Ending a mount\<close>

text \<open>What \<^verbatim>\<open>vmediaMount.Close\<close> does: the emulation is cancelled and the session closed, once.\<close>

record 's vmedia_mount =
  mt_done :: bool
  mt_cancels :: nat
  mt_closes :: nat
  mt_cache :: "'s cache option"
  mt_logged :: "(int \<times> int \<times> int) list"

definition vmediaMount_Close :: "'s vmedia_mount \<Rightarrow> 's vmedia_mount" where
  "vmediaMount_Close m =
     (if mt_done m then m
      else m\<lparr>mt_done := True, mt_cancels := mt_cancels m + 1, mt_closes := mt_closes m + 1,
             mt_logged := mt_logged m @
               (case map_option cache_Stats (mt_cache m) of
                  Some (hit, miss, got) \<Rightarrow> if 0 < hit + miss then [(hit, miss, go_quot got 1024)] else []
                | None \<Rightarrow> [])\<rparr>)"

lemma vmediaMount_Close_once:
  "vmediaMount_Close (vmediaMount_Close m) = vmediaMount_Close m"
  by (simp add: vmediaMount_Close_def)

end
