(* ===== verification/WebUi.thy ===== *)
theory WebUi
  imports GoStrings Machine
begin

text \<open>
  The web server of the bridge (\<^verbatim>\<open>internal/webui/webui.go\<close>): how it follows the browser's sessions and shuts
  an idle bridge down, the page with the toolbar, and its routes. The RFB session and the control
  socket a route leads to are \<open>Rfb\<close> and \<open>ControlPlane\<close>; the web server itself is Go's.
\<close>

section \<open>Live sessions and the shutdown of an idle bridge\<close>

text \<open>
  The handler of \<^verbatim>\<open>/websockify\<close> and the callback of its timer, at the granularity of their critical
  sections. A callback that has started waits for the lock, then reads whether the bridge is idle,
  then calls \<^verbatim>\<open>onDisconnect\<close> outside the lock; stopping a timer whose callback has started has no effect.
  Times are milliseconds.
\<close>

definition shutdownGrace :: nat where
  "shutdownGrace = 5 * 1000"

datatype timer_phase = Armed | Stopped | CallbackStarted | SawIdle bool | CallbackReturned

record grace_timer =
  due :: nat
  t_phase :: timer_phase

record tracker =
  now :: nat
  live :: "bool list"
  activeConn :: int
  graceTimer :: "nat option"
  timers :: "grace_timer list"
  disconnects :: nat

definition new_tracker :: tracker where
  "new_tracker = \<lparr>now = 0, live = [], activeConn = 0, graceTimer = None, timers = [], disconnects = 0\<rparr>"

definition set_phase :: "nat \<Rightarrow> timer_phase \<Rightarrow> tracker \<Rightarrow> tracker" where
  "set_phase t p s = s\<lparr>timers := (timers s)[t := (timers s ! t)\<lparr>t_phase := p\<rparr>]\<rparr>"

definition timer_Stop :: "nat \<Rightarrow> tracker \<Rightarrow> tracker" where
  "timer_Stop t s = (if t_phase (timers s ! t) = Armed then set_phase t Stopped s else s)"

definition session_start :: "tracker \<Rightarrow> tracker" where
  "session_start s =
     (let s = s\<lparr>activeConn := activeConn s + 1, live := live s @ [True]\<rparr>
      in case graceTimer s of
           None \<Rightarrow> s
         | Some t \<Rightarrow> (timer_Stop t s)\<lparr>graceTimer := None\<rparr>)"

definition AfterFunc :: "nat \<Rightarrow> tracker \<Rightarrow> tracker" where
  "AfterFunc d s =
     s\<lparr>graceTimer := Some (length (timers s)), timers := timers s @ [\<lparr>due = now s + d, t_phase = Armed\<rparr>]\<rparr>"

text \<open>\<open>notify\<close> says whether the caller gave an \<^verbatim>\<open>onDisconnect\<close>.\<close>

definition session_end :: "bool \<Rightarrow> nat \<Rightarrow> tracker \<Rightarrow> tracker" where
  "session_end notify k s =
     (let s = s\<lparr>live := (live s)[k := False]\<rparr>
      in if \<not> notify then s
         else let s = s\<lparr>activeConn := activeConn s - 1\<rparr>
              in if activeConn s = 0 then AfterFunc shutdownGrace s else s)"

datatype tracker_event =
  SessionStarts | SessionEnds nat | TimePasses nat | TimerExpires nat | CallbackLooks nat | CallbackEnds nat

definition in_phase :: "tracker \<Rightarrow> nat \<Rightarrow> timer_phase \<Rightarrow> bool" where
  "in_phase s t p = (t < length (timers s) \<and> t_phase (timers s ! t) = p)"

definition tracker_step :: "bool \<Rightarrow> tracker \<Rightarrow> tracker_event \<Rightarrow> tracker option" where
  "tracker_step notify s e =
     (case e of
        SessionStarts \<Rightarrow> Some (session_start s)
      | SessionEnds k \<Rightarrow> if k < length (live s) \<and> live s ! k then Some (session_end notify k s) else None
      | TimePasses d \<Rightarrow> Some (s\<lparr>now := now s + d\<rparr>)
      | TimerExpires t \<Rightarrow>
          if in_phase s t Armed \<and> due (timers s ! t) \<le> now s then Some (set_phase t CallbackStarted s) else None
      | CallbackLooks t \<Rightarrow>
          if in_phase s t CallbackStarted then Some (set_phase t (SawIdle (activeConn s = 0)) s) else None
      | CallbackEnds t \<Rightarrow>
          if in_phase s t (SawIdle True)
          then Some ((set_phase t CallbackReturned s)\<lparr>disconnects := disconnects s + 1\<rparr>)
          else if in_phase s t (SawIdle False) then Some (set_phase t CallbackReturned s)
          else None)"

abbreviation tracker_run :: "bool \<Rightarrow> tracker \<Rightarrow> tracker_event list \<Rightarrow> tracker option" where
  "tracker_run notify \<equiv> run_steps (tracker_step notify)"

abbreviation tracked :: "tracker \<Rightarrow> bool" where
  "tracked \<equiv> reach (tracker_step True) new_tracker"

text \<open>
  The last timer is the only one that can be armed, and while the bridge is idle it is armed, on its
  way to the shutdown, or done with it.
\<close>

definition sessions :: "tracker \<Rightarrow> nat" where
  "sessions s = length (filter id (live s))"

definition due_ok :: "nat \<Rightarrow> grace_timer \<Rightarrow> bool" where
  "due_ok n t = (t_phase t \<in> {Armed, Stopped} \<or> due t \<le> n)"

definition winding_down :: "tracker \<Rightarrow> nat \<Rightarrow> bool" where
  "winding_down s t =
     (in_phase s t Armed \<or> in_phase s t CallbackStarted \<or> in_phase s t (SawIdle True)
      \<or> in_phase s t CallbackReturned \<and> 0 < disconnects s)"

definition tracker_ok :: "tracker \<Rightarrow> bool" where
  "tracker_ok s =
     (activeConn s = int (sessions s)
      \<and> list_all (due_ok (now s)) (timers s)
      \<and> (\<forall>t. in_phase s t Armed \<longrightarrow> graceTimer s = Some t)
      \<and> (graceTimer s = None \<longrightarrow> live s \<noteq> [] \<longrightarrow> activeConn s \<noteq> 0)
      \<and> (\<forall>t. graceTimer s = Some t \<longrightarrow> activeConn s = 0 \<and> winding_down s t))"

lemma tracker_okD:
  assumes "tracker_ok s"
  shows "activeConn s = int (sessions s)" "list_all (due_ok (now s)) (timers s)"
    "in_phase s t Armed \<Longrightarrow> graceTimer s = Some t"
    "graceTimer s = None \<Longrightarrow> live s \<noteq> [] \<Longrightarrow> activeConn s \<noteq> 0"
    "graceTimer s = Some t \<Longrightarrow> activeConn s = 0 \<and> winding_down s t"
  using assms by (simp_all add: tracker_ok_def)

lemma tracker_okI:
  assumes "activeConn s = int (sessions s)" "list_all (due_ok (now s)) (timers s)"
    "\<And>t. in_phase s t Armed \<Longrightarrow> graceTimer s = Some t"
    "graceTimer s = None \<Longrightarrow> live s \<noteq> [] \<Longrightarrow> activeConn s \<noteq> 0"
    "\<And>t. graceTimer s = Some t \<Longrightarrow> activeConn s = 0 \<and> winding_down s t"
  shows "tracker_ok s"
  using assms by (simp add: tracker_ok_def)

lemma filter_update: "k < length xs \<Longrightarrow> xs ! k \<Longrightarrow> Suc (length (filter id (xs[k := False]))) = length (filter id xs)"
proof (induction xs arbitrary: k)
  case (Cons x xs)
  then show ?case by (cases k) auto
qed simp

lemma in_phase_set [simp]:
  "t < length (timers s) \<Longrightarrow> in_phase (set_phase t p s) u q = (if u = t then q = p else in_phase s u q)"
  by (auto simp: in_phase_def set_phase_def nth_list_update)

lemma set_phase_other [simp]:
  "now (set_phase t p s) = now s" "live (set_phase t p s) = live s" "activeConn (set_phase t p s) = activeConn s"
  "graceTimer (set_phase t p s) = graceTimer s" "disconnects (set_phase t p s) = disconnects s"
  by (simp_all add: set_phase_def)

lemma length_set_phase [simp]: "length (timers (set_phase t p s)) = length (timers s)"
  by (simp add: set_phase_def)

lemma in_phase_upd [simp]:
  "in_phase (s\<lparr>now := n\<rparr>) t p = in_phase s t p" "in_phase (s\<lparr>live := l\<rparr>) t p = in_phase s t p"
  "in_phase (s\<lparr>activeConn := a\<rparr>) t p = in_phase s t p" "in_phase (s\<lparr>graceTimer := g\<rparr>) t p = in_phase s t p"
  "in_phase (s\<lparr>disconnects := d\<rparr>) t p = in_phase s t p"
  by (simp_all add: in_phase_def)

lemma phase_after:
  "t < length (timers s) \<Longrightarrow> t_phase (timers (set_phase u p s) ! t) = (if u = t then p else t_phase (timers s ! t))"
  by (cases "u = t") (simp_all add: set_phase_def)

lemma in_phase_length: "in_phase s t p \<Longrightarrow> t < length (timers s)"
  by (simp add: in_phase_def)

lemma due_set_phase:
  assumes "list_all (due_ok n) (timers s)" "p \<in> {Armed, Stopped} \<or> due (timers s ! t) \<le> n"
  shows "list_all (due_ok n) (timers (set_phase t p s))"
  using assms by (cases "t < length (timers s)")
    (auto simp: set_phase_def list_all_length nth_list_update due_ok_def)

lemma due_later: "list_all (due_ok n) ts \<Longrightarrow> n \<le> m \<Longrightarrow> list_all (due_ok m) ts"
  by (auto simp: list_all_iff due_ok_def)

lemma winding_down_length: "winding_down s t \<Longrightarrow> t < length (timers s)"
  by (auto simp: winding_down_def in_phase_def)

lemma session_start_eqs:
  "activeConn (session_start s) = activeConn s + 1" "live (session_start s) = live s @ [True]"
  "now (session_start s) = now s" "disconnects (session_start s) = disconnects s"
  "graceTimer (session_start s) = None" "length (timers (session_start s)) = length (timers s)"
  by (simp_all add: session_start_def timer_Stop_def Let_def set_phase_def split: option.split)

lemma session_start_phase:
  "t < length (timers s) \<Longrightarrow> t_phase (timers (session_start s) ! t)
     = (if graceTimer s = Some t \<and> in_phase s t Armed then Stopped else t_phase (timers s ! t))"
  by (auto simp: session_start_def timer_Stop_def Let_def phase_after in_phase_def split: option.split)

lemma session_start_due:
  assumes "list_all (due_ok n) (timers s)"
  shows "list_all (due_ok n) (timers (session_start s))"
proof -
  have "list_all (due_ok n) (timers (timer_Stop t s'))" if "timers s' = timers s" for t s'
    using due_set_phase [of n s' Stopped t] assms that by (simp add: timer_Stop_def)
  then show ?thesis using assms by (simp add: session_start_def Let_def split: option.split)
qed

lemma tracker_ok_start:
  assumes "tracker_ok s"
  shows "tracker_ok (session_start s)"
proof (rule tracker_okI)
  show "list_all (due_ok (now (session_start s))) (timers (session_start s))"
    unfolding session_start_eqs by (rule session_start_due [OF tracker_okD(2) [OF assms]])
  fix t assume "in_phase (session_start s) t Armed"
  with session_start_phase [of t s] tracker_okD(3) [OF assms, of t] show "graceTimer (session_start s) = Some t"
    by (auto simp: in_phase_def session_start_eqs split: if_splits)
qed (use tracker_okD(1) [OF assms] in \<open>simp_all add: session_start_eqs sessions_def\<close>)

lemma tracker_ok_end:
  assumes "tracker_ok s" "k < length (live s)" "live s ! k"
  shows "tracker_ok (session_end True k s)"
proof -
  let ?e = "s\<lparr>live := (live s)[k := False], activeConn := activeConn s - 1\<rparr>"
  have n: "activeConn ?e = int (sessions ?e)"
    using filter_update [OF assms(2,3)] tracker_okD(1) [OF assms(1)] by (simp add: sessions_def)
  have "0 < activeConn s"
    using filter_update [OF assms(2,3)] tracker_okD(1) [OF assms(1)] unfolding sessions_def by linarith
  then have g: "graceTimer s = None" using tracker_okD(5) [OF assms(1)] by (cases "graceTimer s") auto
  then have a: "\<not> in_phase s t Armed" for t using tracker_okD(3) [OF assms(1), of t] by auto
  show ?thesis
  proof (cases "activeConn s = 1")
    case True
    then have "session_end True k s = AfterFunc shutdownGrace ?e" by (simp add: session_end_def)
    moreover have "tracker_ok (AfterFunc d ?e)" for d
      using n True a tracker_okD(2) [OF assms(1)]
      by (intro tracker_okI) (auto simp: AfterFunc_def sessions_def due_ok_def in_phase_def winding_down_def nth_append
          split: if_splits)
    ultimately show ?thesis by simp
  next
    case False
    then have "session_end True k s = ?e" by (simp add: session_end_def)
    moreover have "tracker_ok ?e"
      using n False a g tracker_okD(2) [OF assms(1)] by (intro tracker_okI) simp_all
    ultimately show ?thesis by simp
  qed
qed

lemma tracker_ok_phase:
  assumes "tracker_ok s" "in_phase s t q" "q \<noteq> Stopped" "p \<noteq> Armed" "due (timers s ! t) \<le> now s"
    and "graceTimer s = Some t \<Longrightarrow> p = CallbackStarted \<or> p = SawIdle True \<or> p = CallbackReturned \<and> 0 < disconnects s + n"
  shows "tracker_ok ((set_phase t p s)\<lparr>disconnects := disconnects s + n\<rparr>)"
proof (rule tracker_okI)
  note t = in_phase_length [OF assms(2)]
  show "list_all (due_ok (now ((set_phase t p s)\<lparr>disconnects := disconnects s + n\<rparr>)))
      (timers ((set_phase t p s)\<lparr>disconnects := disconnects s + n\<rparr>))"
    using due_set_phase [OF tracker_okD(2) [OF assms(1)]] assms(5) by simp
  show "graceTimer ((set_phase t p s)\<lparr>disconnects := disconnects s + n\<rparr>) = Some u"
    if "in_phase ((set_phase t p s)\<lparr>disconnects := disconnects s + n\<rparr>) u Armed" for u
    using that assms(4) t tracker_okD(3) [OF assms(1), of u] by (simp split: if_splits)
  show "activeConn ((set_phase t p s)\<lparr>disconnects := disconnects s + n\<rparr>) = 0
      \<and> winding_down ((set_phase t p s)\<lparr>disconnects := disconnects s + n\<rparr>) u"
    if "graceTimer ((set_phase t p s)\<lparr>disconnects := disconnects s + n\<rparr>) = Some u" for u
    using that assms(6) t tracker_okD(5) [OF assms(1), of u] by (auto simp: winding_down_def)
qed (use tracker_okD(1,4) [OF assms(1)] in \<open>simp_all add: sessions_def\<close>)

lemma due_passed: "tracker_ok s \<Longrightarrow> in_phase s t p \<Longrightarrow> p \<notin> {Armed, Stopped} \<Longrightarrow> due (timers s ! t) \<le> now s"
  using tracker_okD(2) [of s] by (auto simp: in_phase_def list_all_length due_ok_def)

lemma no_disconnects [simp]: "(set_phase t p s)\<lparr>disconnects := disconnects s\<rparr> = set_phase t p s"
  by (simp add: set_phase_def)

lemma tracker_ok_step:
  assumes "tracker_ok s" "tracker_step True s e = Some s'"
  shows "tracker_ok s'"
proof (cases e)
  case SessionStarts
  with assms show ?thesis by (simp add: tracker_step_def) (metis tracker_ok_start)
next
  case (SessionEnds k)
  with assms show ?thesis by (simp add: tracker_step_def split: if_splits) (metis tracker_ok_end)
next
  case (TimePasses d)
  with assms(2) have "s' = s\<lparr>now := now s + d\<rparr>" by (simp add: tracker_step_def)
  with tracker_okD [OF assms(1)] due_later [OF tracker_okD(2) [OF assms(1)], of "now s + d"] show ?thesis
    by (intro tracker_okI) (simp_all add: sessions_def winding_down_def)
next
  case (TimerExpires t)
  with assms(2) have t: "in_phase s t Armed" "due (timers s ! t) \<le> now s" "s' = set_phase t CallbackStarted s"
    by (simp_all add: tracker_step_def split: if_splits)
  with tracker_ok_phase [OF assms(1) t(1) _ _ t(2), of CallbackStarted 0] show ?thesis by simp
next
  case (CallbackLooks t)
  with assms(2) have t: "in_phase s t CallbackStarted" "s' = set_phase t (SawIdle (activeConn s = 0)) s"
    by (simp_all add: tracker_step_def split: if_splits)
  with tracker_ok_phase [OF assms(1) t(1) _ _ due_passed [OF assms(1) t(1)], of "SawIdle (activeConn s = 0)" 0]
    tracker_okD(5) [OF assms(1), of t] show ?thesis by simp
next
  case (CallbackEnds t)
  show ?thesis
  proof (cases "in_phase s t (SawIdle True)")
    case True
    with CallbackEnds assms(2) have "s' = (set_phase t CallbackReturned s)\<lparr>disconnects := disconnects s + 1\<rparr>"
      by (simp add: tracker_step_def)
    with tracker_ok_phase [OF assms(1) True _ _ due_passed [OF assms(1) True], of CallbackReturned 1] show ?thesis
      by simp
  next
    case False
    with CallbackEnds assms(2) have s': "s' = set_phase t CallbackReturned s" and f: "in_phase s t (SawIdle False)"
      by (simp_all add: tracker_step_def split: if_splits)
    have "graceTimer s \<noteq> Some t"
      using tracker_okD(5) [OF assms(1), of t] f by (auto simp: winding_down_def in_phase_def)
    with tracker_ok_phase [OF assms(1) f _ _ due_passed [OF assms(1) f], of CallbackReturned 0] s' show ?thesis
      by simp
  qed
qed

interpretation tracking: machine "tracker_step True" new_tracker tracker_ok
proof
  show "tracker_ok new_tracker" by (simp add: new_tracker_def tracker_ok_def sessions_def in_phase_def)
qed (rule tracker_ok_step)

text \<open>What is left to happen for an idle bridge, and that it ends in a shutdown.\<close>

definition idle_events :: "tracker \<Rightarrow> tracker_event list" where
  "idle_events s =
     (case graceTimer s of
        None \<Rightarrow> []
      | Some t \<Rightarrow>
          (if in_phase s t Armed then [TimePasses (due (timers s ! t) - now s), TimerExpires t, CallbackLooks t, CallbackEnds t]
           else if in_phase s t CallbackStarted then [CallbackLooks t, CallbackEnds t]
           else if in_phase s t (SawIdle True) then [CallbackEnds t]
           else []))"



lemma stopped_stays:
  assumes "tracker_run True s es = Some s'" "in_phase s t Stopped"
  shows "in_phase s' t Stopped"
proof (rule run_steps_keeps [where I = "\<lambda>s. in_phase s t Stopped", OF _ assms(2,1)])
  fix s1 e s2 assume "in_phase s1 t Stopped" "tracker_step True s1 e = Some s2"
  then show "in_phase s2 t Stopped"
    by (auto simp: tracker_step_def session_start_def session_end_def timer_Stop_def AfterFunc_def phase_after
        in_phase_def Let_def nth_append split: tracker_event.splits if_splits option.splits)
qed

definition settled :: "tracker \<Rightarrow> bool" where
  "settled s = list_all (\<lambda>t. t_phase t \<in> {Armed, Stopped, CallbackReturned}) (timers s)"

lemma filter_live: "k < length xs \<Longrightarrow> xs ! k \<Longrightarrow> filter id xs \<noteq> []"
  using nth_mem [of k xs] by (metis filter_empty_conv id_apply)

definition quiet :: "nat \<Rightarrow> tracker \<Rightarrow> bool" where
  "quiet k s =
     (tracker_ok s \<and> k < length (live s) \<and> live s ! k
      \<and> list_all (\<lambda>t. t_phase t \<in> {Stopped, CallbackReturned}) (timers s))"

lemma quiet_timer:
  assumes "quiet k s"
  shows "p \<notin> {Stopped, CallbackReturned} \<Longrightarrow> \<not> in_phase s t p" "graceTimer s = None"
proof -
  show none: "\<not> in_phase s t p" if "p \<notin> {Stopped, CallbackReturned}" for t p
    using assms that by (auto simp: quiet_def in_phase_def list_all_length)
  have ok: "tracker_ok s" and k: "k < length (live s)" "live s ! k" using assms by (simp_all add: quiet_def)
  have "sessions s \<noteq> 0" using filter_live [OF k] by (simp add: sessions_def)
  with tracker_okD(1,5) [OF ok] show "graceTimer s = None" by (cases "graceTimer s") auto
qed

lemma quiet_step:
  assumes "quiet k s" "tracker_step True s e = Some s'" "e \<noteq> SessionEnds k"
  shows "quiet k s' \<and> disconnects s' = disconnects s"
proof -
  have ok: "tracker_ok s'" using assms(1) tracker_ok_step [OF _ assms(2)] by (simp add: quiet_def)
  have k: "k < length (live s)" "live s ! k" and tq: "list_all (\<lambda>t. t_phase t \<in> {Stopped, CallbackReturned}) (timers s)"
    and a: "activeConn s = int (sessions s)"
    using assms(1) by (simp_all add: quiet_def tracker_ok_def)
  note none = quiet_timer [OF assms(1)]
  show ?thesis
  proof (cases e)
    case SessionStarts
    then have "s' = s\<lparr>activeConn := activeConn s + 1, live := live s @ [True]\<rparr>"
      using assms(2) none(2) by (simp add: tracker_step_def session_start_def)
    with ok k tq show ?thesis by (simp add: quiet_def nth_append)
  next
    case (SessionEnds j)
    with assms(2,3) have j: "j < length (live s)" "live s ! j" "j \<noteq> k" "s' = session_end True j s"
      by (simp_all add: tracker_step_def split: if_splits)
    let ?l = "(live s)[j := False]"
    have "?l ! k" using j(3) k(2) by simp
    then have "filter id ?l \<noteq> []"
      using k(1) by (intro filter_live) simp_all
    with filter_update [OF j(1,2)] a have "activeConn s \<noteq> 1"
      by (auto simp: sessions_def)
    with j k tq ok show ?thesis by (simp add: session_end_def quiet_def)
  next
    case (TimePasses d)
    with assms(2) ok k tq show ?thesis by (auto simp: tracker_step_def quiet_def)
  qed (use assms(2) none(1) in \<open>simp_all add: tracker_step_def\<close>)
qed

text \<open>C33. A reload or a second tab keeps the bridge alive: if no callback of a timer is under way when a
  session starts, then whatever else happens, as long as this session has not ended the bridge is
  not shut down: a timer armed by the session before it is stopped for good, and the end of other
  sessions arms none.\<close>

theorem live_session_keeps_bridge:
  assumes "tracked s" "settled s" "tracker_step True s SessionStarts = Some s1"
    and "tracker_run True s1 es = Some s2" "SessionEnds (length (live s)) \<notin> set es"
  shows "disconnects s2 = disconnects s \<and> live s2 ! length (live s)
    \<and> (\<forall>t. in_phase s t Armed \<longrightarrow> in_phase s2 t Stopped)"
proof -
  have s1: "s1 = session_start s" using assms(3) by (simp add: tracker_step_def)
  have ok: "tracker_ok s" by (rule tracking.reachable [OF assms(1)])
  have phase: "t_phase (timers s1 ! t) \<in> {Stopped, CallbackReturned} \<and> (in_phase s t Armed \<longrightarrow> in_phase s1 t Stopped)"
    if "t < length (timers s)" for t
    using that assms(2) session_start_phase [OF that] tracker_okD(3) [OF ok, of t]
    by (auto simp: s1 settled_def list_all_length in_phase_def session_start_eqs)
  then have stop: "in_phase s t Armed \<Longrightarrow> in_phase s1 t Stopped" for t
    using in_phase_length by blast
  have "list_all (\<lambda>t. t_phase t \<in> {Stopped, CallbackReturned}) (timers s1)"
    using phase by (simp add: list_all_length s1 session_start_eqs)
  moreover have "length (live s) < length (live s1)" "live s1 ! length (live s)" "disconnects s1 = disconnects s"
    by (simp_all add: s1 session_start_eqs)
  ultimately have q: "quiet (length (live s)) s1"
    using tracker_ok_start [OF ok] by (simp add: quiet_def s1)
  have "quiet k s' \<and> disconnects s' = disconnects s1"
    if "quiet k s1" "tracker_run True s1 es = Some s'" "SessionEnds k \<notin> set es" for k s'
    using that
  proof (induction es arbitrary: s1)
    case (Cons e es)
    then obtain s3 where "tracker_step True s1 e = Some s3" "tracker_run True s3 es = Some s'"
      by (auto split: option.splits)
    with Cons quiet_step [of k s1 e s3] show ?case by force
  qed simp
  from this [OF q assms(4,5)] stop stopped_stays [OF assms(4)] \<open>disconnects s1 = disconnects s\<close> show ?thesis
    by (auto simp: quiet_def)
qed

lemma live_session_keeps_bridge_witness:
  "\<exists>s2. tracker_run True new_tracker
        ([SessionStarts, SessionEnds 0, TimePasses 4999] @ SessionStarts # [TimePasses 9000]) = Some s2
     \<and> disconnects s2 = 0 \<and> live s2 ! 1"
proof -
  let ?es = "[SessionStarts, SessionEnds 0, TimePasses 4999]"
  let ?s = "\<lparr>now = 4999, live = [False], activeConn = 0, graceTimer = Some 0,
             timers = [\<lparr>due = 5000, t_phase = Armed\<rparr>], disconnects = 0\<rparr>"
  let ?s1 = "\<lparr>now = 4999, live = [False, True], activeConn = 1, graceTimer = None,
             timers = [\<lparr>due = 5000, t_phase = Stopped\<rparr>], disconnects = 0\<rparr>"
  note defs = new_tracker_def tracker_step_def session_start_def session_end_def AfterFunc_def shutdownGrace_def
    timer_Stop_def set_phase_def
  have r: "tracker_run True new_tracker ?es = Some ?s"
    by (simp add: defs)
  have s1: "tracker_step True ?s SessionStarts = Some ?s1" by (simp add: defs)
  have r1: "tracker_run True ?s1 [TimePasses 9000] = Some (?s1\<lparr>now := 13999\<rparr>)" by (simp add: defs)
  have "settled ?s" by (simp add: settled_def)
  from live_session_keeps_bridge [OF reach_from_init [OF r] this s1 r1] r s1 r1 show ?thesis
    by (simp add: defs)
qed

text \<open>
  A callback that had already started when the next session began still counts: it can shut the
  bridge down the moment that session ends, or even while it is live.
\<close>

lemma stale_callback_shuts_down_early:
  "map_option (\<lambda>s. (now s, disconnects s, map due (timers s)))
     (tracker_run True new_tracker
        [SessionStarts, SessionEnds 0, TimePasses 5000, TimerExpires 0, SessionStarts, SessionEnds 1,
         CallbackLooks 0, CallbackEnds 0]) = Some (5000, 1, [5000, 10000])"
  by (simp add: new_tracker_def tracker_step_def session_start_def session_end_def AfterFunc_def shutdownGrace_def
      timer_Stop_def set_phase_def in_phase_def)

lemma late_callback_cuts_session:
  "map_option (\<lambda>s. (live s, disconnects s))
     (tracker_run True new_tracker
        [SessionStarts, SessionEnds 0, TimePasses 5000, TimerExpires 0, CallbackLooks 0, SessionStarts,
         CallbackEnds 0]) = Some ([False, True], 1)"
  by (simp add: new_tracker_def tracker_step_def session_start_def session_end_def AfterFunc_def shutdownGrace_def
      timer_Stop_def set_phase_def in_phase_def)

section \<open>The page with the toolbar\<close>

text \<open>\<^verbatim>\<open>strings.Index\<close>, and \<^verbatim>\<open>strings.Replace\<close> of one occurrence of a non-empty string.\<close>

fun str_Index :: "bytes \<Rightarrow> bytes \<Rightarrow> nat option" where
  "str_Index [] sub = (if sub = [] then Some 0 else None)"
| "str_Index (x # s) sub = (if starts_with sub (x # s) then Some 0 else map_option Suc (str_Index s sub))"

definition Replace1 :: "bytes \<Rightarrow> bytes \<Rightarrow> bytes \<Rightarrow> bytes" where
  "Replace1 s old new =
     (case str_Index s old of None \<Rightarrow> s | Some i \<Rightarrow> take i s @ new @ drop (i + length old) s)"

definition body_end :: bytes where
  "body_end = go_string ''</body>''"

definition toolbar_tags :: bytes where
  "toolbar_tags =
     go_string ''<link rel=\"stylesheet\" href=\"rd450x/inject.css\">''
       @ go_string ''<script type=\"module\" src=\"rd450x/js/main.js\"></script>'' @ [10]"

definition injectSnippet :: bytes where
  "injectSnippet = toolbar_tags @ body_end"

text \<open>The status and the body of the answer; \<open>pg\<close> is the page noVNC comes with, if there is one.\<close>

definition serveInjectedVNC :: "bytes option \<Rightarrow> nat \<times> bytes" where
  "serveInjectedVNC pg =
     (case pg of
        None \<Rightarrow> (500, go_string ''vnc.html not found'' @ [10])
      | Some b \<Rightarrow> (200, Replace1 b body_end injectSnippet))"

lemma str_Index_Some:
  "str_Index s sub = Some i \<Longrightarrow>
     s = take i s @ sub @ drop (i + length sub) s \<and> i \<le> length s \<and> (\<forall>j < i. \<not> starts_with sub (drop j s))"
proof (induction s arbitrary: i)
  case (Cons x s)
  show ?case
  proof (cases "starts_with sub (x # s)")
    case True
    with Cons.prems have "i = 0" by simp
    with True show ?thesis by (metis append_Nil append_take_drop_id drop0 le0 less_nat_zero_code add_0 starts_with_def take0)
  next
    case False
    with Cons.prems obtain k where k: "str_Index s sub = Some k" "i = Suc k" by auto
    from Cons.IH [OF k(1)] k(2) False show ?thesis
      by (auto simp: less_Suc_eq_0_disj)
  qed
qed (auto split: if_splits)

lemma str_Index_None: "str_Index s sub = None \<Longrightarrow> sub \<noteq> [] \<Longrightarrow> \<not> starts_with sub (drop j s)"
proof (induction s arbitrary: j)
  case (Cons x s)
  then have "\<not> starts_with sub (x # s)" "\<And>j. \<not> starts_with sub (drop j s)"
    by (auto split: if_splits)
  then show ?case by (cases j) simp_all
qed (simp add: starts_with_def)

text \<open>The page the browser gets is noVNC's own with the toolbar's two tags and a line break inserted before
  the first closing body tag, everything else untouched; a page without that tag is served as it is,
  and a missing one is an error of the server.\<close>

theorem toolbar_injected_once:
  "case pg of
     None \<Rightarrow> fst (serveInjectedVNC pg) = 500
   | Some page \<Rightarrow> fst (serveInjectedVNC pg) = 200
       \<and> ((\<exists>before after. page = before @ body_end @ after
             \<and> snd (serveInjectedVNC pg) = before @ toolbar_tags @ body_end @ after
             \<and> \<not> (\<exists>j < length before. starts_with body_end (drop j page)))
          \<or> snd (serveInjectedVNC pg) = page \<and> \<not> (\<exists>j. starts_with body_end (drop j page)))"
proof (cases pg)
  case (Some page)
  show ?thesis
  proof (cases "str_Index page body_end")
    case None
    have "body_end \<noteq> []" by (simp add: body_end_def go_string_def)
    with None Some str_Index_None [OF None] show ?thesis by (simp add: serveInjectedVNC_def Replace1_def)
  next
    case (Some i)
    let ?a = "take i page" and ?b = "drop (i + length body_end) page"
    note S = str_Index_Some [OF Some]
    then have l: "length ?a = i" by simp
    have "snd (serveInjectedVNC pg) = ?a @ toolbar_tags @ body_end @ ?b"
      using Some \<open>pg = Some page\<close> by (simp add: serveInjectedVNC_def Replace1_def injectSnippet_def)
    with S l have "\<exists>before after. page = before @ body_end @ after
        \<and> snd (serveInjectedVNC pg) = before @ toolbar_tags @ body_end @ after
        \<and> \<not> (\<exists>j < length before. starts_with body_end (drop j page))"
      by (intro exI [of _ ?a] exI [of _ ?b]) auto
    then show ?thesis using \<open>pg = Some page\<close> by (simp add: serveInjectedVNC_def)
  qed
qed (simp add: serveInjectedVNC_def)

section \<open>Routes\<close>

datatype ui_handler = NoVncFiles | ToolbarAssets | InjectedPage | ControlSocket | RfbSocket

text \<open>\<^verbatim>\<open>ServeMux\<close>: an exact pattern first, then the longest pattern that ends in a slash.\<close>

definition ui_route :: "string \<Rightarrow> ui_handler" where
  "ui_route path =
     (if path = ''/vnc.html'' then InjectedPage
      else if path = ''/control'' then ControlSocket
      else if path = ''/websockify'' then RfbSocket
      else if take 8 path = ''/rd450x/'' then ToolbarAssets
      else NoVncFiles)"

definition ui_url :: "string \<Rightarrow> string" where
  "ui_url listen = ''http://'' @ listen @ ''/vnc.html?autoconnect=true&path=websockify&resize=off''"

end
