(* ===== verification/SolConsole.thy ===== *)
theory SolConsole
  imports GoStrings
begin

text \<open>
  The Serial-over-LAN console (\<^verbatim>\<open>internal/sol/console.go\<close>): the escape state machine on local
  input, the sequence and ACK state of the SOL link, the render queue, and the loop of \<^verbatim>\<open>Run\<close>.

  go-ipmi's client is a parameter: a function from its state and a request to its next state
  and an answer. \<^verbatim>\<open>Run\<close> selects between cancellation, local input and the poll timer while a second
  goroutine drains the render buffer; the model runs a list of these events, in any order.
  The terminal's output is the list of bytes written, a failed write being ignored as in the code.
\<close>

section \<open>Messages\<close>

text \<open>\<^verbatim>\<open>%c\<close> and \<^verbatim>\<open>%q\<close> of a byte taken as a code point.\<close>

definition encode_rune :: "u8 \<Rightarrow> bytes" where
  "encode_rune b =
     (if b < 0x80 then [b] else [0xC0 OR drop_bit 6 b, 0x80 OR (b AND 0x3F)])"

definition hex_digit :: "u8 \<Rightarrow> u8" where
  "hex_digit d = (if d < 10 then 0x30 + d else 0x57 + d)"

definition quote_rune :: "u8 \<Rightarrow> bytes" where
  "quote_rune b =
     (let esc = (if b = 7 then [0x5C, 0x61] else if b = 8 then [0x5C, 0x62]
                 else if b = 12 then [0x5C, 0x66] else if b = 10 then [0x5C, 0x6E]
                 else if b = 13 then [0x5C, 0x72] else if b = 9 then [0x5C, 0x74]
                 else if b = 11 then [0x5C, 0x76]
                 else if b = 0x27 \<or> b = 0x5C then [0x5C, b]
                 else if b < 0x20 \<or> b = 0x7F
                   then [0x5C, 0x78, hex_digit (drop_bit 4 b), hex_digit (b AND 0xF)]
                 else if (0x80 \<le> b \<and> b \<le> 0xA0) \<or> b = 0xAD
                   then [0x5C, 0x75, 0x30, 0x30, hex_digit (drop_bit 4 b), hex_digit (b AND 0xF)]
                 else encode_rune b)
      in [0x27] @ esc @ [0x27])"

section \<open>State\<close>

definition solBreakControl :: u8 where "solBreakControl = 0x10"
definition idlePoll :: nat where "idlePoll = 100"
definition drainPoll :: nat where "drainPoll = 0"

text \<open>
  \<open>term_open\<close> says whether a terminal is open, \<open>screen\<close> is what has been written to it, \<open>stderr\<close> what
  has been printed beside it.
\<close>

record console =
  escape :: u8
  term_open :: bool
  screen :: bytes
  stderr :: bytes
  renderBuf :: bytes
  renderWake :: bool
  localSeq :: u8
  remoteSeq :: u8
  remoteSize :: nat
  pendingAck :: u8

definition NewConsole :: "u8 \<Rightarrow> console" where
  "NewConsole esc =
     \<lparr>escape = esc, term_open = False, screen = [], stderr = [], renderBuf = [], renderWake = False,
      localSeq = 1, remoteSeq = 0, remoteSize = 0, pendingAck = 0\<rparr>"

definition pushRender :: "console \<Rightarrow> bytes \<Rightarrow> console" where
  "pushRender c b =
     (if b = [] then c else c\<lparr>renderBuf := renderBuf c @ b, renderWake := True\<rparr>)"

definition flushRender :: "console \<Rightarrow> console go" where
  "flushRender c =
     (let buf = renderBuf c; c = c\<lparr>renderBuf := []\<rparr>
      in if buf \<noteq> [] then (if term_open c then Inr (c\<lparr>screen := screen c @ buf\<rparr>) else Inl NilDereference)
         else Inr c)"

definition escapeLabel :: "console \<Rightarrow> bytes" where
  "escapeLabel c = go_string ''Ctrl-'' @ encode_rune (escape c + 0x40)"

definition notice :: "console \<Rightarrow> bytes \<Rightarrow> console" where
  "notice c msg =
     (if term_open c then pushRender c ([13, 10] @ go_string ''*** '' @ msg @ [13, 10])
      else c\<lparr>stderr := stderr c @ go_string ''*** '' @ msg @ [10]\<rparr>)"

definition showHelp :: "console \<Rightarrow> console" where
  "showHelp c =
     (let esc = escapeLabel c
      in notice c (go_string ''escape commands: '' @ esc @ go_string '' q = quit | '' @ esc
           @ go_string '' b = break | '' @ esc @ go_string '' '' @ esc @ go_string '' = literal | ''
           @ esc @ go_string '' ? = help''))"

section \<open>Local input\<close>

record escapeState =
  es_escape :: u8
  armed :: bool

definition lower :: "u8 \<Rightarrow> u8" where
  "lower b = (if 0x41 \<le> b \<and> b \<le> 0x5A then b + (0x61 - 0x41) else b)"

text \<open>What feeding has done so far: the bytes to pass on, whether to quit, whether to send a break.\<close>

record fed =
  pass :: bytes
  quit :: bool
  brk :: bool

definition feed_byte :: "escapeState \<times> console \<times> fed \<Rightarrow> u8 \<Rightarrow> escapeState \<times> console \<times> fed" where
  "feed_byte st b =
     (let (e, c, f) = st
      in if armed e then
           (let e = e\<lparr>armed := False\<rparr>; l = lower b
            in if l = 0x71 \<or> l = 0x2E then (e, notice c (go_string ''escape: quit''), f\<lparr>quit := True\<rparr>)
               else if l = 0x62
                 then (e, notice c (go_string ''escape: sending serial break''), f\<lparr>brk := True\<rparr>)
               else if l = 0x3F then (e, showHelp c, f)
               else if b = es_escape e then (e, c, f\<lparr>pass := pass f @ [es_escape e]\<rparr>)
               else (e, notice c (go_string ''escape: unknown command '' @ quote_rune b
                      @ go_string '' (press '' @ escapeLabel c @ go_string '' ? for help)''), f))
         else if b = es_escape e then (e\<lparr>armed := True\<rparr>, c, f)
         else (e, c, f\<lparr>pass := pass f @ [b]\<rparr>))"

definition feed :: "escapeState \<Rightarrow> console \<Rightarrow> bytes \<Rightarrow> escapeState \<times> console \<times> fed" where
  "feed e c data = foldl feed_byte (e, c, \<lparr>pass = [], quit = False, brk = False\<rparr>) data"

section \<open>The link\<close>

record sol_packet =
  SequenceNumber :: u8
  AckedSequenceNumber :: u8
  AcceptedCharacterCount :: u8
  ControlByte :: u8
  CharacterData :: bytes

datatype sol_err = ReadTimeout | OtherError nat

definition isReadTimeout :: "sol_err \<Rightarrow> bool" where
  "isReadTimeout e = (e = ReadTimeout)"

type_synonym 's ipmi_client = "'s \<Rightarrow> sol_packet \<Rightarrow> 's \<times> (sol_err + sol_packet)"

definition ingest :: "console \<Rightarrow> u8 \<Rightarrow> bytes \<Rightarrow> console \<times> bool \<times> bytes" where
  "ingest c newSeq data =
     (if newSeq = 0 then (c, False, [])
      else
        (let (c, fresh) =
               (if newSeq = remoteSeq c then
                  (c, if remoteSize c < length data then drop (remoteSize c) data else [])
                else (c\<lparr>remoteSeq := newSeq\<rparr>, data))
         in (c\<lparr>remoteSize := length data, pendingAck := of_nat (length data)\<rparr>, True, fresh)))"

definition sol_request :: "console \<Rightarrow> bytes \<Rightarrow> u8 \<Rightarrow> sol_packet" where
  "sol_request c chars control =
     \<lparr>SequenceNumber = localSeq c, AckedSequenceNumber = remoteSeq c,
      AcceptedCharacterCount = pendingAck c, ControlByte = control, CharacterData = chars\<rparr>"

definition next_seq :: "u8 \<Rightarrow> u8" where
  "next_seq s = (let s = s + 1 in if 0x0F < s then 1 else s)"

definition exchange ::
  "'s ipmi_client \<Rightarrow> console \<times> 's \<Rightarrow> bytes \<Rightarrow> u8 \<Rightarrow> (console \<times> 's) \<times> (sol_err + bool)" where
  "exchange client cs chars control =
     (let (c, s) = cs; (s, answer) = client s (sol_request c chars control)
      in case answer of
           Inl e \<Rightarrow> ((c, s), Inl e)
         | Inr res \<Rightarrow>
             (let c = c\<lparr>localSeq := next_seq (localSeq c)\<rparr>;
                  (c, active, fresh) = ingest c (SequenceNumber res AND 0x0F) (CharacterData res)
              in ((pushRender c fresh, s), Inr active)))"

section \<open>The loop\<close>

datatype sol_event = Cancelled | LocalInput bytes | PollFired | RenderWoken

record 's sol_run =
  con :: "console \<times> 's"
  esc :: escapeState
  poll :: nat

datatype sol_end = Returned "sol_err option" | Panicked go_panic

text \<open>An error other than a read timeout ends \<^verbatim>\<open>Run\<close>.\<close>

definition fatal :: "(sol_err + bool) \<Rightarrow> sol_err option" where
  "fatal r = (case r of Inl e \<Rightarrow> if isReadTimeout e then None else Some e | Inr _ \<Rightarrow> None)"

definition send_if ::
  "'s ipmi_client \<Rightarrow> bool \<Rightarrow> bytes \<Rightarrow> u8 \<Rightarrow> console \<times> 's \<Rightarrow> (console \<times> 's) \<times> sol_err option" where
  "send_if client cond chars control cs =
     (if cond then (let (cs, r) = exchange client cs chars control in (cs, fatal r)) else (cs, None))"

definition run_event ::
  "'s ipmi_client \<Rightarrow> 's sol_run \<Rightarrow> sol_event \<Rightarrow> 's sol_run \<times> sol_end option" where
  "run_event client st ev =
     (case ev of
        Cancelled \<Rightarrow> (st, Some (Returned None))
      | RenderWoken \<Rightarrow>
          (let (c, s) = con st
           in if \<not> renderWake c then (st, None)
              else case flushRender (c\<lparr>renderWake := False\<rparr>) of
                     Inl p \<Rightarrow> (st, Some (Panicked p))
                   | Inr c \<Rightarrow> (st\<lparr>con := (c, s)\<rparr>, None))
      | LocalInput data \<Rightarrow>
          (let (c, s) = con st;
               (e, c, f) = feed (esc st) c data;
               st = st\<lparr>esc := e\<rparr>;
               (cs, err) = send_if client (brk f) [] solBreakControl (c, s)
           in case err of
                Some x \<Rightarrow> (st\<lparr>con := cs\<rparr>, Some (Returned (Some x)))
              | None \<Rightarrow>
                  (let (cs, err) = send_if client (pass f \<noteq> []) (pass f) 0 cs
                   in case err of
                        Some x \<Rightarrow> (st\<lparr>con := cs\<rparr>, Some (Returned (Some x)))
                      | None \<Rightarrow>
                          if quit f then (st\<lparr>con := cs\<rparr>, Some (Returned None))
                          else (st\<lparr>con := cs, poll := drainPoll\<rparr>, None)))
      | PollFired \<Rightarrow>
          (let (cs, r) = exchange client (con st) [] 0
           in case r of
                Inr _ \<Rightarrow> (st\<lparr>con := cs, poll := drainPoll\<rparr>, None)
              | Inl e \<Rightarrow>
                  if isReadTimeout e then (st\<lparr>con := cs, poll := idlePoll\<rparr>, None)
                  else (st\<lparr>con := cs\<rparr>, Some (Returned (Some e)))))"

fun run_events ::
  "'s ipmi_client \<Rightarrow> 's sol_run \<Rightarrow> sol_event list \<Rightarrow> 's sol_run \<times> sol_end option" where
  "run_events client st [] = (st, None)"
| "run_events client st (ev # evs) =
     (case run_event client st ev of
        (st, None) \<Rightarrow> run_events client st evs
      | (st, Some r) \<Rightarrow> (st, Some r))"

text \<open>The deferred teardown: the last flush, then the terminal is gone.\<close>

definition close_console :: "'s sol_run \<Rightarrow> sol_end \<Rightarrow> (console \<times> 's) \<times> sol_end" where
  "close_console st r =
     (let (c, s) = con st
      in case flushRender c of
           Inl p \<Rightarrow> ((c, s), Panicked p)
         | Inr c \<Rightarrow> ((c\<lparr>term_open := False\<rparr>, s), r))"

text \<open>
  \<open>None\<close> while no event ends the loop. The left side: no terminal could be opened.
\<close>

definition sol_Run ::
  "'s ipmi_client \<Rightarrow> bool \<Rightarrow> console \<times> 's \<Rightarrow> sol_event list
     \<Rightarrow> unit + ('s sol_run + (console \<times> 's) \<times> sol_end)" where
  "sol_Run client opened cs evs =
     (if \<not> opened then Inl ()
      else
        (let (c, s) = cs; c = c\<lparr>term_open := True\<rparr>;
             (cs, r) = exchange client (c, s) [] 0;
             st = \<lparr>con = cs, esc = \<lparr>es_escape = escape c, armed = False\<rparr>, poll = idlePoll\<rparr>
         in case fatal r of
              Some e \<Rightarrow> Inr (Inr (close_console st (Returned (Some e))))
            | None \<Rightarrow>
                (case run_events client st evs of
                   (st, None) \<Rightarrow> Inr (Inl st)
                 | (st, Some (Panicked p)) \<Rightarrow> Inr (Inr (con st, Panicked p))
                 | (st, Some (Returned e)) \<Rightarrow> Inr (Inr (close_console st (Returned e))))))"

section \<open>Taking the payload\<close>

datatype ipmi_err = ResponseError u8 | TransportError nat

datatype sol_call = ActivateCall | DeactivateCall

definition isAlreadyActive :: "ipmi_err \<Rightarrow> bool" where
  "isAlreadyActive e = (case e of ResponseError code \<Rightarrow> code = 0x80 | TransportError _ \<Rightarrow> False)"

text \<open>
  \<open>act k\<close> is the answer to the \<open>k\<close>-th activation; the calls made are recorded. What a
  deactivation answers is ignored.
\<close>

definition activate :: "(nat \<Rightarrow> ipmi_err option) \<Rightarrow> bool \<Rightarrow> ipmi_err option \<times> sol_call list" where
  "activate act force =
     (case act 0 of
        None \<Rightarrow> (None, [ActivateCall])
      | Some err \<Rightarrow>
          if force \<and> isAlreadyActive err then (act 1, [ActivateCall, DeactivateCall, ActivateCall])
          else (Some err, [ActivateCall]))"

definition deactivate :: "sol_call list" where
  "deactivate = [DeactivateCall]"

section \<open>Exactly-once output\<close>

text \<open>
  A BMC that keeps to the protocol: it repeats its current packet (sequence number \<open>s\<close>, characters
  \<open>d\<close>), perhaps with more characters at the end, until a request acknowledges the packet whole; then it
  may go on to a packet with another number. \<open>before\<close> is what its earlier packets carried. Any
  request and any answer may be lost. A step is one exchange of the console.
\<close>

definition acknowledges :: "sol_packet \<Rightarrow> u8 \<Rightarrow> bytes \<Rightarrow> bool" where
  "acknowledges req s d =
     (AckedSequenceNumber req = s \<and> AcceptedCharacterCount req = of_nat (length d))"

definition data_packet :: "u8 \<Rightarrow> bytes \<Rightarrow> sol_packet" where
  "data_packet s d =
     \<lparr>SequenceNumber = s, AckedSequenceNumber = 0, AcceptedCharacterCount = 0, ControlByte = 0,
      CharacterData = d\<rparr>"

definition answering :: "(sol_err + sol_packet) \<Rightarrow> unit ipmi_client" where
  "answering r = (\<lambda>s req. (s, r))"

definition exchanged :: "(sol_err + sol_packet) \<Rightarrow> console \<Rightarrow> bytes \<Rightarrow> u8 \<Rightarrow> console" where
  "exchanged r c chars control = fst (fst (exchange (answering r) (c, ()) chars control))"

inductive sol_link :: "u8 \<Rightarrow> console \<Rightarrow> bytes \<Rightarrow> u8 \<Rightarrow> bytes \<Rightarrow> bool" for k where
  start: "s \<in> {1..15} \<Longrightarrow> length d \<le> 255 \<Longrightarrow> sol_link k (NewConsole k) [] s d"
| more: "sol_link k c before s d \<Longrightarrow> length (d @ d') \<le> 255 \<Longrightarrow> sol_link k c before s (d @ d')"
| lost: "sol_link k c before s d \<Longrightarrow> sol_link k (exchanged (Inl e) c chars control) before s d"
| empty_answer: "sol_link k c before s d
    \<Longrightarrow> sol_link k (exchanged (Inr (data_packet 0 [])) c chars control) before s d"
| data: "sol_link k c before s d
    \<Longrightarrow> sol_link k (exchanged (Inr (data_packet s d)) c chars control) before s d"
| acked: "sol_link k c before s d \<Longrightarrow> acknowledges (sol_request c chars control) s d
    \<Longrightarrow> s' \<in> {1..15} \<Longrightarrow> s' \<noteq> s \<Longrightarrow> length d' \<le> 255 \<Longrightarrow> sol_link k c (before @ d) s' d'"

definition out :: "console \<Rightarrow> bytes" where
  "out c = screen c @ renderBuf c"

lemma out_updates [simp]:
  "out (c\<lparr>localSeq := a\<rparr>) = out c" "out (c\<lparr>remoteSeq := a\<rparr>) = out c"
  "out (c\<lparr>remoteSize := n\<rparr>) = out c" "out (c\<lparr>pendingAck := a\<rparr>) = out c"
  "out (c\<lparr>renderWake := w\<rparr>) = out c" "out (c\<lparr>term_open := w\<rparr>) = out c"
  "out (c\<lparr>stderr := b\<rparr>) = out c"
  by (simp_all add: out_def)

lemma pushRender_simps [simp]:
  "out (pushRender c b) = out c @ b" "remoteSeq (pushRender c b) = remoteSeq c"
  "remoteSize (pushRender c b) = remoteSize c" "pendingAck (pushRender c b) = pendingAck c"
  "localSeq (pushRender c b) = localSeq c" "term_open (pushRender c b) = term_open c"
  by (simp_all add: pushRender_def out_def)

lemma exchanged_Inl [simp]: "exchanged (Inl e) c chars control = c"
  by (simp add: exchanged_def exchange_def answering_def)

lemma exchanged_empty:
  "exchanged (Inr (data_packet 0 [])) c chars control = c\<lparr>localSeq := next_seq (localSeq c)\<rparr>"
  by (simp add: exchanged_def exchange_def answering_def data_packet_def ingest_def pushRender_def)

lemma low_nibble: "s \<in> {1..15} \<Longrightarrow> s AND 0x0F = (s :: u8) \<and> s \<noteq> 0"
proof -
  assume s: "s \<in> {1..15}"
  then have "s < 2 ^ 4" by (auto simp: word_less_nat_alt word_le_nat_alt)
  then have "s AND mask 4 = s" by (rule less_mask_eq)
  moreover have "s \<noteq> 0" using s by (auto simp: word_le_nat_alt)
  ultimately show ?thesis by (simp add: mask_eq_decr_exp)
qed

lemma exchanged_data:
  assumes "s \<in> {1..15}"
  shows "remoteSeq (exchanged (Inr (data_packet s d)) c chars control) = s"
    "remoteSize (exchanged (Inr (data_packet s d)) c chars control) = length d"
    "pendingAck (exchanged (Inr (data_packet s d)) c chars control) = of_nat (length d)"
    "out (exchanged (Inr (data_packet s d)) c chars control)
       = out c @ (if remoteSeq c = s then drop (remoteSize c) d else d)"
  using low_nibble [OF assms]
  by (simp_all add: exchanged_def exchange_def answering_def data_packet_def ingest_def Let_def)

text \<open>What holds between a console and such a BMC.\<close>

definition in_step :: "console \<Rightarrow> bytes \<Rightarrow> u8 \<Rightarrow> bytes \<Rightarrow> bool" where
  "in_step c before s d =
     (s \<in> {1..15} \<and> length d \<le> 255
      \<and> (if remoteSeq c = s
         then remoteSize c \<le> length d \<and> pendingAck c = of_nat (remoteSize c)
              \<and> out c = before @ take (remoteSize c) d
         else out c = before))"

lemma count_inj: "(of_nat n :: u8) = of_nat m \<Longrightarrow> n \<le> 255 \<Longrightarrow> m \<le> 255 \<Longrightarrow> n = m"
  by (drule arg_cong [where f = unat]) (simp add: unat_of_nat)

lemma sol_link_in_step: "sol_link k c before s d \<Longrightarrow> in_step c before s d"
proof (induction rule: sol_link.induct)
  case (start s d)
  then have "s \<noteq> 0" using low_nibble by blast
  with start show ?case
    by (auto simp: in_step_def NewConsole_def out_def)
next
  case (more c before s d d')
  then show ?case by (auto simp: in_step_def split: if_splits)
next
  case (empty_answer c before s d chars control)
  then show ?case by (simp add: in_step_def exchanged_empty)
next
  case (data c before s d chars control)
  then have s: "s \<in> {1..15}" by (simp add: in_step_def)
  from data show ?case
    by (auto simp: in_step_def exchanged_data [OF s] split: if_splits)
next
  case (acked c before s d chars control s' d')
  then have "remoteSeq c = s" "pendingAck c = of_nat (length d)"
    by (simp_all add: acknowledges_def sol_request_def)
  moreover have "in_step c before s d" by (rule acked.IH)
  ultimately have "remoteSize c = length d" "out c = before @ take (remoteSize c) d"
    by (auto simp: in_step_def dest: count_inj)
  then show ?case
    using acked.hyps \<open>remoteSeq c = s\<close> by (simp add: in_step_def)
qed simp

text \<open>
  C24. Serial output reaches the screen exactly once: against a BMC that repeats and extends its
  packet until it is acknowledged whole, and whatever exchanges are lost, what the console has
  rendered is always all the earlier packets, once and in order, and then a prefix of the
  current one; what has been acknowledged has been rendered.
\<close>

theorem sol_output_exactly_once:
  assumes "sol_link k c before s d"
  shows "\<exists>n \<le> length d. screen c @ renderBuf c = before @ take n d
           \<and> (acknowledges (sol_request c chars control) s d \<longrightarrow> n = length d)"
proof -
  have i: "in_step c before s d" by (rule sol_link_in_step [OF assms])
  have d: "length d \<le> 255" using i by (simp add: in_step_def)
  show ?thesis
  proof (cases "remoteSeq c = s")
    case True
    with i have r: "remoteSize c \<le> length d" "pendingAck c = of_nat (remoteSize c)"
      "screen c @ renderBuf c = before @ take (remoteSize c) d"
      by (simp_all add: in_step_def out_def)
    then have "remoteSize c = length d" if "acknowledges (sol_request c chars control) s d"
      using that d by (intro count_inj) (simp_all add: acknowledges_def sol_request_def)
    with r show ?thesis by blast
  next
    case False
    with i have "screen c @ renderBuf c = before @ take 0 d"
      by (simp add: in_step_def out_def)
    moreover have "\<not> acknowledges (sol_request c chars control) s d"
      using False by (simp add: acknowledges_def sol_request_def)
    ultimately show ?thesis by blast
  qed
qed

lemma sol_output_exactly_once_witness:
  "\<exists>c. sol_link 0x1D c [65, 66] 2 [67]
     \<and> (\<exists>n \<le> length [67 :: u8]. screen c @ renderBuf c = [65, 66] @ take n [67]
          \<and> (acknowledges (sol_request c [] 0) 2 [67] \<longrightarrow> n = length [67 :: u8]))"
proof -
  let ?c = "exchanged (Inr (data_packet 1 [65, 66])) (NewConsole 0x1D) [] 0"
  have one: "sol_link 0x1D ?c [] 1 [65, 66]"
    by (intro sol_link.data sol_link.start) simp_all
  have "acknowledges (sol_request ?c [] 0) 1 [65, 66]"
    by (simp add: acknowledges_def sol_request_def exchanged_data)
  from sol_link.acked [OF one this, of 2 "[67]"] have two: "sol_link 0x1D ?c [65, 66] 2 [67]"
    by simp
  from sol_output_exactly_once [OF two, of "[]" 0] two show ?thesis by blast
qed

section \<open>Local input and chunks\<close>

definition merge_fed :: "fed \<Rightarrow> fed \<Rightarrow> fed" where
  "merge_fed f g = \<lparr>pass = pass f @ pass g, quit = (quit f \<or> quit g), brk = (brk f \<or> brk g)\<rparr>"

lemma feed_byte_merge:
  "feed_byte (e, c, merge_fed f g) b = (case feed_byte (e, c, g) b of (e, c, g) \<Rightarrow> (e, c, merge_fed f g))"
  by (simp add: feed_byte_def merge_fed_def Let_def)

lemma feed_bytes_merge:
  "foldl feed_byte (e, c, merge_fed f g) bs =
     (case foldl feed_byte (e, c, g) bs of (e, c, g) \<Rightarrow> (e, c, merge_fed f g))"
proof (induction bs arbitrary: e c g)
  case (Cons b bs)
  obtain e' c' g' where "feed_byte (e, c, g) b = (e', c', g')" by (metis prod_cases3)
  with Cons show ?case by (simp add: feed_byte_merge)
qed simp

lemma feed_append:
  "feed e c (xs @ ys) =
     (case feed e c xs of (e, c, f) \<Rightarrow> case feed e c ys of (e, c, g) \<Rightarrow> (e, c, merge_fed f g))"
proof -
  obtain e' c' f' where f: "feed e c xs = (e', c', f')" by (metis prod_cases3)
  have "merge_fed f' \<lparr>pass = [], quit = False, brk = False\<rparr> = f'"
    by (simp add: merge_fed_def)
  with f show ?thesis
    using feed_bytes_merge [of e' c' f' "\<lparr>pass = [], quit = False, brk = False\<rparr>" ys]
    by (simp add: feed_def)
qed

text \<open>Typing a text so that it arrives as it is: the escape key is pressed twice.\<close>

definition typed :: "u8 \<Rightarrow> bytes \<Rightarrow> bytes" where
  "typed k msg = concat (map (\<lambda>b. if b = k then [k, k] else [b]) msg)"

lemma feed_typed:
  assumes "lower k \<notin> {0x71, 0x2E, 0x62, 0x3F}"
  shows "feed \<lparr>es_escape = k, armed = False\<rparr> c (typed k msg) =
     (\<lparr>es_escape = k, armed = False\<rparr>, c, \<lparr>pass = msg, quit = False, brk = False\<rparr>)"
proof (induction msg rule: rev_induct)
  case Nil
  show ?case by (simp add: feed_def typed_def)
next
  case (snoc b msg)
  have "typed k (msg @ [b]) = typed k msg @ (if b = k then [k, k] else [b])"
    by (simp add: typed_def)
  moreover have "feed \<lparr>es_escape = k, armed = False\<rparr> c (if b = k then [k, k] else [b]) =
      (\<lparr>es_escape = k, armed = False\<rparr>, c, \<lparr>pass = [b], quit = False, brk = False\<rparr>)"
    using assms by (auto simp: feed_def feed_byte_def Let_def)
  ultimately show ?case
    by (simp add: feed_append snoc merge_fed_def)
qed

fun feed_chunks :: "escapeState \<Rightarrow> console \<Rightarrow> bytes list \<Rightarrow> escapeState \<times> console \<times> fed" where
  "feed_chunks e c [] = (e, c, \<lparr>pass = [], quit = False, brk = False\<rparr>)"
| "feed_chunks e c (d # ds) =
     (case feed e c d of (e, c, f) \<Rightarrow> case feed_chunks e c ds of (e, c, g) \<Rightarrow> (e, c, merge_fed f g))"

lemma feed_chunks_concat: "feed_chunks e c ds = feed e c (concat ds)"
proof (induction ds arbitrary: e c)
  case (Cons d ds)
  then show ?case by (simp add: feed_append split: prod.split)
qed (simp add: feed_def)



section \<open>The render goroutine\<close>

text \<open>Two consoles that differ only in how much of the output has been written to the terminal.\<close>

definition same :: "console \<Rightarrow> console \<Rightarrow> bool" where
  "same c c' \<longleftrightarrow>
     escape c = escape c' \<and> term_open c \<and> term_open c' \<and> localSeq c = localSeq c'
     \<and> remoteSeq c = remoteSeq c' \<and> remoteSize c = remoteSize c' \<and> pendingAck c = pendingAck c'
     \<and> stderr c = stderr c' \<and> screen c @ renderBuf c = screen c' @ renderBuf c'"

lemma same_fields:
  assumes "same c c'"
  shows "escape c = escape c'" "term_open c" "term_open c'" "localSeq c = localSeq c'" "remoteSeq c = remoteSeq c'"
    "remoteSize c = remoteSize c'" "pendingAck c = pendingAck c'" "stderr c = stderr c'"
    "screen c @ renderBuf c = screen c' @ renderBuf c'"
  using assms by (simp_all add: same_def)

lemma same_push: "same c c' \<Longrightarrow> same (pushRender c b) (pushRender c' b)"
  by (simp add: same_def pushRender_def flip: append_assoc)

lemma same_notice: "same c c' \<Longrightarrow> same (notice c m) (notice c' m)"
  by (simp add: notice_def same_push same_fields)

lemma same_showHelp: "same c c' \<Longrightarrow> same (showHelp c) (showHelp c')"
  by (simp add: showHelp_def escapeLabel_def same_notice same_fields(1))

lemma same_flush: "same c c' \<Longrightarrow> flushRender c = Inr d \<Longrightarrow> same d c'"
  by (auto simp: flushRender_def same_def Let_def split: if_splits)

lemma flush_open:
  "term_open c \<Longrightarrow> \<exists>d. flushRender c = Inr d \<and> renderBuf d = [] \<and> screen d = screen c @ renderBuf c
                      \<and> stderr d = stderr c"
  by (simp add: flushRender_def Let_def)

lemma same_feed:
  assumes "same c c'"
  shows "\<exists>e' d d' f. feed e c bs = (e', d, f) \<and> feed e c' bs = (e', d', f) \<and> same d d'"
proof -
  have "\<exists>e' d d' f'. foldl feed_byte (e, c, f) bs = (e', d, f') \<and> foldl feed_byte (e, c', f) bs = (e', d', f')
          \<and> same d d'" for f
    using assms
  proof (induction bs arbitrary: e c c' f)
    case (Cons b bs)
    have "\<exists>e' d d' f'. feed_byte (e, c, f) b = (e', d, f') \<and> feed_byte (e, c', f) b = (e', d', f') \<and> same d d'"
      using Cons.prems by (simp add: feed_byte_def Let_def escapeLabel_def same_notice same_showHelp same_fields(1))
    then obtain e' d d' f' where
      "feed_byte (e, c, f) b = (e', d, f')" "feed_byte (e, c', f) b = (e', d', f')" "same d d'" by blast
    with Cons.IH [of d d' e' f'] show ?case by simp
  qed simp
  then show ?thesis by (simp add: feed_def)
qed

lemma same_exchange:
  assumes "same c c'"
  shows "\<exists>d d' t r. exchange client (c, s) chars control = ((d, t), r)
           \<and> exchange client (c', s) chars control = ((d', t), r) \<and> same d d'"
proof -
  have req: "sol_request c' chars control = sol_request c chars control"
    using same_fields [OF assms] by (simp add: sol_request_def)
  obtain t answer where a: "client s (sol_request c chars control) = (t, answer)" by force
  show ?thesis
  proof (cases answer)
    case (Inl e)
    with a assms req show ?thesis by (simp add: exchange_def)
  next
    case (Inr res)
    let ?c = "c\<lparr>localSeq := next_seq (localSeq c)\<rparr>" and ?c' = "c'\<lparr>localSeq := next_seq (localSeq c')\<rparr>"
    have n: "same ?c ?c'" using assms by (simp add: same_def)
    have "snd (ingest ?c q data) = snd (ingest ?c' q data) \<and> same (fst (ingest ?c q data)) (fst (ingest ?c' q data))"
      for q data
      using n same_fields(5,6) [OF n] by (simp add: ingest_def Let_def same_def)
    then obtain d d' active fresh where
      "ingest ?c (SequenceNumber res AND 0x0F) (CharacterData res) = (d, active, fresh)"
      "ingest ?c' (SequenceNumber res AND 0x0F) (CharacterData res) = (d', active, fresh)" "same d d'"
      by (metis fst_conv snd_conv surj_pair)
    with a Inr req show ?thesis
      by (simp add: exchange_def same_push)
  qed
qed

definition same_run :: "'s sol_run \<Rightarrow> 's sol_run \<Rightarrow> bool" where
  "same_run st st' =
     (same (fst (con st)) (fst (con st')) \<and> snd (con st) = snd (con st')
      \<and> esc st = esc st' \<and> poll st = poll st')"

lemma same_send_if:
  assumes "same c c'"
  shows "\<exists>d d' t r. send_if client b chars control (c, s) = ((d, t), r)
           \<and> send_if client b chars control (c', s) = ((d', t), r) \<and> same d d'"
  using same_exchange [OF assms, of client s chars control] assms
  by (auto simp: send_if_def)

lemma same_run_woken:
  assumes "same_run st st'"
  obtains st1 where "run_event client st RenderWoken = (st1, None)" "same_run st1 st'"
proof -
  obtain c s where c: "con st = (c, s)" by force
  have sc: "same c (fst (con st'))" and w: "same (c\<lparr>renderWake := False\<rparr>) (fst (con st'))"
    using assms c by (simp_all add: same_run_def same_def)
  show ?thesis
  proof (cases "renderWake c")
    case True
    obtain d where d: "flushRender (c\<lparr>renderWake := False\<rparr>) = Inr d"
      using flush_open [of "c\<lparr>renderWake := False\<rparr>"] same_fields(2) [OF w] by blast
    from same_flush [OF w d] assms c d True show ?thesis
      by (intro that [of "st\<lparr>con := (d, s)\<rparr>"]) (simp_all add: run_event_def same_run_def)
  next
    case False
    with c assms show ?thesis by (intro that [of st]) (simp_all add: run_event_def)
  qed
qed

lemma same_run_event:
  assumes "same_run st st'" "ev \<noteq> RenderWoken"
  shows "\<exists>st1 st1' r. run_event client st ev = (st1, r) \<and> run_event client st' ev = (st1', r) \<and> same_run st1 st1'
           \<and> (\<forall>p. r \<noteq> Some (Panicked p))"
proof -
  obtain c c' s where c: "con st = (c, s)" "con st' = (c', s)" and cc: "same c c'"
    and e: "esc st = esc st'" "poll st = poll st'"
    using assms(1) by (cases "con st"; cases "con st'") (auto simp: same_run_def)
  show ?thesis
  proof (cases ev)
    case Cancelled
    with assms show ?thesis by (simp add: run_event_def)
  next
    case PollFired
    obtain d d' t r where "exchange client (c, s) [] 0 = ((d, t), r)"
      "exchange client (c', s) [] 0 = ((d', t), r)" "same d d'"
      using same_exchange [OF cc] by metis
    with PollFired c e show ?thesis
      by (cases r) (simp_all add: run_event_def same_run_def)
  next
    case (LocalInput bs)
    obtain e' d d' f where f: "feed (esc st) c bs = (e', d, f)" "feed (esc st) c' bs = (e', d', f)" "same d d'"
      using same_feed [OF cc] by metis
    obtain d1 d1' t r where s1: "send_if client (brk f) [] solBreakControl (d, s) = ((d1, t), r)"
      "send_if client (brk f) [] solBreakControl (d', s) = ((d1', t), r)" "same d1 d1'"
      using same_send_if [OF f(3)] by metis
    obtain d2 d2' t2 r2 where s2: "send_if client (pass f \<noteq> []) (pass f) 0 (d1, t) = ((d2, t2), r2)"
      "send_if client (pass f \<noteq> []) (pass f) 0 (d1', t) = ((d2', t2), r2)" "same d2 d2'"
      using same_send_if [OF s1(3)] by metis
    show ?thesis
      using LocalInput c e f s1 s2
      by (cases r; cases r2; cases "quit f") (simp_all add: run_event_def same_run_def Let_def)
  qed (use assms in simp)
qed

lemma same_run_events:
  assumes "same_run st st'" "run_events client st evs = (st1, r)"
  shows "\<exists>st1'. run_events client st' (filter (\<lambda>ev. ev \<noteq> RenderWoken) evs) = (st1', r) \<and> same_run st1 st1'
           \<and> (\<forall>p. r \<noteq> Some (Panicked p))"
  using assms
proof (induction evs arbitrary: st st')
  case (Cons ev evs)
  show ?case
  proof (cases "ev = RenderWoken")
    case True
    obtain st2 where "run_event client st RenderWoken = (st2, None)" "same_run st2 st'"
      using same_run_woken [OF Cons.prems(1)] by blast
    with Cons True show ?thesis by simp
  next
    case False
    obtain st2 st2' q where q: "run_event client st ev = (st2, q)" "run_event client st' ev = (st2', q)"
      "same_run st2 st2'" "\<forall>p. q \<noteq> Some (Panicked p)"
      using same_run_event [OF Cons.prems(1) False] by metis
    with Cons.IH [OF q(3)] Cons.prems(2) False show ?thesis
      by (cases q) auto
  qed
qed simp

lemma same_close:
  assumes "same_run st st'" "close_console st r = ((c, s), r1)"
  shows "\<exists>c'. close_console st' r = ((c', s), r1) \<and> screen c' = screen c \<and> stderr c' = stderr c \<and> renderBuf c = []
     \<and> r1 = r"
proof -
  obtain d d' t where d: "con st = (d, t)" "con st' = (d', t)" and dd: "same d d'"
    using assms(1) by (cases "con st"; cases "con st'") (auto simp: same_run_def)
  note f = same_fields [OF dd]
  obtain e where e: "flushRender d = Inr e" "renderBuf e = []" "screen e = screen d @ renderBuf d" "stderr e = stderr d"
    using flush_open [OF f(2)] by blast
  obtain e' where e': "flushRender d' = Inr e'" "screen e' = screen d' @ renderBuf d'" "stderr e' = stderr d'"
    using flush_open [OF f(3)] by blast
  from e e' show ?thesis
    using assms(2) d f by (auto simp: close_console_def)
qed

lemma sol_Run_unwoken:
  assumes "sol_Run client True cs evs = Inr (Inr ((c, s), r))"
  shows "\<exists>c'. sol_Run client True cs (filter (\<lambda>ev. ev \<noteq> RenderWoken) evs) = Inr (Inr ((c', s), r))
           \<and> screen c' = screen c \<and> stderr c' = stderr c \<and> renderBuf c = [] \<and> (\<forall>p. r \<noteq> Panicked p)"
proof -
  obtain c0 s0 where cs: "cs = (c0, s0)" by force
  let ?c = "c0\<lparr>term_open := True\<rparr>"
  obtain d t q where x: "exchange client (?c, s0) [] 0 = ((d, t), q)" by (metis prod.exhaust)
  have "same ?c ?c" by (simp add: same_def)
  with x same_exchange [of ?c ?c client s0 "[]" 0] have dd: "same d d" by auto
  define st where "st = \<lparr>con = (d, t), esc = \<lparr>es_escape = escape c0, armed = False\<rparr>, poll = idlePoll\<rparr>"
  have ss: "same_run st st" using dd by (simp add: st_def same_run_def)
  show ?thesis
  proof (cases "fatal q")
    case (Some e)
    then have "close_console st (Returned (Some e)) = ((c, s), r)"
      using assms x cs by (simp add: sol_Run_def Let_def st_def)
    from same_close [OF ss this] show ?thesis
      using Some x cs by (auto simp: sol_Run_def Let_def st_def)
  next
    case None
    obtain st1 r1 where r1: "run_events client st evs = (st1, r1)" by force
    from same_run_events [OF ss r1] obtain st1' where
      st1': "run_events client st (filter (\<lambda>ev. ev \<noteq> RenderWoken) evs) = (st1', r1)" "same_run st1 st1'"
      and np: "\<forall>p. r1 \<noteq> Some (Panicked p)" by blast
    obtain e where e: "r1 = Some (Returned e)"
      using assms x cs None r1 np
      by (cases r1; cases "the r1") (auto simp: sol_Run_def Let_def st_def)
    then have "close_console st1 (Returned e) = ((c, s), r)"
      using assms x cs None r1 by (simp add: sol_Run_def Let_def st_def)
    from same_close [OF st1'(2) this] show ?thesis
      using None x cs st1'(1) e by (auto simp: sol_Run_def Let_def st_def)
  qed
qed

text \<open>
  C28. When the render goroutine runs makes no difference to what the user sees: a run of the console ends the
  same way, with the same requests answered and the same bytes written to the terminal, however
  often the goroutine was scheduled in between; it ends with nothing left to write, and the
  terminal is never written to after it is closed.
\<close>

theorem render_scheduling_irrelevant:
  assumes "sol_Run client True cs evs = Inr (Inr ((c, s), r))"
  shows "\<exists>c'. sol_Run client True cs (filter (\<lambda>ev. ev \<noteq> RenderWoken) evs) = Inr (Inr ((c', s), r))
           \<and> screen c' = screen c \<and> stderr c' = stderr c \<and> renderBuf c = [] \<and> (\<forall>p. r \<noteq> Panicked p)"
  by (rule sol_Run_unwoken [OF assms])

lemma render_scheduling_irrelevant_witness:
  "\<exists>c c'. sol_Run (answering (Inr (data_packet 1 [72, 105]))) True (NewConsole 0x1D, ())
             [RenderWoken, LocalInput [0x1D, 0x71]] = Inr (Inr ((c, ()), Returned None))
     \<and> sol_Run (answering (Inr (data_packet 1 [72, 105]))) True (NewConsole 0x1D, ())
             [LocalInput [0x1D, 0x71]] = Inr (Inr ((c', ()), Returned None))
     \<and> screen c' = screen c \<and> renderBuf c = []"
proof -
  let ?run = "sol_Run (answering (Inr (data_packet 1 [72, 105]))) True (NewConsole 0x1D, ())"
  obtain c where c: "?run [RenderWoken, LocalInput [0x1D, 0x71]] = Inr (Inr ((c, ()), Returned None))"
    by (simp add: sol_Run_def NewConsole_def exchange_def answering_def data_packet_def ingest_def
        fatal_def pushRender_def run_event_def flushRender_def feed_def feed_byte_def lower_def
        notice_def send_if_def close_console_def sol_request_def next_seq_def)
  from render_scheduling_irrelevant [OF c] c show ?thesis by auto
qed

end
