(* ===== verification/SolCommand.thy ===== *)
theory SolCommand
  imports SolConsole Config
begin

text \<open>
  The \<^verbatim>\<open>sol\<close> command (\<^verbatim>\<open>internal/sol/sol.go\<close>): the escape key's notation, the diagnostic and
  information modes, and the command itself from its flags to the console's run.

  What a line prints is modelled as the values in it, not its wording. Of go-ipmi the command
  sees whether a client can be made and connected, the answers to its commands and the SOL
  exchange of \<open>SolConsole\<close>; its calls are recorded in order. Parsing the flags is the flag
  package's.
\<close>

section \<open>The escape key\<close>

definition EqualFoldAscii :: "bytes \<Rightarrow> bytes \<Rightarrow> bool" where
  "EqualFoldAscii s t = (map lower s = map lower t)"

definition hex_value :: "u8 \<Rightarrow> nat option" where
  "hex_value c =
     (if 0x30 \<le> c \<and> c \<le> 0x39 then Some (unat c - 0x30)
      else if 0x61 \<le> lower c \<and> lower c \<le> 0x66 then Some (unat (lower c) - 0x61 + 10)
      else None)"

text \<open>\<^verbatim>\<open>ParseUint(s, 16, 8)\<close>: a number that would not fit is an error as soon as it is too big.\<close>

fun hex_byte :: "bytes \<Rightarrow> nat \<Rightarrow> nat option" where
  "hex_byte [] n = Some n"
| "hex_byte (c # s) n =
     (case hex_value c of
        None \<Rightarrow> None
      | Some d \<Rightarrow> if 255 < n * 16 + d then None else hex_byte s (n * 16 + d))"

definition ParseUint_16_8 :: "bytes \<Rightarrow> nat option" where
  "ParseUint_16_8 s = (if s = [] then None else hex_byte s 0)"

definition control_code :: "u8 \<Rightarrow> u8" where
  "control_code b = (b AND NOT 0x20) XOR 0x40"

definition parseEscape :: "bytes \<Rightarrow> u8 option" where
  "parseEscape value =
     (let v = TrimSpace value
      in if length v = 6 \<and> EqualFoldAscii (take 5 v) (go_string ''Ctrl-'') then Some (control_code (v ! 5))
         else if length v = 2 \<and> v ! 0 = 0x5E then Some (control_code (v ! 1))
         else if 2 \<le> length v \<and> EqualFoldAscii (take 2 v) (go_string ''0x'') then
           map_option of_nat (ParseUint_16_8 (drop 2 v))
         else if length v = 1 then Some (v ! 0)
         else None)"

section \<open>Diagnostics and information\<close>

datatype printed =
    PollAnswer nat sol_packet
  | PollError nat sol_err
  | DiagnosticBanner
  | BmcAddress bytes int
  | Firmware bytes
  | IpmiVersion nat nat
  | PowerState bool
  | SolConfigUnavailable nat
  | SolConfig bytes
  | Connecting bytes int bytes
  | ConnectedLabel bytes
  | SessionClosed

fun diagnose_polls ::
  "'s ipmi_client \<Rightarrow> nat list \<Rightarrow> u8 \<Rightarrow> u8 \<Rightarrow> u8 \<Rightarrow> 's \<Rightarrow> printed list \<times> sol_err option" where
  "diagnose_polls client [] lseq rseq ack s = ([], None)"
| "diagnose_polls client (i # is) lseq rseq ack s =
     (let req = \<lparr>SequenceNumber = lseq, AckedSequenceNumber = rseq, AcceptedCharacterCount = ack,
                 ControlByte = 0, CharacterData = []\<rparr>
      in case client s req of
           (s, Inl e) \<Rightarrow> ([PollError i e], Some e)
         | (s, Inr res) \<Rightarrow>
             (let (ps, r) = diagnose_polls client is (next_seq lseq) (SequenceNumber res AND 0x0F)
                              (of_nat (length (CharacterData res))) s
              in (PollAnswer i res # ps, r)))"

definition diagnoseSOL :: "'s ipmi_client \<Rightarrow> 's \<Rightarrow> printed list \<times> sol_err option" where
  "diagnoseSOL client s =
     (let (ps, r) = diagnose_polls client [0..<10] 1 0 0 s in (DiagnosticBanner # ps, r))"

text \<open>The device's firmware string and revision, and the formatted SOL configuration, or an error's number.\<close>

record bmc_info =
  device :: "(bytes \<times> nat \<times> nat) option"
  chassis :: "bool option"
  sol_config :: "nat + bytes"

definition showInfo :: "bmc_info \<Rightarrow> bytes \<Rightarrow> int \<Rightarrow> printed list \<times> bool" where
  "showInfo b host port =
     (case device b of
        None \<Rightarrow> ([], False)
      | Some (fw, major, minor) \<Rightarrow>
          (case chassis b of
             None \<Rightarrow> ([], False)
           | Some on \<Rightarrow>
               ([BmcAddress host port, Firmware fw, IpmiVersion major minor, PowerState on]
                  @ (case sol_config b of Inl e \<Rightarrow> [SolConfigUnavailable e] | Inr c \<Rightarrow> [SolConfig c]),
                True)))"

section \<open>The command\<close>

record sol_flags =
  f_host :: bytes
  f_user :: bytes
  f_port :: int
  f_escape :: bytes
  f_force :: bool
  f_info :: bool
  f_debug :: bool

datatype sol_cmd_err =
    BadEscape | MissingHost | MissingCredentials | ClientFailed | NotConnected | InfoFailed
  | HeldElsewhere ipmi_err | ActivateFailed ipmi_err | DiagnosticFailed sol_err | NoTerminal
  | RunFailed sol_err

datatype lan_call = LanConnect | LanInfo | SolCall sol_call | LanPolls | LanConsole | LanClose

text \<open>
  The BMC: whether a client can be made for an address and connected, what activations answer, what the
  information commands answer, and the SOL exchange with its first state.
\<close>

record 's bmc =
  can_make :: bool
  can_connect :: bool
  activations :: "nat \<Rightarrow> ipmi_err option"
  info :: bmc_info
  sol_client :: "'s ipmi_client"
  sol_state :: 's

datatype sol_cmd_end = Finished "sol_cmd_err option" | StillRunning | CrashedWith go_panic

text \<open>Results: the end, what was printed, and the calls made.\<close>

definition sol_RunCommand ::
  "environment \<Rightarrow> 's bmc \<Rightarrow> bool \<Rightarrow> sol_event list \<Rightarrow> sol_flags
     \<Rightarrow> sol_cmd_end \<times> printed list \<times> lan_call list" where
  "sol_RunCommand env b opened evs f =
     (case parseEscape (f_escape f) of
        None \<Rightarrow> (Finished (Some BadEscape), [], [])
      | Some k \<Rightarrow>
     (let creds = Load env (f_host f) (f_user f)
      in if Host creds = [] then (Finished (Some MissingHost), [], [])
         else if User creds = [] \<or> Password creds = [] then (Finished (Some MissingCredentials), [], [])
         else if \<not> can_make b then (Finished (Some ClientFailed), [], [])
         else if \<not> can_connect b then (Finished (Some NotConnected), [], [LanConnect])
         else if f_info f then
           (let (ps, ok) = showInfo (info b) (Host creds) (f_port f)
            in (Finished (if ok then None else Some InfoFailed), ps, [LanConnect, LanInfo, LanClose]))
         else
     (let line = Connecting (Host creds) (f_port f) (User creds);
          (err, calls) = activate (activations b) (f_force f);
          calls = LanConnect # map SolCall calls
      in case err of
           Some e \<Rightarrow>
             (Finished (Some (if \<not> f_force f \<and> isAlreadyActive e then HeldElsewhere e else ActivateFailed e)),
              [line], calls @ [LanClose])
         | None \<Rightarrow>
             (let after = map SolCall deactivate @ [LanClose]
              in if f_debug f then
                   (let (ps, r) = diagnoseSOL (sol_client b) (sol_state b)
                    in (Finished (map_option DiagnosticFailed r), line # ps, calls @ [LanPolls] @ after))
                 else
     (let c = NewConsole k; label = ConnectedLabel (escapeLabel c)
      in case sol_Run (sol_client b) opened (c, sol_state b) evs of
           Inl _ \<Rightarrow> (Finished (Some NoTerminal), [line, label], calls @ [LanConsole] @ after)
         | Inr (Inl _) \<Rightarrow> (StillRunning, [line, label], calls @ [LanConsole])
         | Inr (Inr (cs, Panicked p)) \<Rightarrow> (CrashedWith p, [line, label], calls @ [LanConsole])
         | Inr (Inr (cs, Returned (Some e))) \<Rightarrow>
             (Finished (Some (RunFailed e)), [line, label], calls @ [LanConsole] @ after)
         | Inr (Inr (cs, Returned None)) \<Rightarrow>
             (Finished None, [line, label, SessionClosed], calls @ [LanConsole] @ after))))))"

section \<open>Notations of the escape key\<close>

lemma control_labels:
  "list_all (\<lambda>n. parseEscape (escapeLabel (NewConsole (of_nat n))) = Some (of_nat n)) [0..<32]"
  by code_simp

lemma hex_digits:
  "list_all (\<lambda>n. hex_value (hex_digit (of_nat n)) = Some n \<and> 0x30 \<le> hex_digit (of_nat n)
              \<and> hex_digit (of_nat n) < 0x80) [0..<16]"
  by code_simp

text \<open>
  The notations of the escape key mean what the console prints: for each control key its label (as
  \<open>Ctrl-]\<close>) denotes it, and every byte is denoted by \<open>0x\<close> and its two hex digits.
\<close>

theorem escape_notations:
  "list_all (\<lambda>n. parseEscape (escapeLabel (NewConsole (of_nat n))) = Some (of_nat n)) [0..<32]
   \<and> parseEscape (go_string ''0x'' @ [hex_digit (drop_bit 4 c), hex_digit (c AND 0xF)]) = Some c"
proof (rule conjI [OF control_labels])
  let ?a = "drop_bit 4 c" and ?b = "c AND 0xF"
  let ?v = "go_string ''0x'' @ [hex_digit ?a, hex_digit ?b]"
  have "?b = take_bit 4 c" by (simp add: take_bit_eq_mask mask_eq_decr_exp)
  then have "unat ?b = take_bit 4 (unat c)" by (simp only: unsigned_take_bit_eq)
  then have b: "unat ?b = unat c mod 16" by (simp add: take_bit_eq_mod)
  have "unat ?a = drop_bit 4 (unat c)" by (rule unat_drop_bit_eq)
  then have a: "unat ?a = unat c div 16" by (simp add: drop_bit_eq_div)
  have c: "unat c < 256" using unsigned_less [of c] by simp
  then have lt: "unat ?a < 16" "unat ?b < 16" unfolding a b by presburger+
  have dig: "hex_value (hex_digit d) = Some (unat d)" "0x30 \<le> hex_digit d" "hex_digit d < 0x80"
    if "unat d < 16" for d
    using hex_digits that by (auto simp: list_all_iff dest!: bspec [where x = "unat d"])
  have v: "?v = [0x30, 0x78, hex_digit ?a, hex_digit ?b]" by (simp add: go_string_def)
  have t: "TrimSpace ?v = ?v"
    unfolding v using dig [OF lt(2)] by (intro TrimSpace_id) (auto simp: printable_def word_le_nat_alt)
  have c': "\<not> 255 < unat c" "\<not> 255 < unat c div 16" using c by presburger+
  have "hex_byte [hex_digit ?a, hex_digit ?b] 0 = Some (unat c)"
    using dig [OF lt(1)] dig [OF lt(2)] a b by (simp add: c')
  moreover have "EqualFoldAscii [0x30, 0x78] (go_string ''0x'')"
    by (simp add: EqualFoldAscii_def go_string_def)
  ultimately show "parseEscape ?v = Some c"
    unfolding parseEscape_def t unfolding v
    by (simp add: ParseUint_16_8_def del: hex_byte.simps)
qed

section \<open>What the command leaves behind\<close>

lemma sol_Run_never_panics: "sol_Run client opened cs evs \<noteq> Inr (Inr (cs', Panicked p))"
proof
  assume r: "sol_Run client opened cs evs = Inr (Inr (cs', Panicked p))"
  moreover have "opened" using r by (cases opened) (simp_all add: sol_Run_def)
  ultimately show False
    using sol_Run_unwoken [of client cs evs "fst cs'" "snd cs'" "Panicked p"] by simp
qed

text \<open>
  C29. The command releases what it takes: whenever it returns, an established session is closed last, a SOL
  payload that was activated is deactivated just before, and nothing is deactivated at the end
  that was not activated; and it never crashes.
\<close>

theorem sol_command_releases:
  "case sol_RunCommand env b opened evs f of
     (Finished r, ps, calls) \<Rightarrow>
       (let (err, acts) = activate (activations b) (f_force f)
        in calls \<in> {[], [LanConnect], [LanConnect, LanInfo, LanClose]}
           \<or> (if err = None
              then calls \<in> (\<lambda>use. LanConnect # map SolCall acts @ [use, SolCall DeactivateCall, LanClose])
                              ` {LanConsole, LanPolls}
              else calls = LanConnect # map SolCall acts @ [LanClose]))
   | (StillRunning, ps, calls) \<Rightarrow> last calls = LanConsole
   | (CrashedWith p, ps, calls) \<Rightarrow> False"
  using sol_Run_never_panics [of "sol_client b" opened _ evs]
  by (auto simp: sol_RunCommand_def Let_def deactivate_def split: option.split prod.split sum.split sol_end.split if_split)

lemma activate_outcome:
  "activate act force =
     (case act 0 of
        None \<Rightarrow> (None, [ActivateCall])
      | Some (ResponseError code) \<Rightarrow>
          if force \<and> code = 0x80 then (act 1, [ActivateCall, DeactivateCall, ActivateCall])
          else (Some (ResponseError code), [ActivateCall])
      | Some (TransportError n) \<Rightarrow> (Some (TransportError n), [ActivateCall]))"
  by (simp add: activate_def isAlreadyActive_def split: option.split ipmi_err.split)

end
