(* ===== verification/Terminal.thy ===== *)
theory Terminal
  imports Prelude
begin

text \<open>
  The raw terminal of the serial console (\<^verbatim>\<open>sol/terminal_pipe.go\<close> and its two platform files): the modes it
  sets and puts back. Reading and writing pass bytes through unchanged.
\<close>

section \<open>The host terminal\<close>

text \<open>
  The modes of the terminal the console runs in: those of the input, of any type, and the output mode of
  a Windows console. \<open>mk_raw\<close> is what the library makes of the input modes.
\<close>

record 'm tty =
  tty_in :: 'm
  tty_out :: u32

definition ENABLE_PROCESSED_OUTPUT :: u32 where "ENABLE_PROCESSED_OUTPUT = 0x0001"
definition ENABLE_VIRTUAL_TERMINAL_PROCESSING :: u32 where "ENABLE_VIRTUAL_TERMINAL_PROCESSING = 0x0004"

record 'm pipeTerminal =
  oldState :: 'm
  restoreVT :: "u32 option"

datatype terminal_err = RawModeFailed | VTOutputFailed

text \<open>\<open>sys\<close> says which calls succeed: raw mode, reading the output mode, setting it.\<close>

record tty_calls =
  raw_ok :: bool
  get_mode_ok :: bool
  set_mode_ok :: bool

definition enableVTOutput :: "bool \<Rightarrow> tty_calls \<Rightarrow> 'm tty \<Rightarrow> ('m tty \<times> u32 option) option" where
  "enableVTOutput windows sys t =
     (if \<not> windows then Some (t, None)
      else if \<not> get_mode_ok sys \<or> \<not> set_mode_ok sys then None
      else Some (t\<lparr>tty_out := tty_out t OR ENABLE_PROCESSED_OUTPUT OR ENABLE_VIRTUAL_TERMINAL_PROCESSING\<rparr>,
                 Some (tty_out t)))"

definition openTerminal ::
  "bool \<Rightarrow> ('m \<Rightarrow> 'm) \<Rightarrow> tty_calls \<Rightarrow> 'm tty \<Rightarrow> 'm tty \<times> (terminal_err + 'm pipeTerminal)" where
  "openTerminal windows mk_raw sys t =
     (if \<not> raw_ok sys then (t, Inl RawModeFailed)
      else let old = tty_in t; t = t\<lparr>tty_in := mk_raw old\<rparr>
           in case enableVTOutput windows sys t of
                None \<Rightarrow> (t\<lparr>tty_in := old\<rparr>, Inl VTOutputFailed)
              | Some (t, restore) \<Rightarrow> (t, Inr \<lparr>oldState = old, restoreVT = restore\<rparr>))"

definition close_terminal :: "'m pipeTerminal \<Rightarrow> 'm tty \<Rightarrow> 'm tty" where
  "close_terminal p t =
     (let t = (case restoreVT p of None \<Rightarrow> t | Some mode \<Rightarrow> t\<lparr>tty_out := mode\<rparr>)
      in t\<lparr>tty_in := oldState p\<rparr>)"

text \<open>While the calls that put modes back go through, the terminal ends up in the modes it had, whatever else fails:
  a failed opening leaves them, and closing puts them back, whatever modes the terminal has come to have in between. While it is open the input is raw, and
  on Windows escape sequences are processed.\<close>

theorem terminal_restored:
  "case openTerminal windows mk_raw sys t of
     (t', Inl e) \<Rightarrow> t' = t
   | (t', Inr p) \<Rightarrow> tty_in t' = mk_raw (tty_in t) \<and> close_terminal p t' = t
       \<and> (windows \<longrightarrow> tty_out t' AND ENABLE_VIRTUAL_TERMINAL_PROCESSING \<noteq> 0
            \<and> close_terminal p \<lparr>tty_in = i, tty_out = out_mode\<rparr> = t)"
proof -
  have "(m OR ENABLE_PROCESSED_OUTPUT OR ENABLE_VIRTUAL_TERMINAL_PROCESSING) AND ENABLE_VIRTUAL_TERMINAL_PROCESSING \<noteq> 0" for m :: u32
  proof
    assume "(m OR ENABLE_PROCESSED_OUTPUT OR ENABLE_VIRTUAL_TERMINAL_PROCESSING) AND ENABLE_VIRTUAL_TERMINAL_PROCESSING = 0"
    then have "bit ((m OR ENABLE_PROCESSED_OUTPUT OR ENABLE_VIRTUAL_TERMINAL_PROCESSING) AND ENABLE_VIRTUAL_TERMINAL_PROCESSING) 2 = False"
      by simp
    then show False by (simp add: bit_simps ENABLE_VIRTUAL_TERMINAL_PROCESSING_def)
  qed
  then show ?thesis
    by (simp add: openTerminal_def close_terminal_def enableVTOutput_def Let_def)
qed

end
