(* ===== verification/BenchSol.thy ===== *)
theory BenchSol
  imports SolConsole
begin

text \<open>
  The throughput benchmark of the SOL link (\<^verbatim>\<open>scripts/bench_sol_go\<close>): its copy of the console's exchange, which
  is the same as the console's, the loop that drains a burst, the numbers it reports, and the run around the
  rounds. Printing is not modelled; the times are those the program reads.
\<close>

section \<open>The copied exchange\<close>

record solState =
  bs_localSeq :: u8
  bs_remoteSeq :: u8
  bs_remoteSize :: nat
  bs_pendingAck :: u8
  retransmits :: nat
  baseline :: "bytes option"

definition new_solState :: solState where
  "new_solState =
     \<lparr>bs_localSeq = 1, bs_remoteSeq = 0, bs_remoteSize = 0, bs_pendingAck = 0, retransmits = 0, baseline = None\<rparr>"

definition bench_exchange ::
  "'s ipmi_client \<Rightarrow> solState \<times> 's \<Rightarrow> bytes \<Rightarrow> (solState \<times> 's) \<times> (sol_err + (bool \<times> bytes))" where
  "bench_exchange client st chars =
     (let (s, w) = st;
          req = \<lparr>SequenceNumber = bs_localSeq s, AckedSequenceNumber = bs_remoteSeq s,
                 AcceptedCharacterCount = bs_pendingAck s, ControlByte = 0, CharacterData = chars\<rparr>;
          (w, answer) = client w req
      in case answer of
           Inl e \<Rightarrow> ((s, w), Inl e)
         | Inr res \<Rightarrow>
             (let s = s\<lparr>bs_localSeq := bs_localSeq s + 1\<rparr>;
                  s = (if 0x0F < bs_localSeq s then s\<lparr>bs_localSeq := 1\<rparr> else s);
                  newSeq = SequenceNumber res AND 0x0F
              in if newSeq = 0 then ((s, w), Inr (False, []))
                 else let fresh = CharacterData res;
                          retransmit = (newSeq = bs_remoteSeq s);
                          (s, fresh) =
                            (if retransmit then
                               (s\<lparr>retransmits := retransmits s + 1\<rparr>,
                                if bs_remoteSize s < length fresh then drop (bs_remoteSize s) fresh else [])
                             else (s\<lparr>bs_remoteSeq := newSeq\<rparr>, fresh));
                          s = s\<lparr>bs_remoteSize := length (CharacterData res),
                                bs_pendingAck := of_nat (length (CharacterData res))\<rparr>
                      in ((s, w), Inr (True, fresh))))"

section \<open>It is the console's\<close>

definition same_link :: "console \<Rightarrow> solState \<Rightarrow> bool" where
  "same_link c s =
     (localSeq c = bs_localSeq s \<and> remoteSeq c = bs_remoteSeq s \<and> remoteSize c = bs_remoteSize s
      \<and> pendingAck c = bs_pendingAck s)"

lemma pushRender_link [simp]: "same_link (pushRender c b) s = same_link c s"
  by (simp add: pushRender_def same_link_def)

lemma pushRender_buf [simp]: "renderBuf (pushRender c b) = renderBuf c @ b"
  by (simp add: pushRender_def)

lemma exchange_same:
  assumes "same_link c s"
  shows "case bench_exchange client (s, w) chars of
      ((s', w'), Inl e) \<Rightarrow> exchange client (c, w) chars 0 = ((c, w'), Inl e) \<and> s' = s
    | ((s', w'), Inr (active, fresh)) \<Rightarrow>
        \<exists>c'. exchange client (c, w) chars 0 = ((c', w'), Inr active) \<and> same_link c' s'
          \<and> renderBuf c' = renderBuf c @ fresh"
proof -
  have req: "sol_request c chars 0 = \<lparr>SequenceNumber = bs_localSeq s, AckedSequenceNumber = bs_remoteSeq s,
      AcceptedCharacterCount = bs_pendingAck s, ControlByte = 0, CharacterData = chars\<rparr>"
    using assms by (simp add: sol_request_def same_link_def)
  obtain w1 answer where a: "client w (sol_request c chars 0) = (w1, answer)" by force
  show ?thesis
  proof (cases answer)
    case (Inl e)
    with a req show ?thesis by (simp add: bench_exchange_def exchange_def)
  next
    case (Inr res)
    with a req assms show ?thesis
      by (simp add: bench_exchange_def exchange_def ingest_def next_seq_def Let_def same_link_def pushRender_def)
  qed
qed

text \<open>A run of exchanges: what each returned, and the bytes that were new.\<close>

fun bench_exchanges ::
  "'s ipmi_client \<Rightarrow> solState \<times> 's \<Rightarrow> bytes list \<Rightarrow> (solState \<times> 's) \<times> (sol_err + bool) list \<times> bytes" where
  "bench_exchanges client st [] = (st, [], [])"
| "bench_exchanges client st (chars # sends) =
     (case bench_exchange client st chars of
        (st, Inl e) \<Rightarrow> (let (st, rs, got) = bench_exchanges client st sends in (st, Inl e # rs, got))
      | (st, Inr (active, fresh)) \<Rightarrow>
          (let (st, rs, got) = bench_exchanges client st sends in (st, Inr active # rs, fresh @ got)))"

fun console_exchanges ::
  "'s ipmi_client \<Rightarrow> console \<times> 's \<Rightarrow> bytes list \<Rightarrow> (console \<times> 's) \<times> (sol_err + bool) list" where
  "console_exchanges client cs [] = (cs, [])"
| "console_exchanges client cs (chars # sends) =
     (let (cs, r) = exchange client cs chars 0; (cs, rs) = console_exchanges client cs sends in (cs, r # rs))"

lemma exchanges_same:
  "same_link c s \<Longrightarrow> bench_exchanges client (s, w) sends = ((s', w'), rs, got) \<Longrightarrow>
   \<exists>c'. console_exchanges client (c, w) sends = ((c', w'), rs) \<and> same_link c' s' \<and> renderBuf c' = renderBuf c @ got"
proof (induction sends arbitrary: c s w rs got)
  case Nil
  then show ?case by auto
next
  case (Cons chars sends)
  note step = exchange_same [OF Cons.prems(1), of client w chars]
  obtain s1 w1 r where b: "bench_exchange client (s, w) chars = ((s1, w1), r)" by (metis surj_pair)
  show ?case
  proof (cases r)
    case (Inl e)
    with b step have e: "exchange client (c, w) chars 0 = ((c, w1), Inl e)" "s1 = s" by simp_all
    with Cons.prems(2) b Inl obtain rs1 where "bench_exchanges client (s, w1) sends = ((s', w'), rs1, got)" "rs = Inl e # rs1"
      by (auto split: prod.splits)
    with Cons.IH [OF Cons.prems(1)] e(1) show ?thesis by fastforce
  next
    case (Inr af)
    obtain active fresh where af: "af = (active, fresh)" by force
    with b step Inr obtain c1 where e: "exchange client (c, w) chars 0 = ((c1, w1), Inr active)" "same_link c1 s1"
      "renderBuf c1 = renderBuf c @ fresh" by auto
    with Cons.prems(2) b Inr af obtain rs1 got1 where "bench_exchanges client (s1, w1) sends = ((s', w'), rs1, got1)"
      "rs = Inr active # rs1" "got = fresh @ got1"
      by (auto split: prod.splits)
    with Cons.IH [OF e(2)] e(1,3) show ?thesis by fastforce
  qed
qed

text \<open>C34. The benchmark measures the link the console has: against any peer and for any sequence of packets, its
  copy of the exchange sends the same requests in the same states, returns the same errors and the same
  activity as the console's, and collects exactly the bytes the console queues for the terminal.\<close>

theorem bench_is_the_console:
  assumes "bench_exchanges client (new_solState, w) sends = ((s', w'), rs, got)"
  shows "\<exists>c'. console_exchanges client (NewConsole e, w) sends = ((c', w'), rs)
    \<and> same_link c' s' \<and> renderBuf c' = got"
  using exchanges_same [OF _ assms, of "NewConsole e"]
  by (simp add: same_link_def new_solState_def NewConsole_def)

lemma bench_is_the_console_witness:
  "\<exists>c'. console_exchanges (\<lambda>n req. (n + 1 :: nat, if n = 1 then Inl ReadTimeout
        else Inr \<lparr>SequenceNumber = 1, AckedSequenceNumber = 0, AcceptedCharacterCount = 0, ControlByte = 0,
                  CharacterData = replicate n 65\<rparr>)) (NewConsole 29, 0) [[13], [], []] = ((c', 3), [Inr True, Inl ReadTimeout, Inr True])
     \<and> renderBuf c' = [65, 65]"
proof -
  let ?c = "\<lambda>n req. (n + 1 :: nat, if n = 1 then Inl ReadTimeout
        else Inr \<lparr>SequenceNumber = 1, AckedSequenceNumber = 0, AcceptedCharacterCount = 0, ControlByte = 0,
                  CharacterData = replicate n (65 :: u8)\<rparr>)"
  have "bench_exchanges ?c (new_solState, 0) [[13], [], []]
      = ((\<lparr>bs_localSeq = 3, bs_remoteSeq = 1, bs_remoteSize = 2, bs_pendingAck = 2, retransmits = 1, baseline = None\<rparr>, 3),
         [Inr True, Inl ReadTimeout, Inr True], [65, 65])"
    by code_simp
  from bench_is_the_console [OF this, of 29] show ?thesis by auto
qed

section \<open>Timing a burst\<close>

text \<open>Times in milliseconds; \<^const>\<open>None\<close> is the zero time.\<close>

definition idleGap :: nat where "idleGap = 1500"
definition hardCap :: nat where "hardCap = 30 * 1000"

record burst =
  b_got :: bytes
  total :: nat
  dataPkts :: nat
  polls :: nat
  timeouts :: nat
  tFirst :: "nat option"
  tLast :: nat
  tPrev :: nat
  minGap :: nat
  maxGap :: nat
  sumGap :: nat

definition new_burst :: burst where
  "new_burst = \<lparr>b_got = [], total = 0, dataPkts = 0, polls = 0, timeouts = 0, tFirst = None, tLast = 0, tPrev = 0,
     minGap = 60 * 60 * 1000, maxGap = 0, sumGap = 0\<rparr>"

definition burst_over :: "nat \<Rightarrow> burst \<Rightarrow> bool" where
  "burst_over clock b = (tFirst b \<noteq> None \<and> idleGap < clock - tLast b)"

definition burst_data :: "nat \<Rightarrow> bytes \<Rightarrow> burst \<Rightarrow> burst" where
  "burst_data clock fresh b =
     (if fresh = [] then b
      else let b = b\<lparr>b_got := b_got b @ fresh\<rparr>;
               b = (case tFirst b of
                      None \<Rightarrow> b\<lparr>tFirst := Some clock\<rparr>
                    | Some _ \<Rightarrow>
                        (let gap = clock - tPrev b
                         in b\<lparr>minGap := (if gap < minGap b then gap else minGap b),
                              maxGap := (if maxGap b < gap then gap else maxGap b),
                              sumGap := sumGap b + gap\<rparr>))
           in b\<lparr>tPrev := clock, tLast := clock, total := total b + length fresh, dataPkts := dataPkts b + 1\<rparr>)"

text \<open>One poll, its result and the time read after it; whether the loop ends.\<close>

definition burst_poll :: "(sol_err + (bool \<times> bytes)) \<Rightarrow> nat \<Rightarrow> burst \<Rightarrow> burst \<times> bool" where
  "burst_poll r clock b =
     (let b = b\<lparr>polls := polls b + 1\<rparr>
      in case r of
           Inl e \<Rightarrow> (let b = b\<lparr>timeouts := timeouts b + 1\<rparr> in (b, burst_over clock b))
         | Inr (active, fresh) \<Rightarrow>
             (let b = burst_data clock fresh b in (b, \<not> active \<and> burst_over clock b)))"

text \<open>
  The loop: for each round the time at which its condition is checked and the time after the exchange.
\<close>

fun drain ::
  "'s ipmi_client \<Rightarrow> nat \<Rightarrow> solState \<times> 's \<Rightarrow> burst \<Rightarrow> (nat \<times> nat) list \<Rightarrow> (solState \<times> 's) \<times> burst" where
  "drain client deadline st b [] = (st, b)"
| "drain client deadline st b ((head, clock) # ts) =
     (if head < deadline then
        (let (st, r) = bench_exchange client st [];
             (b, stop) = burst_poll r clock b
         in if stop then (st, b) else drain client deadline st b ts)
      else (st, b))"

text \<open>The first byte in which a round differs from the first round.\<close>

fun first_diff :: "bytes \<Rightarrow> bytes \<Rightarrow> nat" where
  "first_diff (x # xs) (y # ys) = (if x = y then Suc (first_diff xs ys) else 0)"
| "first_diff _ _ = 0"

definition content_check :: "solState \<Rightarrow> bytes \<Rightarrow> solState \<times> nat option" where
  "content_check s got =
     (case baseline s of
        None \<Rightarrow> (s\<lparr>baseline := Some got\<rparr>, None)
      | Some base \<Rightarrow> (s, if got \<noteq> base then Some (first_diff got base) else None))"

text \<open>
  A round: the polls of the settling time, the command, the drain and the comparison with the first round.
  No report is made when the command cannot be sent.
\<close>

definition bench_round ::
  "'s ipmi_client \<Rightarrow> bytes \<Rightarrow> nat \<Rightarrow> nat \<Rightarrow> (nat \<times> nat) list \<Rightarrow> solState \<times> 's
     \<Rightarrow> (solState \<times> 's) \<times> (burst \<times> nat \<times> nat option) option" where
  "bench_round client payload settle_polls tSend ts st =
     (let reXmitStart = retransmits (fst st);
          st = ((\<lambda>st. fst (bench_exchange client st [])) ^^ settle_polls) st;
          (st, sent) = bench_exchange client st payload
      in case fatal (map_sum id fst sent) of
           Some e \<Rightarrow> (st, None)
         | None \<Rightarrow>
             (let ((s, w), b) = drain client (tSend + hardCap) st new_burst ts;
                  reXmit = retransmits s - reXmitStart
              in if tFirst b = None then ((s, w), Some (b, reXmit, None))
                 else let (s, diff) = content_check s (b_got b) in ((s, w), Some (b, reXmit, diff))))"

lemma first_diff_prefix:
  "take (first_diff a b) a = take (first_diff a b) b
   \<and> (first_diff a b < length a \<longrightarrow> first_diff a b < length b \<longrightarrow> a ! first_diff a b \<noteq> b ! first_diff a b)"
  by (induction a b rule: first_diff.induct) auto

definition burst_ok :: "burst \<Rightarrow> bool" where
  "burst_ok b =
     (total b = length (b_got b) \<and> dataPkts b + timeouts b \<le> polls b \<and> tPrev b = tLast b
      \<and> (case tFirst b of
           None \<Rightarrow> b_got b = [] \<and> dataPkts b = 0 \<and> sumGap b = 0 \<and> maxGap b = 0
         | Some t \<Rightarrow> b_got b \<noteq> [] \<and> 1 \<le> dataPkts b \<and> t \<le> tLast b \<and> sumGap b = tLast b - t
             \<and> sumGap b \<le> (dataPkts b - 1) * maxGap b))"

lemma burst_data_ok:
  assumes "burst_ok b" "tLast b \<le> clock" "dataPkts b + timeouts b < polls b"
  shows "burst_ok (burst_data clock fresh b) \<and> tLast (burst_data clock fresh b) \<le> clock"
proof (cases "fresh = [] \<or> tFirst b = None")
  case True
  with assms show ?thesis by (auto simp: burst_ok_def burst_data_def)
next
  case False
  then obtain t where t: "tFirst b = Some t" "fresh \<noteq> []" by auto
  with assms have b: "total b = length (b_got b)" "tPrev b = tLast b" "1 \<le> dataPkts b" "t \<le> tLast b"
    "sumGap b = tLast b - t" "sumGap b \<le> (dataPkts b - 1) * maxGap b" by (auto simp: burst_ok_def)
  let ?m = "if maxGap b < clock - tLast b then clock - tLast b else maxGap b"
  have "sumGap b + (clock - tLast b) \<le> (dataPkts b - 1) * ?m + ?m"
    using b(6) by (intro add_mono order_trans [OF b(6)] mult_le_mono2) auto
  also have "\<dots> = dataPkts b * ?m" using b(3) by (cases "dataPkts b") simp_all
  finally show ?thesis
    using assms t b by (auto simp: burst_data_def Let_def burst_ok_def split: if_splits)
qed

text \<open>What a round of the benchmark reports is what it received: against any peer, with a clock that does not
  run backwards, the bytes counted are the bytes collected, the gaps add up to the time between the
  first and the last data, and the sum of the gaps does not exceed the largest one for each packet
  but the first; a round with no output has counted none.\<close>

theorem burst_metrics:
  assumes "sorted (map snd ts)"
  shows "(let b = snd (drain client deadline st new_burst ts)
     in total b = length (b_got b) \<and> dataPkts b + timeouts b \<le> polls b
        \<and> (case tFirst b of
             None \<Rightarrow> b_got b = [] \<and> dataPkts b = 0
           | Some t \<Rightarrow> sumGap b = tLast b - t \<and> t \<le> tLast b \<and> sumGap b \<le> (dataPkts b - 1) * maxGap b))"
proof -
  have "burst_ok (snd (drain client deadline st b ts))"
    if "burst_ok b" "sorted (map snd ts)" "list_all (\<lambda>(head, clock). tLast b \<le> clock) ts" for st b ts
    using that
  proof (induction client deadline st b ts rule: drain.induct)
    case (2 client deadline st b head clock ts)
    obtain st1 r where x: "bench_exchange client st [] = (st1, r)" by (metis surj_pair)
    obtain b1 stop where p: "burst_poll r clock b = (b1, stop)" by (metis surj_pair)
    let ?b = "b\<lparr>polls := polls b + 1\<rparr>"
    have ok: "burst_ok ?b" "dataPkts ?b + timeouts ?b < polls ?b" "tLast ?b \<le> clock"
      using 2(2,4) by (auto simp: burst_ok_def split: option.splits)
    have b1: "burst_ok b1 \<and> tLast b1 \<le> clock"
    proof (cases r)
      case (Inl e)
      with p 2(2,4) show ?thesis by (auto simp: burst_poll_def Let_def burst_ok_def split: option.splits)
    next
      case (Inr af)
      with p burst_data_ok [OF ok(1,3,2)] show ?thesis by (auto simp: burst_poll_def Let_def split: prod.splits)
    qed
    with 2(3) have "list_all (\<lambda>(head, clock). tLast b1 \<le> clock) ts"
      by (fastforce simp: list_all_iff)
    with 2(1) [OF _ x [symmetric] refl p [symmetric] refl] 2(2,3) p x b1 show ?case by auto
  qed simp
  from this [of new_burst ts st] assms have "burst_ok (snd (drain client deadline st new_burst ts))"
    by (simp add: new_burst_def burst_ok_def list_all_iff split_beta)
  then show ?thesis by (auto simp: burst_ok_def Let_def split: option.splits)
qed

definition chatty_peer :: "nat \<Rightarrow> sol_packet \<Rightarrow> nat \<times> (sol_err + sol_packet)" where
  "chatty_peer n req =
     (n + 1, if n = 1 then Inl ReadTimeout
             else Inr \<lparr>SequenceNumber = (if n = 3 then 2 else 1), AckedSequenceNumber = 0, AcceptedCharacterCount = 0,
                       ControlByte = 0, CharacterData = [65, 66]\<rparr>)"

lemma burst_metrics_witness:
  "let b = snd (drain chatty_peer 20 (new_solState, 0) new_burst [(0, 3), (3, 6), (6, 9), (9, 12), (20, 21)])
   in total b = 4 \<and> timeouts b = 1 \<and> sumGap b = 9 \<and> sumGap b \<le> (dataPkts b - 1) * maxGap b"
proof -
  let ?ts = "[(0, 3), (3, 6), (6, 9), (9, 12), (20, 21 :: nat)]"
  let ?b = "snd (drain chatty_peer 20 (new_solState, 0) new_burst ?ts)"
  have "total ?b = 4" "timeouts ?b = 1" "tFirst ?b = Some 3" "tLast ?b = 12"
    by (simp_all add: chatty_peer_def bench_exchange_def new_solState_def new_burst_def burst_poll_def burst_data_def
        burst_over_def idleGap_def)
  with burst_metrics [of ?ts chatty_peer 20 "(new_solState, 0)"] show ?thesis by (simp add: Let_def)
qed

section \<open>The run\<close>

text \<open>What is sent: the command between two carriage returns, the first of which may be lost.\<close>

definition bench_payload :: "bytes \<Rightarrow> bytes" where
  "bench_payload cmd = go_string [CHR 0x0D] @ cmd @ go_string [CHR 0x0D]"

text \<open>Any failure of the first activation is taken for a held session: it is taken over.\<close>

definition bench_activate :: "(nat \<Rightarrow> ipmi_err option) \<Rightarrow> bool \<times> sol_call list" where
  "bench_activate act =
     (if act 0 = None then (True, [ActivateCall])
      else (act 1 = None, [ActivateCall, DeactivateCall, ActivateCall]))"

text \<open>
  The rounds, with idle polls between them. What a round depends on is given for each: the polls of
  its settling time, the time of sending, the clock readings, and the polls after it.
\<close>

type_synonym round_times = "nat \<times> nat \<times> (nat \<times> nat) list \<times> nat"

fun bench_rounds ::
  "'s ipmi_client \<Rightarrow> bytes \<Rightarrow> round_times list \<Rightarrow> solState \<times> 's \<Rightarrow> (solState \<times> 's) \<times> (burst \<times> nat \<times> nat option) option list" where
  "bench_rounds client payload [] st = (st, [])"
| "bench_rounds client payload ((settle, tSend, ts, idle) # rs) st =
     (let (st, report) = bench_round client payload settle tSend ts st;
          st = (if rs \<noteq> [] then ((\<lambda>st. fst (bench_exchange client st [])) ^^ idle) st else st);
          (st, reports) = bench_rounds client payload rs st
      in (st, report # reports))"

datatype bench_call = BenchConnect | BenchSolCall sol_call | BenchRounds | BenchClose
datatype bench_exit = BenchNoCredentials | BenchNoClient | BenchNotConnected | BenchNotActivated | BenchDone

text \<open>The reports, the calls and the exit. The early exits end the process without the deferred calls.\<close>

definition bench_main ::
  "bool \<Rightarrow> bool \<Rightarrow> bool \<Rightarrow> (nat \<Rightarrow> ipmi_err option) \<Rightarrow> 's ipmi_client \<Rightarrow> 's \<Rightarrow> bytes \<Rightarrow> round_times list
     \<Rightarrow> (burst \<times> nat \<times> nat option) option list \<times> bench_call list \<times> bench_exit" where
  "bench_main creds_ok made connected act client w cmd rs =
     (if \<not> creds_ok then ([], [], BenchNoCredentials)
      else if \<not> made then ([], [], BenchNoClient)
      else if \<not> connected then ([], [BenchConnect], BenchNotConnected)
      else let (active, calls) = bench_activate act; calls = BenchConnect # map BenchSolCall calls
      in if \<not> active then ([], calls, BenchNotActivated)
      else let (st, reports) = bench_rounds client (bench_payload cmd) rs (new_solState, w)
      in (reports, calls @ [BenchRounds, BenchSolCall DeactivateCall, BenchClose], BenchDone))"

text \<open>A run that measures makes one report per round, in order, and ends with the payload deactivated and
  the session closed; a run that cannot activate leaves its session open.\<close>

lemma length_bench_rounds: "length (snd (bench_rounds client payload rs st)) = length rs"
proof (induction rs arbitrary: st)
  case (Cons r rs)
  then show ?case by (cases r) (simp add: Let_def case_prod_unfold del: split_paired_All)
qed simp

lemma bench_releases:
  "case bench_main c m k act client w cmd rs of
     (reports, calls, e) \<Rightarrow>
       (e = BenchDone \<longrightarrow> length reports = length rs \<and> (\<exists>a. calls = a @ [BenchRounds, BenchSolCall DeactivateCall, BenchClose]))
       \<and> (e \<noteq> BenchDone \<longrightarrow> reports = [] \<and> BenchClose \<notin> set calls)
       \<and> (e = BenchNotActivated \<longrightarrow> BenchConnect \<in> set calls)"
  using length_bench_rounds [of client "bench_payload cmd" rs "(new_solState, w)"]
  by (auto simp: bench_main_def bench_activate_def Let_def case_prod_unfold)

end
