(* ===== verification/Volume.thy ===== *)
theory Volume
  imports GoStrings
begin

text \<open>
  Raw Windows volumes and disks as backing of the virtual media (\<^verbatim>\<open>vmedia/volume_windows.go\<close>): what is
  asked of the system when a volume or a disk is opened, used and closed, whichever of the calls fail, and
  what the system holds for the program afterwards.
\<close>

section \<open>Calls to Windows\<close>

text \<open>
  What the program asks of a handle. The system's answers are a parameter: \<open>ok k\<close> says whether the
  \<open>k\<close>-th call of the run succeeds.
\<close>

datatype win_call =
    CreateFile bytes u32
  | DeviceIoControl u32
  | SetDiskAttributes bytes
  | ReadFile u32 u32 nat
  | WriteFile u32 u32 bytes
  | FlushFileBuffers
  | CloseHandle

definition ioctlDiskGetLengthInfo :: u32 where "ioctlDiskGetLengthInfo = 0x0007405C"
definition fsctlLockVolume :: u32 where "fsctlLockVolume = 0x00090018"
definition fsctlUnlockVolume :: u32 where "fsctlUnlockVolume = 0x0009001C"
definition fsctlDismountVolume :: u32 where "fsctlDismountVolume = 0x00090020"
definition ioctlStorageGetDeviceNumber :: u32 where "ioctlStorageGetDeviceNumber = 0x002D1080"
definition ioctlDiskSetDiskAttributes :: u32 where "ioctlDiskSetDiskAttributes = 0x0007C0F4"
definition ioctlDiskUpdateProperties :: u32 where "ioctlDiskUpdateProperties = 0x00070140"
definition diskAttributeOffline :: u64 where "diskAttributeOffline = 0x01"

lemmas ioctl_codes = ioctlDiskGetLengthInfo_def fsctlLockVolume_def fsctlUnlockVolume_def fsctlDismountVolume_def
  ioctlStorageGetDeviceNumber_def ioctlDiskSetDiskAttributes_def ioctlDiskUpdateProperties_def

type_synonym win_log = "(win_call \<times> bool) list"

definition win :: "(nat \<Rightarrow> bool) \<Rightarrow> win_call \<Rightarrow> win_log \<Rightarrow> win_log \<times> bool" where
  "win ok c log = (log @ [(c, ok (length log))], ok (length log))"

section \<open>Volumes\<close>

record volume =
  v_size :: u64
  v_writable :: bool
  v_physical :: bool

datatype vol_err =
    NotADriveLetter
  | HandleFailed
  | LengthFailed
  | LockFailed
  | DismountFailed
  | OfflineFailed
  | DeviceNumberFailed

definition GENERIC_READ :: u32 where "GENERIC_READ = 0x80000000"
definition GENERIC_WRITE :: u32 where "GENERIC_WRITE = 0x40000000"

definition TrimRight :: "bytes \<Rightarrow> u8 set \<Rightarrow> bytes" where
  "TrimRight s cs = rev (dropWhile (\<lambda>c. c \<in> cs) (rev s))"

text \<open>
  The path of a drive letter, or \<^const>\<open>None\<close> if it is none. A byte that is no UTF-8 is made the
  replacement character by \<^verbatim>\<open>ToUpper\<close>.
\<close>

definition device_prefix :: bytes where
  "device_prefix = [0x5C, 0x5C, 0x2E, 0x5C]"

definition letter_path :: "bytes \<Rightarrow> bytes option" where
  "letter_path letter =
     (let l = TrimRight (TrimSpace letter) {0x3A, 0x5C}
      in if length l \<noteq> 1 then None
         else Some (device_prefix @ (if hd l < 0x80 then ToUpper l else [0xEF, 0xBF, 0xBD]) @ [0x3A]))"

definition drive_path :: "int \<Rightarrow> bytes" where
  "drive_path disk = device_prefix @ go_string ''PhysicalDrive'' @ decimal disk"

definition access_for :: "bool \<Rightarrow> u32" where
  "access_for writable = (if writable then GENERIC_READ OR GENERIC_WRITE else GENERIC_READ)"

text \<open>\<open>len\<close> is what the system answers to the query of the length.\<close>

definition OpenVolume ::
  "(nat \<Rightarrow> bool) \<Rightarrow> u64 \<Rightarrow> bytes \<Rightarrow> bool \<Rightarrow> win_log \<Rightarrow> win_log \<times> (vol_err + volume)" where
  "OpenVolume ok len letter writable log =
     (case letter_path letter of
        None \<Rightarrow> (log, Inl NotADriveLetter)
      | Some path \<Rightarrow>
          (let (log, opened) = win ok (CreateFile path (access_for writable)) log
           in if \<not> opened then (log, Inl HandleFailed)
              else let (log, sized) = win ok (DeviceIoControl ioctlDiskGetLengthInfo) log
              in if \<not> sized then (fst (win ok CloseHandle log), Inl LengthFailed)
              else let v = \<lparr>v_size = len, v_writable = writable, v_physical = False\<rparr>
              in if \<not> writable then (log, Inr v)
              else let (log, locked) = win ok (DeviceIoControl fsctlLockVolume) log
              in if \<not> locked then (fst (win ok CloseHandle log), Inl LockFailed)
              else let (log, dismounted) = win ok (DeviceIoControl fsctlDismountVolume) log
              in if \<not> dismounted
                 then let log = fst (win ok (DeviceIoControl fsctlUnlockVolume) log)
                      in (fst (win ok CloseHandle log), Inl DismountFailed)
                 else (log, Inr v)))"

text \<open>The request that takes a disk offline or online: size, attributes and their mask.\<close>

definition disk_attributes :: "bool \<Rightarrow> bytes" where
  "disk_attributes offline =
     (let buf = replicate 40 0;
          buf = blit 0 (le32 40) buf;
          attr = (if offline then diskAttributeOffline else 0);
          buf = blit 8 (le32 (ucast attr) @ le32 (ucast (drop_bit 32 attr))) buf
      in blit 16 (le32 (ucast diskAttributeOffline) @ le32 (ucast (drop_bit 32 diskAttributeOffline))) buf)"

definition setDiskOffline :: "(nat \<Rightarrow> bool) \<Rightarrow> bool \<Rightarrow> win_log \<Rightarrow> win_log \<times> bool" where
  "setDiskOffline ok offline log = win ok (SetDiskAttributes (disk_attributes offline)) log"

definition OpenPhysicalDrive ::
  "(nat \<Rightarrow> bool) \<Rightarrow> u64 \<Rightarrow> int \<Rightarrow> bool \<Rightarrow> win_log \<Rightarrow> win_log \<times> (vol_err + volume)" where
  "OpenPhysicalDrive ok len disk writable log =
     (let (log, opened) = win ok (CreateFile (drive_path disk) (access_for writable)) log
      in if \<not> opened then (log, Inl HandleFailed)
         else let (log, sized) = win ok (DeviceIoControl ioctlDiskGetLengthInfo) log
         in if \<not> sized then (fst (win ok CloseHandle log), Inl LengthFailed)
         else let v = \<lparr>v_size = len, v_writable = writable, v_physical = True\<rparr>
         in if \<not> writable then (log, Inr v)
         else let (log, isoff) = setDiskOffline ok True log
         in if \<not> isoff then (fst (win ok CloseHandle log), Inl OfflineFailed)
            else (fst (win ok (DeviceIoControl ioctlDiskUpdateProperties) log), Inr v))"

definition vol_Close :: "(nat \<Rightarrow> bool) \<Rightarrow> volume \<Rightarrow> win_log \<Rightarrow> win_log \<times> bool" where
  "vol_Close ok v log =
     (let log = (if v_writable v then
                   let log = fst (win ok FlushFileBuffers log)
                   in if v_physical v
                      then fst (win ok (DeviceIoControl ioctlDiskUpdateProperties) (fst (setDiskOffline ok False log)))
                      else fst (win ok (DeviceIoControl fsctlUnlockVolume) log)
                 else log)
      in win ok CloseHandle log)"

text \<open>The disk behind a drive letter; \<open>answer\<close> is the buffer the system fills.\<close>

definition DriveLetterToDisk :: "(nat \<Rightarrow> bool) \<Rightarrow> bytes \<Rightarrow> bytes \<Rightarrow> win_log \<Rightarrow> win_log \<times> (vol_err + u32)" where
  "DriveLetterToDisk ok answer letter log =
     (case letter_path letter of
        None \<Rightarrow> (log, Inl NotADriveLetter)
      | Some path \<Rightarrow>
          (let (log, opened) = win ok (CreateFile path 0) log
           in if \<not> opened then (log, Inl HandleFailed)
              else let (log, got) = win ok (DeviceIoControl ioctlStorageGetDeviceNumber) log;
                       log = fst (win ok CloseHandle log)
                   in (log, if got then Inr (get_le32 answer 4) else Inl DeviceNumberFailed)))"

text \<open>
  Reading and writing: the offset is handed over in two halves. What is transferred is the
  system's answer.
\<close>

definition overlapped :: "int \<Rightarrow> u32 \<times> u32" where
  "overlapped off = (word_of_int off, word_of_int (off div 2 ^ 32))"

definition vol_ReadAt :: "(nat \<Rightarrow> bool) \<Rightarrow> nat \<Rightarrow> int \<Rightarrow> win_log \<Rightarrow> win_log \<times> bool" where
  "vol_ReadAt ok n off log = (let (lo, hi) = overlapped off in win ok (ReadFile lo hi n) log)"

definition vol_WriteAt :: "(nat \<Rightarrow> bool) \<Rightarrow> bytes \<Rightarrow> int \<Rightarrow> win_log \<Rightarrow> win_log \<times> bool" where
  "vol_WriteAt ok p off log = (let (lo, hi) = overlapped off in win ok (WriteFile lo hi p) log)"

datatype vol_op = Vol_read nat int | Vol_write bytes int

fun vol_ops :: "(nat \<Rightarrow> bool) \<Rightarrow> vol_op list \<Rightarrow> win_log \<Rightarrow> win_log" where
  "vol_ops ok [] log = log"
| "vol_ops ok (Vol_read n off # r) log = vol_ops ok r (fst (vol_ReadAt ok n off log))"
| "vol_ops ok (Vol_write p off # r) log = vol_ops ok r (fst (vol_WriteAt ok p off log))"

section \<open>What the system holds for the program\<close>

text \<open>
  The contract of the system: which handle is open, whether the program was granted the lock of
  the volume or took the disk offline and has not handed it back, and whether a call was made without a handle.
\<close>

record held =
  h_open :: bool
  h_locked :: bool
  h_offline :: bool
  h_misuse :: bool

definition nothing_held :: held where
  "nothing_held = \<lparr>h_open = False, h_locked = False, h_offline = False, h_misuse = False\<rparr>"

definition uses_handle :: "held \<Rightarrow> held" where
  "uses_handle h = h\<lparr>h_misuse := h_misuse h \<or> \<not> h_open h\<rparr>"

fun held_after :: "held \<Rightarrow> win_call \<times> bool \<Rightarrow> held" where
  "held_after h (CreateFile p a, b) = (if b then h\<lparr>h_open := True, h_misuse := h_misuse h \<or> h_open h\<rparr> else h)"
| "held_after h (DeviceIoControl c, b) =
     (let h = uses_handle h
      in if c = fsctlLockVolume then h\<lparr>h_locked := h_locked h \<or> b\<rparr>
         else if c = fsctlUnlockVolume then h\<lparr>h_locked := False\<rparr> else h)"
| "held_after h (SetDiskAttributes a, b) =
     (let h = uses_handle h
      in if get_le32 a 8 AND get_le32 a 16 AND 1 = 1 then h\<lparr>h_offline := h_offline h \<or> b\<rparr>
         else if get_le32 a 16 AND 1 = 1 then h\<lparr>h_offline := False\<rparr> else h)"
| "held_after h (CloseHandle, b) = (uses_handle h)\<lparr>h_open := False\<rparr>"
| "held_after h (_, b) = uses_handle h"

definition held :: "win_log \<Rightarrow> held" where
  "held = foldl held_after nothing_held"


lemma held_Nil [simp]: "held [] = nothing_held"
  by (simp add: held_def)

lemma held_win [simp]:
  "held (fst (win ok c log)) = held_after (held log) (c, ok (length log))"
  "snd (win ok c log) = ok (length log)"
  by (simp_all add: held_def win_def)

lemma disk_attributes_fields [simp]:
  "get_le32 (disk_attributes off) 8 = (if off then 1 else 0)"
  "get_le32 (disk_attributes off) 16 = 1"
  "length (disk_attributes off) = 40"
  by (simp_all add: disk_attributes_def Let_def wire_simps diskAttributeOffline_def)

definition holding :: "bool \<Rightarrow> bool \<Rightarrow> held" where
  "holding locked offline = \<lparr>h_open = True, h_locked = locked, h_offline = offline, h_misuse = False\<rparr>"

lemmas held_simps = nothing_held_def holding_def uses_handle_def Let_def ioctl_codes setDiskOffline_def

lemma ops_hold: "held log = holding l f \<Longrightarrow> held (vol_ops ok ops log) = holding l f"
  by (induction ok ops log rule: vol_ops.induct)
    (simp_all add: vol_ReadAt_def vol_WriteAt_def overlapped_def held_simps)

lemma Close_releases:
  assumes "held log = holding (v_writable v \<and> \<not> v_physical v) (v_writable v \<and> v_physical v)"
  shows "held (fst (vol_Close ok v log)) = nothing_held"
  using assms by (simp add: vol_Close_def held_simps split: if_splits)

lemma OpenVolume_holds:
  assumes "held log = nothing_held"
  shows "case OpenVolume ok len letter w log of
      (log', Inl e) \<Rightarrow> held log' = nothing_held
    | (log', Inr v) \<Rightarrow> held log' = holding w False \<and> v = \<lparr>v_size = len, v_writable = w, v_physical = False\<rparr>"
  using assms by (simp add: OpenVolume_def case_prod_unfold held_simps split: option.split)

lemma OpenPhysicalDrive_holds:
  assumes "held log = nothing_held"
  shows "case OpenPhysicalDrive ok len disk w log of
      (log', Inl e) \<Rightarrow> held log' = nothing_held
    | (log', Inr v) \<Rightarrow> held log' = holding False w \<and> v = \<lparr>v_size = len, v_writable = w, v_physical = True\<rparr>"
  using assms by (simp add: OpenPhysicalDrive_def case_prod_unfold held_simps)


lemma overlapped_offset:
  assumes "0 \<le> off" "off < 2 ^ 64" "overlapped off = (lo, hi)"
  shows "uint lo + uint hi * 2 ^ 32 = off"
proof -
  have "off div 2 ^ 32 < 2 ^ 32" using assms(2) by simp
  moreover have "0 \<le> off div 2 ^ 32" using assms(1) by simp
  ultimately have "uint hi = off div 2 ^ 32" using assms(3) by (auto simp: overlapped_def uint_word_of_int)
  moreover have "uint lo = off mod 2 ^ 32" using assms(3) by (auto simp: overlapped_def uint_word_of_int)
  ultimately show ?thesis by (simp add: mod_mult_div_eq mult.commute)
qed

lemma OpenVolume_dismounts:
  assumes "OpenVolume ok len letter True log = (log', Inr v)"
  shows "\<exists>calls. log' = log @ calls @ [(DeviceIoControl fsctlLockVolume, True), (DeviceIoControl fsctlDismountVolume, True)]"
  using assms by (auto simp: OpenVolume_def win_def Let_def split: option.splits if_splits)

lemma OpenPhysicalDrive_offline:
  assumes "OpenPhysicalDrive ok len disk True log = (log', Inr v)"
  shows "\<exists>calls b. log' = log @ calls @ [(SetDiskAttributes (disk_attributes True), True), (DeviceIoControl ioctlDiskUpdateProperties, b)]"
  using assms by (auto simp: OpenPhysicalDrive_def setDiskOffline_def win_def Let_def split: if_splits)





end
