(* ===== verification/Probe.thy ===== *)
theory Probe
  imports Volume VmSession KvmWeb Config
begin

text \<open>
  The redirection probe (\<^verbatim>\<open>scripts/vmedia_probe_go\<close>): it puts together the raw volumes, the image files, the
  web session, the redirection session and the SCSI emulation without the browser. A run is modelled
  from the checked arguments to the end of the process; the flag package and the listing of
  launch arguments are not.
\<close>

section \<open>Arguments and surroundings\<close>

record probe_args =
  a_iso :: string
  a_dev :: bytes
  a_disk :: bytes
  a_type :: string
  a_writable :: bool
  a_instance :: int

text \<open>
  What the probe runs against: which calls to Windows succeed and what they answer, the files, the web
  server, the redirection port, and whether the run is cancelled.
\<close>

record surroundings =
  win_ok :: "nat \<Rightarrow> bool"
  win_length :: u64
  win_number :: bytes
  win_data :: "nat \<Rightarrow> bytes"
  files :: "string \<rightharpoonup> file_node"
  file_faults :: "(nat \<times> nat) option list"
  web_create :: "bytes option"
  web_jnlp :: "bytes \<Rightarrow> bytes option"
  vm_dial :: "vm_options \<Rightarrow> bytes option"
  auth_ok :: bool
  answer_ok :: "nat \<Rightarrow> bool"
  stopped :: bool

datatype probe_fatal =
    MissingCredentials
  | InvalidType
  | WritableCdrom
  | DiskNotResolved vol_err
  | DiskNotOpened vol_err
  | VolumeNotOpened vol_err
  | ImageNotOpened open_err
  | WebLoginFailed web_err
  | RedirectionFailed connect_err

section \<open>The source of the bytes\<close>

text \<open>A volume goes with the calls to Windows made so far.\<close>

datatype probe_source =
    Src_volume volume win_log
  | Src_file file_reader win_log

fun src_log :: "probe_source \<Rightarrow> win_log" where
  "src_log (Src_volume v log) = log"
| "src_log (Src_file f log) = log"

fun src_Size :: "probe_source \<Rightarrow> int" where
  "src_Size (Src_volume v log) = sint (v_size v)"
| "src_Size (Src_file f log) = file_Size f"

fun src_ReadAt :: "surroundings \<Rightarrow> probe_source read_at" where
  "src_ReadAt w (Src_volume v log) n off =
     (let (log', good) = vol_ReadAt (win_ok w) n off log
      in (Src_volume v log', take n (win_data w (length log)), if good then None else Some (BackingFailure 0)))"
| "src_ReadAt w (Src_file f log) n off =
     (let (f, data, err) = file_ReadAt f n off in (Src_file f log, data, err))"

fun src_WriteAt :: "surroundings \<Rightarrow> probe_source write_at" where
  "src_WriteAt w (Src_volume v log) p off =
     (let (log', good) = vol_WriteAt (win_ok w) p off log
      in (Src_volume v log', if good then length p else 0, if good then None else Some (BackingFailure 0)))"
| "src_WriteAt w (Src_file f log) p off =
     (let (f, k, err) = file_WriteAt f p off in (Src_file f log, k, err))"

fun src_Close :: "surroundings \<Rightarrow> probe_source \<Rightarrow> win_log" where
  "src_Close w (Src_volume v log) = fst (vol_Close (win_ok w) v log)"
| "src_Close w (Src_file f log) = log"

definition probe_disk :: "surroundings \<Rightarrow> bytes \<Rightarrow> win_log \<Rightarrow> win_log \<times> (probe_fatal + int)" where
  "probe_disk w disk log =
     (case Atoi (TrimRight disk {0x3A, 0x5C}) of
        Some n \<Rightarrow> (log, Inr n)
      | None \<Rightarrow>
          (let (log, r) = DriveLetterToDisk (win_ok w) (win_number w) disk log
           in (log, map_sum DiskNotResolved uint r)))"

definition probe_open :: "surroundings \<Rightarrow> probe_args \<Rightarrow> win_log \<Rightarrow> win_log \<times> (probe_fatal + probe_source)" where
  "probe_open w a log =
     (if a_disk a \<noteq> [] then
        (let (log, r) = probe_disk w (a_disk a) log
         in case r of
              Inl e \<Rightarrow> (log, Inl e)
            | Inr n \<Rightarrow>
                (let (log, r) = OpenPhysicalDrive (win_ok w) (win_length w) n (a_writable a) log
                 in (log, map_sum DiskNotOpened (\<lambda>v. Src_volume v log) r)))
      else if a_dev a \<noteq> [] then
        (let (log, r) = OpenVolume (win_ok w) (win_length w) (a_dev a) (a_writable a) log
         in (log, map_sum VolumeNotOpened (\<lambda>v. Src_volume v log) r))
      else
        (log, map_sum ImageNotOpened (\<lambda>f. Src_file f log)
           ((if a_writable a then OpenFileRW else OpenFile) (files w) (file_faults w) (a_iso a))))"

section \<open>The run\<close>

definition probe_port :: "string \<Rightarrow> probe_fatal + int" where
  "probe_port kind =
     (if kind = ''cd'' then Inr PortCD
      else if kind = ''fd'' then Inr PortFD
      else if kind = ''hd'' then Inr PortHD
      else Inl InvalidType)"

definition probe_emulator :: "string \<Rightarrow> bool \<Rightarrow> probe_source \<Rightarrow> probe_source device" where
  "probe_emulator kind rw src =
     (if kind = ''cd'' then NewCDROM src_Size src
      else if rw then NewDiskRW src_Size src
      else NewDisk src_Size src)"

text \<open>
  How a run ends: the calls to Windows, the web sessions logged out of, the sessions closed, and the
  fatal error or how serving ended. A fatal error ends the process at once, without the deferred
  calls; serving runs them however it ends, a panic included.
\<close>

record probe_end =
  e_calls :: win_log
  e_logouts :: "bytes list"
  e_closed :: nat
  e_result :: "probe_fatal + (bytes \<times> serve_end \<times> int)"

definition probe_serve :: "surroundings \<Rightarrow> creds \<Rightarrow> probe_args \<Rightarrow> int \<Rightarrow> probe_source \<Rightarrow> probe_end" where
  "probe_serve w c a port src =
     (let died = (\<lambda>e. \<lparr>e_calls = src_log src, e_logouts = [], e_closed = 0, e_result = Inl e\<rparr>)
      in case Login (web_create w) (web_jnlp w) of
           Inl e \<Rightarrow> died (WebLoginFailed e)
         | Inr ws \<Rightarrow>
             (case Connect (vm_dial w) (auth_ok w)
                     \<lparr>vm_options.Host = creds.Host c, Port = port, opt_DeviceType = DeviceCDROM,
                      opt_Instance = word_of_int (a_instance a), opt_TLS = False\<rparr> (Token ws) of
                Inl e \<Rightarrow> died (RedirectionFailed e)
              | Inr sess \<Rightarrow>
                  (let (d, written, fin) = Serve (Handle (src_ReadAt w) (src_WriteAt w)) (answer_ok w) (stopped w) sess
                                             (probe_emulator (a_type a) (a_writable a) src)
                   in \<lparr>e_calls = src_Close w (d_r d), e_logouts = Logout (Cookie ws), e_closed = 1,
                       e_result = Inr (written, fin, BytesServed d)\<rparr>)))"

definition vmedia_probe :: "surroundings \<Rightarrow> creds \<Rightarrow> probe_args \<Rightarrow> win_log \<Rightarrow> probe_end" where
  "vmedia_probe w c a log =
     (let died = (\<lambda>log e. \<lparr>e_calls = log, e_logouts = [], e_closed = 0, e_result = Inl e\<rparr>)
      in if creds.Host c = [] \<or> User c = [] \<or> Password c = [] then died log MissingCredentials
         else case probe_port (a_type a) of
                Inl e \<Rightarrow> died log e
              | Inr port \<Rightarrow>
                  if a_writable a \<and> a_type a = ''cd'' then died log WritableCdrom
                  else case probe_open w a log of
                         (log, Inl e) \<Rightarrow> died log e
                       | (log, Inr src) \<Rightarrow> probe_serve w c a port src)"

section \<open>What is handed back\<close>

lemma Handle_keeps:
  assumes "I (d_r c)" "Handle rd wr c req = Inr (c', out)"
    and "\<And>s n off. I s \<Longrightarrow> I (fst (rd s n off))" "\<And>s p off. I s \<Longrightarrow> I (fst (wr s p off))"
  shows "I (d_r c')"
proof -
  have r: "I (d_r c1)" if "dev_read rd c lba blocks = (c1, data)" for lba blocks c1 data
    using that assms(3) [OF assms(1)] by (auto simp: dev_read_def Let_def case_prod_unfold)
  have w: "I (d_r (dev_write wr c req lba blocks))" for lba blocks
    using assms(1) assms(4) [OF assms(1)] by (simp add: dev_write_def Let_def case_prod_unfold)
  from Handle_Inr [OF assms(2)] assms(1) r w show ?thesis by auto
qed

text \<open>What the source holds is what its kind and mode ask for, whatever is read and written.\<close>

fun src_held :: "probe_source \<Rightarrow> bool" where
  "src_held (Src_volume v log) =
     (held log = holding (v_writable v \<and> \<not> v_physical v) (v_writable v \<and> v_physical v))"
| "src_held (Src_file f log) = (held log = nothing_held)"

lemma src_ops_hold:
  "src_held s \<Longrightarrow> src_held (fst (src_ReadAt w s n off))"
  "src_held s \<Longrightarrow> src_held (fst (src_WriteAt w s p off))"
  by (cases s; simp add: case_prod_unfold vol_ReadAt_def vol_WriteAt_def overlapped_def held_simps)+

lemma src_Close_releases: "src_held s \<Longrightarrow> held (src_Close w s) = nothing_held"
  by (cases s) (simp_all add: Close_releases)

lemma Serve_keeps_held:
  "src_held (d_r d) \<Longrightarrow> src_held (d_r (fst (Serve (Handle (src_ReadAt w) (src_WriteAt w)) ok c sess d)))"
  unfolding Serve_def
  by (rule serve_loop_invariant [where I = "\<lambda>d. src_held (d_r d)"])
    (erule (1) Handle_keeps [where I = src_held]; rule src_ops_hold)+

lemma emulator_source: "d_r (probe_emulator kind rw src) = src"
  by (simp add: probe_emulator_def NewCDROM_def NewDisk_def NewDiskRW_def newDevice_def Let_def)

lemma probe_disk_holds:
  "held log = nothing_held \<Longrightarrow> held (fst (probe_disk w disk log)) = nothing_held"
  by (simp add: probe_disk_def DriveLetterToDisk_def case_prod_unfold held_simps split: option.split)

lemma probe_open_holds:
  assumes "held log = nothing_held"
  shows "case probe_open w a log of (log', Inl e) \<Rightarrow> held log' = nothing_held | (log', Inr src) \<Rightarrow> src_held src \<and> src_log src = log'"
proof (cases "a_disk a = []")
  case True
  obtain log1 r where 1: "OpenVolume (win_ok w) (win_length w) (a_dev a) (a_writable a) log = (log1, r)"
    by (metis surj_pair)
  from OpenVolume_holds [OF assms, where ok = "win_ok w" and len = "win_length w" and letter = "a_dev a" and w = "a_writable a"]
  show ?thesis
    unfolding 1 using assms by (cases r; cases "OpenFile (files w) (file_faults w) (a_iso a)";
        cases "OpenFileRW (files w) (file_faults w) (a_iso a)") (auto simp: probe_open_def True 1)
next
  case False
  obtain log1 r where 1: "probe_disk w (a_disk a) log = (log1, r)" by (metis surj_pair)
  with probe_disk_holds [OF assms, of w "a_disk a"] have h: "held log1 = nothing_held" by simp
  show ?thesis
  proof (cases r)
    case (Inr n)
    obtain log2 q where 2: "OpenPhysicalDrive (win_ok w) (win_length w) n (a_writable a) log1 = (log2, q)"
      by (metis surj_pair)
    from OpenPhysicalDrive_holds [OF h, where ok = "win_ok w" and len = "win_length w" and disk = n and w = "a_writable a"]
    show ?thesis
      unfolding 2 using False by (cases q) (auto simp: probe_open_def 1 2 Inr)
  qed (use False h in \<open>simp add: probe_open_def 1\<close>)
qed


text \<open>The emulation is the bridge's, without the cache in between.\<close>

lemma probe_like_bridge:
  fixes kind rw src d b defines "d \<equiv> probe_emulator kind rw src" and "b \<equiv> buildEmulator src_Size kind src rw"
  shows "d_w d = d_w b" "blockSize d = blockSize b" "mmc d = mmc b" "lastLBA d = lastLBA b" "d_r d = c_r (d_r b)"
  by (simp_all add: d_def b_def probe_emulator_def buildEmulator_def NewCDROM_def NewDisk_def NewDiskRW_def
      newDevice_def NewCache_def cache_Size_def Let_def)

text \<open>
  A fatal error skips the deferred calls: with the disk taken offline, a failed web login leaves it
  offline and its handle to the end of the process.
\<close>

definition no_web :: surroundings where
  "no_web = \<lparr>win_ok = (\<lambda>_. True), win_length = 1024, win_number = [], win_data = (\<lambda>_. []), files = Map.empty,
     file_faults = [], web_create = None, web_jnlp = (\<lambda>_. None), vm_dial = (\<lambda>_. None), auth_ok = True,
     answer_ok = (\<lambda>_. True), stopped = False\<rparr>"

definition disk_args :: probe_args where
  "disk_args = \<lparr>a_iso = '''', a_dev = [], a_disk = go_string ''4'', a_type = ''hd'', a_writable = True, a_instance = 0\<rparr>"

definition some_creds :: creds where
  "some_creds = \<lparr>Host = [1], User = [1], Password = [1]\<rparr>"

lemma fatal_exit_keeps_disk_offline:
  "e_result (vmedia_probe no_web some_creds disk_args []) = Inl (WebLoginFailed WebLoginHTTP)
   \<and> held (e_calls (vmedia_probe no_web some_creds disk_args [])) = holding False True"
proof -
  have d: "probe_disk no_web (go_string ''4'') [] = ([], Inr 4)"
    by (simp add: probe_disk_def TrimRight_def go_string_def Atoi_def is_digit_def)
  have "\<exists>log v. OpenPhysicalDrive (\<lambda>_. True) 1024 4 True [] = (log, Inr v)"
    by (simp add: OpenPhysicalDrive_def win_def setDiskOffline_def)
  then obtain log v where o: "OpenPhysicalDrive (\<lambda>_. True) 1024 4 True [] = (log, Inr v)" by blast
  have "held log = holding False True"
    using OpenPhysicalDrive_holds [OF held_Nil, where ok = "\<lambda>_. True" and len = 1024 and disk = 4 and w = True] o by simp
  moreover have "Login None f = Inl WebLoginHTTP" for f by (simp add: Login_def FetchLaunchArgs_def)
  ultimately show ?thesis
    using d o by (simp add: vmedia_probe_def probe_serve_def probe_open_def probe_port_def no_web_def disk_args_def
        some_creds_def go_string_def)
qed


end
