(* ===== verification/Mkimg.thy ===== *)
theory Mkimg
  imports GoStrings
begin

text \<open>
  The builder of the FAT test images (\<^verbatim>\<open>scripts/mkimg_go\<close>): the size of the allocation table, its packing,
  boot sector, directory and file, every slice with its bounds check. What the images are for is
  stated by a reader of FAT volumes that uses nothing but the bytes of the image.
\<close>

section \<open>Parameters and the size of the table\<close>

definition secSize :: int where
  "secSize = 512"

record fatParams =
  totalSectors :: int
  secPerClus :: int
  rootEntCnt :: int
  media :: u8
  p_fat12 :: bool
  secPerTrack :: int
  numHeads :: int
  driveNum :: u8
  p_label :: bytes
  volID :: u32
  p_readme :: bytes

definition rootDirSectors :: "fatParams \<Rightarrow> int" where
  "rootDirSectors p = go_quot (rootEntCnt p * 32 + secSize - 1) secSize"

text \<open>One round of the loop: the sectors the table needs when \<open>fatSize\<close> are set aside.\<close>

definition fat_need :: "fatParams \<Rightarrow> int \<Rightarrow> int go" where
  "fat_need p fatSize =
     (let dataSec = totalSectors p - (1 + 2 * fatSize + rootDirSectors p)
      in go_bind (go_div dataSec (secPerClus p)) (\<lambda>clusters.
         let fatBytes = (if p_fat12 p then go_quot ((clusters + 2) * 3) 2 else (clusters + 2) * 2)
         in Inr (go_quot (fatBytes + secSize - 1) secSize)))"

partial_function (option) fat_size :: "fatParams \<Rightarrow> int \<Rightarrow> int go option" where
  "fat_size p fatSize =
     (case fat_need p fatSize of
        Inl e \<Rightarrow> Some (Inl e)
      | Inr need \<Rightarrow> if need \<le> fatSize then Some (Inr fatSize) else fat_size p need)"

declare fat_size.simps [code]

section \<open>Packing FAT entries\<close>

fun pack12 :: "u32 list \<Rightarrow> bytes" where
  "pack12 [] = []"
| "pack12 [e] = (let e = e AND 0xFFF in [ucast e, ucast (drop_bit 8 e AND 0x0F)])"
| "pack12 (e0 # e1 # es) =
     (let e0 = e0 AND 0xFFF; e1 = e1 AND 0xFFF
      in ucast e0 # (ucast (drop_bit 8 e0 AND 0x0F) OR ucast (push_bit 4 (e1 AND 0x0F))) # ucast (drop_bit 4 e1)
           # pack12 es)"

definition packFAT :: "u32 list \<Rightarrow> bool \<Rightarrow> bytes" where
  "packFAT fat fat12 = (if \<not> fat12 then concat (map (\<lambda>e. le16 (ucast e)) fat) else pack12 fat)"

text \<open>How a file system driver reads entry \<open>k\<close> of a table that starts at \<open>off\<close>.\<close>

definition fat_entry :: "bool \<Rightarrow> bytes \<Rightarrow> nat \<Rightarrow> nat \<Rightarrow> u16" where
  "fat_entry fat12 b off k =
     (if fat12 then (let v = get_le16 b (off + k + k div 2) in if odd k then drop_bit 4 v else v AND 0xFFF)
      else get_le16 b (off + 2 * k))"

lemma length_pack12: "length (pack12 fat) = (length fat * 3 + 1) div 2"
  by (induction fat rule: pack12.induct) (simp_all add: Let_def)

lemma length_packFAT: "length (packFAT fat fat12) = (if fat12 then (length fat * 3 + 1) div 2 else length fat * 2)"
proof -
  have "length (concat (map (\<lambda>e. le16 (ucast e)) fat)) = length fat * 2" for fat :: "u32 list"
    by (induction fat) simp_all
  then show ?thesis by (simp add: packFAT_def length_pack12)
qed

lemma entry12_Cons:
  "fat_entry True (a # b # c # s) 0 (Suc (Suc k)) = fat_entry True s 0 k"
proof -
  have "Suc (Suc k) + Suc (Suc k) div 2 = Suc (Suc (Suc (k + k div 2)))" by simp
  then show ?thesis by (simp add: fat_entry_def get_le16_def Let_def)
qed

lemma fat_masks: "(0xFFF :: u32) = mask 12" "(0x0F :: u32) = mask 4" "(0xFFF :: u16) = mask 12"
  by (simp_all add: mask_eq_exp_minus_1)

lemma entry12_even:
  "(ucast (ucast (e AND 0xFFF) :: u8) OR push_bit 8 (ucast (ucast (drop_bit 8 (e AND 0xFFF) AND 0x0F) OR b :: u8)))
     AND 0xFFF = (ucast (e AND 0xFFF) :: u16)"
  if "\<And>n. n < 4 \<Longrightarrow> \<not> bit b n" for e :: u32 and b :: u8
  unfolding fat_masks using that
  by (intro bit_word_eqI) (auto simp: bit_simps dest: bit_imp_le_length)

lemma entry12_odd:
  "drop_bit 4 (ucast (b OR ucast (push_bit 4 ((e AND 0xFFF) AND 0x0F)) :: u8)
       OR push_bit 8 (ucast (ucast (drop_bit 4 (e AND 0xFFF)) :: u8))) = (ucast (e AND 0xFFF) :: u16)"
  if "\<And>n. 4 \<le> n \<Longrightarrow> \<not> bit b n" for e :: u32 and b :: u8
  unfolding fat_masks using that
  by (intro bit_word_eqI) (auto simp: bit_simps dest: bit_imp_le_length)

lemma entry12_pack:
  "k < length fat \<Longrightarrow> fat_entry True (pack12 fat) 0 k = ucast (fat ! k AND 0xFFF)"
proof (induction fat arbitrary: k rule: pack12.induct)
  case (2 e)
  with entry12_even [of 0 e] show ?case
    by (simp add: fat_entry_def Let_def get_le16_def)
next
  case (3 e0 e1 es)
  let ?hi = "ucast (drop_bit 8 (e0 AND 0xFFF) AND 0x0F) :: u8" and ?lo = "ucast (push_bit 4 ((e1 AND 0xFFF) AND 0x0F)) :: u8"
  have lo: "n < 4 \<Longrightarrow> \<not> bit ?lo n" and hi: "4 \<le> n \<Longrightarrow> \<not> bit ?hi n" for n
    unfolding fat_masks by (auto simp: bit_simps)
  consider "k = 0" | "k = 1" | j where "k = Suc (Suc j)" by (metis One_nat_def old.nat.exhaust)
  then show ?case
  proof cases
    case 1
    with entry12_even [of ?lo e0] lo show ?thesis by (simp add: fat_entry_def Let_def get_le16_def)
  next
    case 2
    with entry12_odd [of ?hi e1] hi show ?thesis by (simp add: fat_entry_def Let_def get_le16_def)
  next
    case (3 j)
    with "3.IH" [of _ _ j] "3.prems" show ?thesis
      by (simp only: pack12.simps Let_def entry12_Cons) simp
  qed
qed simp

lemma fat_entry_inside:
  assumes "if fat12 then off + k + k div 2 + 2 \<le> length b else off + 2 * k + 2 \<le> length b" "off = length a + o'"
  shows "fat_entry fat12 (a @ b') off k = fat_entry fat12 b' o' k"
  using assms(2) by (simp add: fat_entry_def get_le16_def nth_append add.assoc)

lemma fat_table_entry:
  assumes "k < length fat"
  shows "fat_entry fat12 (packFAT fat fat12) 0 k = (if fat12 then ucast (fat ! k AND 0xFFF) else ucast (fat ! k))"
proof -
  have "fat_entry False (concat (map (\<lambda>e. le16 (ucast e)) fat)) 0 k = ucast (fat ! k)"
    using assms
  proof (induction fat arbitrary: k)
    case (Cons e es)
    then show ?case by (cases k) (simp_all add: fat_entry_def wire_simps)
  qed simp
  then show ?thesis using entry12_pack [OF assms] by (simp add: packFAT_def)
qed

text \<open>The packed allocation table is what the file system defines: a driver that reads entry \<open>k\<close> of a table
  of 12-bit or 16-bit entries gets the entry, cut to its width, for tables of even and odd length,
  and the table occupies exactly one and a half or two bytes per entry.\<close>

theorem fat_table_roundtrip:
  assumes "k < length fat"
  shows "fat_entry fat12 (packFAT fat fat12) 0 k = (if fat12 then ucast (fat ! k AND 0xFFF) else ucast (fat ! k))
    \<and> length (packFAT fat fat12) = (if fat12 then (length fat * 3 + 1) div 2 else length fat * 2)"
  using fat_table_entry [OF assms] length_packFAT by simp

lemma fat_table_roundtrip_witness:
  "fat_entry True (packFAT [0xFF0, 0xFFF, 0xABCDE] True) 0 2 = 0xCDE"
  using fat_table_roundtrip [of 2 "[0xFF0, 0xFFF, 0xABCDE]" True] by simp

section \<open>The size of the table settles\<close>

lemma fat_need_Inr:
  assumes "1 \<le> secPerClus p"
  shows "fat_need p n = Inr (let clusters = go_quot (totalSectors p - (1 + 2 * n + rootDirSectors p)) (secPerClus p)
     in go_quot ((if p_fat12 p then go_quot ((clusters + 2) * 3) 2 else (clusters + 2) * 2) + secSize - 1) secSize)"
  using assms by (simp add: fat_need_def Let_def go_div_quot)

lemma fat_bytes_mono:
  assumes "c' \<le> c"
  shows "(if f then go_quot ((c' + 2) * 3) 2 else (c' + 2) * 2) \<le> (if f then go_quot ((c + 2) * 3) 2 else (c + 2) * (2 :: int))"
  using assms go_quot_mono [of "(c' + 2) * 3" "(c + 2) * 3" 2] by simp

lemma fat_need_anti:
  assumes "1 \<le> secPerClus p" "m \<le> m'" "fat_need p m = Inr n"
  shows "\<exists>n'. fat_need p m' = Inr n' \<and> n' \<le> n"
proof -
  let ?c = "\<lambda>m. go_quot (totalSectors p - (1 + 2 * m + rootDirSectors p)) (secPerClus p)"
  let ?b = "\<lambda>m. (if p_fat12 p then go_quot ((?c m + 2) * 3) 2 else (?c m + 2) * 2) + secSize - 1"
  have "?c m' \<le> ?c m" using assms(1,2) by (intro go_quot_mono) auto
  from fat_bytes_mono [OF this, of "p_fat12 p"] have "?b m' \<le> ?b m" by linarith
  then have "go_quot (?b m') secSize \<le> go_quot (?b m) secSize" by (intro go_quot_mono) (simp_all add: secSize_def)
  with assms(3) show ?thesis by (simp add: fat_need_Inr [OF assms(1)] Let_def)
qed

lemma fat_size_two_rounds:
  assumes "1 \<le> secPerClus p" "fat_need p 1 = Inr n1"
  shows "fat_size p 1 = Some (Inr (max 1 n1))"
proof (cases "n1 \<le> 1")
  case True
  then show ?thesis by (subst fat_size.simps) (simp add: assms(2))
next
  case False
  with fat_need_anti [OF assms(1) _ assms(2), of n1] have "fat_size p n1 = Some (Inr n1)"
    by (subst fat_size.simps) auto
  with False show ?thesis by (subst fat_size.simps) (simp add: assms(2))
qed

text \<open>C35. The loop that sizes the allocation table returns: with at least one sector per cluster it ends after
  at most two rounds, with the sectors the first round asks for or one, and what it asks for once
  these are set aside is no more. A cluster of no sectors is a division by zero.\<close>

theorem fat_size_settles:
  assumes "1 \<le> secPerClus p" "secPerClus q = 0"
  shows "(\<exists>n1 n. fat_need p 1 = Inr n1 \<and> fat_size p 1 = Some (Inr (max 1 n1))
      \<and> fat_need p (max 1 n1) = Inr n \<and> n \<le> max 1 n1)
    \<and> fat_size q 1 = Some (Inl DivideByZero)"
proof -
  obtain n1 where n1: "fat_need p 1 = Inr n1" using fat_need_Inr [OF assms(1)] by blast
  from fat_need_anti [OF assms(1) _ n1, of "max 1 n1"] obtain n where "fat_need p (max 1 n1) = Inr n" "n \<le> n1" by auto
  moreover have "fat_size q 1 = Some (Inl DivideByZero)"
    using assms(2) by (subst fat_size.simps) (simp add: fat_need_def Let_def go_div_def)
  ultimately show ?thesis using n1 fat_size_two_rounds [OF assms(1) n1] by auto
qed

section \<open>The image\<close>

text \<open>
  \<open>copy_at\<close> is \<^verbatim>\<open>copy(dst[off:], src)\<close>, \<open>with_slice\<close> a function that fills \<^verbatim>\<open>img[lo:hi]\<close>.
\<close>

definition copy_at :: "bytes \<Rightarrow> int \<Rightarrow> bytes \<Rightarrow> bytes go" where
  "copy_at dst off src =
     (if 0 \<le> off \<and> off \<le> int (length dst) then Inr (blit (nat off) src dst) else Inl SliceOutOfRange)"

definition with_slice :: "bytes \<Rightarrow> int \<Rightarrow> int \<Rightarrow> (bytes \<Rightarrow> bytes) \<Rightarrow> bytes go" where
  "with_slice img lo hi f =
     (if 0 \<le> lo \<and> lo \<le> hi \<and> hi \<le> int (length img)
      then Inr (blit (nat lo) (f (slice (nat lo) (nat hi) img)) img) else Inl SliceOutOfRange)"

definition make_slice :: "int \<Rightarrow> 'a \<Rightarrow> 'a list go" where
  "make_slice n x = (if n < 0 then Inl SliceOutOfRange else Inr (replicate (nat n) x))"

definition label11 :: "bytes \<Rightarrow> bytes" where
  "label11 s = blit 0 (ToUpper s) (replicate 11 0x20)"

definition fatName :: "bytes \<Rightarrow> bytes \<Rightarrow> bytes" where
  "fatName base ext =
     (let n = replicate 11 0x20;
          n = blit 0 (take 8 (ToUpper base)) n
      in blit 8 (take 3 (ToUpper ext)) n)"

definition writeDirEnt :: "bytes \<Rightarrow> u8 \<Rightarrow> u16 \<Rightarrow> u32 \<Rightarrow> bytes \<Rightarrow> bytes" where
  "writeDirEnt name11 attr firstCluster n b =
     (let b = blit 0 (take 11 name11) b;
          b = b[11 := attr];
          b = blit 26 (le16 firstCluster) b
      in blit 28 (le32 n) b)"

definition writeBPB :: "fatParams \<Rightarrow> int \<Rightarrow> int \<Rightarrow> int \<Rightarrow> bytes \<Rightarrow> bytes" where
  "writeBPB p reserved numFATs fatSize s =
     (let s = s[0 := 0xEB, 1 := 0x3C, 2 := 0x90];
          s = blit 3 (go_string ''MKIMGGO '') s;
          s = blit 11 (le16 (word_of_int secSize)) s;
          s = s[13 := word_of_int (secPerClus p)];
          s = blit 14 (le16 (word_of_int reserved)) s;
          s = s[16 := word_of_int numFATs];
          s = blit 17 (le16 (word_of_int (rootEntCnt p))) s;
          s = (if totalSectors p < 0x10000 then blit 19 (le16 (word_of_int (totalSectors p))) s else s);
          s = s[21 := media p];
          s = blit 22 (le16 (word_of_int fatSize)) s;
          s = blit 24 (le16 (word_of_int (secPerTrack p))) s;
          s = blit 26 (le16 (word_of_int (numHeads p))) s;
          s = (if 0x10000 \<le> totalSectors p then blit 32 (le32 (word_of_int (totalSectors p))) s else s);
          s = s[36 := driveNum p];
          s = s[38 := 0x29];
          s = blit 39 (le32 (volID p)) s;
          s = blit 43 (label11 (p_label p)) s;
          s = (if p_fat12 p then blit 54 (go_string ''FAT12   '') s else blit 54 (go_string ''FAT16   '') s)
      in s[510 := 0x55, 511 := 0xAA])"

definition fat_table :: "fatParams \<Rightarrow> int \<Rightarrow> u32 list go" where
  "fat_table p clusterCount =
     go_bind (make_slice (clusterCount + 2) 0) (\<lambda>fat.
     if p_fat12 p then
       go_bind (put_at fat 0 (0xF00 OR ucast (media p))) (\<lambda>fat.
       go_bind (put_at fat 1 0xFFF) (\<lambda>fat. put_at fat 2 0xFFF))
     else
       go_bind (put_at fat 0 (0xFF00 OR ucast (media p))) (\<lambda>fat.
       go_bind (put_at fat 1 0xFFFF) (\<lambda>fat. put_at fat 2 0xFFFF)))"

definition build_image :: "fatParams \<Rightarrow> int \<Rightarrow> bytes go" where
  "build_image p fatSize =
     go_bind (make_slice (totalSectors p * secSize) 0) (\<lambda>img.
     go_bind (with_slice img 0 secSize (writeBPB p 1 2 fatSize)) (\<lambda>img.
     let fatOff = 1 * secSize; dataStartSec = 1 + 2 * fatSize + rootDirSectors p
     in
     go_bind (go_div (totalSectors p - dataStartSec) (secPerClus p)) (\<lambda>clusterCount.
     go_bind (fat_table p clusterCount) (\<lambda>fat.
     let fatBytes = packFAT fat (p_fat12 p)
     in
     go_bind (go_fold (\<lambda>img i. copy_at img (fatOff + i * fatSize * secSize) fatBytes) img [0, 1]) (\<lambda>img.
     let rootOff = (1 + 2 * fatSize) * secSize
     in
     go_bind (with_slice img rootOff (rootOff + 32) (writeDirEnt (label11 (p_label p)) 0x08 0 0)) (\<lambda>img.
     go_bind (with_slice img (rootOff + 32) (rootOff + 64)
       (writeDirEnt (fatName (go_string ''README'') (go_string ''TXT'')) 0x20 2 (of_nat (length (p_readme p))))) (\<lambda>img.
     copy_at img (dataStartSec * secSize) (p_readme p))))))))"

definition buildFAT :: "fatParams \<Rightarrow> bytes go option" where
  "buildFAT p = (case fat_size p 1 of
     None \<Rightarrow> None | Some (Inl e) \<Rightarrow> Some (Inl e) | Some (Inr fatSize) \<Rightarrow> Some (build_image p fatSize))"

section \<open>The two test media\<close>

definition crlf :: bytes where
  "crlf = [13, 10]"

definition floppy_params :: fatParams where
  "floppy_params =
     \<lparr>totalSectors = 2880, secPerClus = 1, rootEntCnt = 224, media = 0xF0, p_fat12 = True, secPerTrack = 18,
      numHeads = 2, driveNum = 0, p_label = go_string ''RD450X_FD'', volID = 0x52443446,
      p_readme = go_string ''RD450X remote console - virtual FLOPPY test image (FAT12).'' @ crlf
        @ go_string ''If this file reads back correctly, floppy redirection works.'' @ crlf\<rparr>"

definition disk_params :: fatParams where
  "disk_params =
     \<lparr>totalSectors = 32768, secPerClus = 4, rootEntCnt = 512, media = 0xF8, p_fat12 = False, secPerTrack = 32,
      numHeads = 8, driveNum = 0x80, p_label = go_string ''RD450X_HD'', volID = 0x52443448,
      p_readme = go_string ''RD450X remote console - virtual HD/USB test image (FAT16).'' @ crlf
        @ go_string ''If this file reads back correctly, HD/USB redirection works.'' @ crlf\<rparr>"

section \<open>A driver finds the file\<close>

text \<open>How a driver reads a volume, from the numbers in its boot sector.\<close>

definition u16_at :: "bytes \<Rightarrow> nat \<Rightarrow> nat" where
  "u16_at b i = unat (get_le16 b i)"

definition rd_fat_off :: "bytes \<Rightarrow> nat \<Rightarrow> nat" where
  "rd_fat_off b j = (u16_at b 14 + j * u16_at b 22) * u16_at b 11"

definition rd_root_off :: "bytes \<Rightarrow> nat" where
  "rd_root_off b = rd_fat_off b (unat (b ! 16))"

definition rd_data_off :: "bytes \<Rightarrow> nat" where
  "rd_data_off b = rd_root_off b + (u16_at b 17 * 32 + u16_at b 11 - 1) div u16_at b 11 * u16_at b 11"

definition rd_dirent :: "bytes \<Rightarrow> nat \<Rightarrow> bytes" where
  "rd_dirent b k = slice (rd_root_off b + 32 * k) (rd_root_off b + 32 * k + 32) b"

definition rd_file :: "bytes \<Rightarrow> bytes \<Rightarrow> bytes" where
  "rd_file b ent =
     (let off = rd_data_off b + (u16_at ent 26 - 2) * unat (b ! 13) * u16_at b 11
      in slice off (off + unat (get_le32 ent 28)) b)"

text \<open>The image as a chain of writes, with natural numbers for the offsets.\<close>

definition dir_region :: "fatParams \<Rightarrow> bytes \<Rightarrow> nat \<Rightarrow> bytes" where
  "dir_region p img ro =
     (let img = blit ro (writeDirEnt (label11 (p_label p)) 0x08 0 0 (slice ro (ro + 32) img)) img
      in blit (ro + 32) (writeDirEnt (fatName (go_string ''README'') (go_string ''TXT'')) 0x20 2
             (of_nat (length (p_readme p))) (slice (ro + 32) (ro + 64) img)) img)"

definition image_of :: "fatParams \<Rightarrow> nat \<Rightarrow> nat \<Rightarrow> nat \<Rightarrow> bytes \<Rightarrow> bytes" where
  "image_of p T F R fb =
     (let img = blit 0 (writeBPB p 1 2 (int F) (replicate 512 0)) (replicate (T * 512) 0);
          img = blit (512 + F * 512) fb (blit 512 fb img)
      in blit ((1 + 2 * F + R) * 512) (p_readme p) (dir_region p img ((1 + 2 * F) * 512)))"

lemma length_writeDirEnt [simp]: "length (writeDirEnt nm a c n b) = length b"
  by (simp add: writeDirEnt_def Let_def)

lemma length_writeBPB [simp]: "length (writeBPB p r n f s) = length s"
  by (simp add: writeBPB_def Let_def)

lemma length_image [simp]: "length (image_of p T F R fb) = T * 512" "length (dir_region p img ro) = length img"
  by (simp_all add: image_of_def dir_region_def Let_def)

lemma slice_replicate: "b \<le> n \<Longrightarrow> slice a b (replicate n x) = replicate (b - a) x"
  by (rule nth_equalityI) simp_all

lemma build_image_eq:
  assumes "totalSectors p = int T" "rootDirSectors p = int R" "secPerClus p = int C" "1 \<le> C"
    and "1 + 2 * F + R + C \<le> T" "1 \<le> R" "fat_table p (int ((T - (1 + 2 * F + R)) div C)) = Inr fat"
  shows "build_image p (int F) = Inr (image_of p T F R (packFAT fat (p_fat12 p)))"
proof -
  let ?D = "1 + 2 * F + R"
  have q: "go_div (int T - (1 + 2 * int F + int R)) (int C) = Inr (int ((T - ?D) div C))"
  proof -
    have "int T - (1 + 2 * int F + int R) = int (T - ?D)" using assms(5) by simp
    with assms(4) show ?thesis by (simp add: go_div_quot zdiv_int)
  qed
  have n: "nat (int T * 512) = T * 512" "nat (512 + int F * 512) = 512 + F * 512"
    "nat ((1 + 2 * int F) * 512) = (1 + 2 * F) * 512"
    "nat ((1 + 2 * int F) * 512 + 32) = (1 + 2 * F) * 512 + 32"
    "nat ((1 + 2 * int F) * 512 + 64) = (1 + 2 * F) * 512 + 64"
    "nat ((1 + 2 * int F + int R) * 512) = ?D * 512" by simp_all
  have s: "slice 0 512 (replicate (T * 512) 0) = (replicate 512 0 :: bytes)"
    using assms(5) by (subst slice_replicate) simp_all
  have b: "512 \<le> int T * 512" "512 + int F * 512 \<le> int T * 512" "(1 + 2 * int F) * 512 + 64 \<le> int T * 512"
    "(1 + 2 * int F + int R) * 512 \<le> int T * 512" using assms(5,6) by simp_all
  show ?thesis
    unfolding build_image_def assms(1-3) Let_def secSize_def make_slice_def with_slice_def copy_at_def
    using b assms(5,6)
    by (simp only: q assms(7) go_bind_simps go_fold.simps n s image_of_def dir_region_def Let_def
        length_blit length_replicate not_less if_True if_False) (simp add: n(2) s)
qed

text \<open>What each part of the image holds in the end.\<close>

lemma slice_dir_region:
  assumes "ro + 64 \<le> length img"
  shows "slice ro (ro + 32) (dir_region p img ro)
      = writeDirEnt (label11 (p_label p)) 0x08 0 0 (slice ro (ro + 32) img)"
    and "slice (ro + 32) (ro + 64) (dir_region p img ro)
      = writeDirEnt (fatName (go_string ''README'') (go_string ''TXT'')) 0x20 2 (of_nat (length (p_readme p)))
          (slice (ro + 32) (ro + 64) img)"
    and "b \<le> ro \<or> ro + 64 \<le> a \<Longrightarrow> b \<le> length img \<Longrightarrow> slice a b (dir_region p img ro) = slice a b img"
proof -
  let ?d1 = "writeDirEnt (label11 (p_label p)) 0x08 0 0 (slice ro (ro + 32) img)"
  let ?i = "blit ro ?d1 img"
  let ?d2 = "writeDirEnt (fatName (go_string ''README'') (go_string ''TXT'')) 0x20 2 (of_nat (length (p_readme p)))
          (slice (ro + 32) (ro + 64) ?i)"
  have d: "dir_region p img ro = blit (ro + 32) ?d2 ?i" by (simp add: dir_region_def Let_def)
  have l: "length ?d1 = 32" "length ?d2 = 32" using assms by simp_all
  have o: "slice (ro + 32) (ro + 64) ?i = slice (ro + 32) (ro + 64) img"
    by (rule slice_blit_other) (use assms l in simp_all)
  have "slice ro (ro + 32) (blit (ro + 32) ?d2 ?i) = slice ro (ro + 32) ?i"
    by (rule slice_blit_other) (use assms in simp_all)
  also have "\<dots> = ?d1" using slice_blit_same [of ro ?d1 img] l assms by simp
  finally show "slice ro (ro + 32) (dir_region p img ro) = ?d1" by (simp only: d)
  have "slice (ro + 32) (ro + 64) (blit (ro + 32) ?d2 ?i) = ?d2"
    using slice_blit_same [of "ro + 32" ?d2 ?i] l(2) assms by (simp add: add.assoc)
  then show "slice (ro + 32) (ro + 64) (dir_region p img ro)
      = writeDirEnt (fatName (go_string ''README'') (go_string ''TXT'')) 0x20 2 (of_nat (length (p_readme p)))
          (slice (ro + 32) (ro + 64) img)"
    by (simp only: d o)
  assume "b \<le> ro \<or> ro + 64 \<le> a" "b \<le> length img"
  then have "slice a b (blit (ro + 32) ?d2 ?i) = slice a b ?i" "slice a b ?i = slice a b img"
    by (intro slice_blit_other; use l in auto)+
  then show "slice a b (dir_region p img ro) = slice a b img" by (simp only: d)
qed

lemma image_regions:
  assumes "1 \<le> R" "1 + 2 * F + R \<le> T" "length fb \<le> F * 512"
    and "(1 + 2 * F + R) * 512 + length (p_readme p) \<le> T * 512"
  defines "img \<equiv> image_of p T F R fb"
  shows "slice 0 512 img = writeBPB p 1 2 (int F) (replicate 512 0)"
    and "slice 512 (512 + length fb) img = fb"
    and "slice (512 + F * 512) (512 + F * 512 + length fb) img = fb"
    and "slice ((1 + 2 * F) * 512) ((1 + 2 * F) * 512 + 32) img
      = writeDirEnt (label11 (p_label p)) 0x08 0 0 (replicate 32 0)"
    and "slice ((1 + 2 * F) * 512 + 32) ((1 + 2 * F) * 512 + 64) img
      = writeDirEnt (fatName (go_string ''README'') (go_string ''TXT'')) 0x20 2 (of_nat (length (p_readme p))) (replicate 32 0)"
    and "slice ((1 + 2 * F + R) * 512) ((1 + 2 * F + R) * 512 + length (p_readme p)) img = p_readme p"
proof -
  let ?z = "replicate (T * 512) 0 :: bytes" and ?B = "writeBPB p 1 2 (int F) (replicate 512 0)"
  let ?ro = "(1 + 2 * F) * 512" and ?do = "(1 + 2 * F + R) * 512"
  define i1 where "i1 = blit 0 ?B ?z"
  define i2 where "i2 = blit 512 fb i1"
  define i3 where "i3 = blit (512 + F * 512) fb i2"
  have img: "img = blit ?do (p_readme p) (dir_region p i3 ?ro)"
    by (simp add: img_def image_of_def i1_def i2_def i3_def Let_def)
  have len: "length i1 = T * 512" "length i2 = T * 512" "length i3 = T * 512" "length ?B = 512"
    by (simp_all add: i1_def i2_def i3_def)
  have room: "?ro + 64 \<le> T * 512" "?ro + 64 \<le> ?do" "?do \<le> T * 512" "512 + F * 512 + length fb \<le> ?ro"
    using assms(1-3) by simp_all
  note dir = slice_dir_region [where ro = ?ro and img = i3 and p = p, unfolded len(3), OF room(1)]
  have last: "slice a b img = slice a b (dir_region p i3 ?ro)" if "b \<le> ?do" for a b
    unfolding img by (rule slice_blit_other) (use that room len in simp_all)
  have before: "slice a b img = slice a b i3" if "b \<le> ?ro" for a b
    using last [of b a] dir(3) [where a = a and b = b] that room by simp
  have i3: "slice a b i3 = slice a b i2" if "b \<le> 512 + F * 512" "b \<le> T * 512" for a b
    unfolding i3_def by (rule slice_blit_other) (use that len in simp_all)
  have zero: "slice a b i3 = replicate (b - a) 0" if "?ro \<le> a" "b \<le> T * 512" for a b
  proof -
    have "slice a b i3 = slice a b i2" unfolding i3_def by (rule slice_blit_other) (use that len room in simp_all)
    also have "\<dots> = slice a b i1" unfolding i2_def by (rule slice_blit_other) (use that len room in simp_all)
    also have "\<dots> = slice a b ?z" unfolding i1_def by (rule slice_blit_other) (use that len room in simp_all)
    finally show ?thesis using that(2) by (simp add: slice_replicate)
  qed
  have "slice 0 512 i2 = slice 0 512 i1" unfolding i2_def by (rule slice_blit_other) (use len room in simp_all)
  moreover have "slice 0 (0 + length ?B) i1 = ?B" unfolding i1_def by (rule slice_blit_same) (use room in simp)
  ultimately show "slice 0 512 img = ?B" using before [of 512 0] i3 [of 512 0] room by simp
  have "slice 512 (512 + length fb) i2 = fb" unfolding i2_def by (rule slice_blit_same) (use len room in simp)
  then show "slice 512 (512 + length fb) img = fb"
    using before [of "512 + length fb" 512] i3 [of "512 + length fb" 512] room assms(3) by simp
  have "slice (512 + F * 512) (512 + F * 512 + length fb) i3 = fb"
    unfolding i3_def by (rule slice_blit_same) (use len room in simp)
  then show "slice (512 + F * 512) (512 + F * 512 + length fb) img = fb"
    using before [of "512 + F * 512 + length fb"] room by simp
  show "slice ?ro (?ro + 32) img = writeDirEnt (label11 (p_label p)) 0x08 0 0 (replicate 32 0)"
    using last [of "?ro + 32" ?ro] dir(1) zero [of ?ro "?ro + 32"] room by simp
  show "slice (?ro + 32) (?ro + 64) img
      = writeDirEnt (fatName (go_string ''README'') (go_string ''TXT'')) 0x20 2 (of_nat (length (p_readme p))) (replicate 32 0)"
    using last [of "?ro + 64" "?ro + 32"] dir(2) zero [of "?ro + 32" "?ro + 64"] room by simp
  show "slice ?do (?do + length (p_readme p)) img = p_readme p"
    unfolding img by (rule slice_blit_same) (use len assms(4) in simp)
qed

lemma get_slice_at:
  assumes "i + 2 \<le> b - a" "b \<le> length img"
  shows "get_le16 img (a + i) = get_le16 (slice a b img) i"
  using assms by (simp add: get_le16_def)

lemma boot_fields:
  fixes p :: fatParams and F :: nat
  defines "B \<equiv> writeBPB p 1 2 (int F) (replicate 512 0)"
  shows "get_le16 B 11 = 512" "B ! 13 = word_of_int (secPerClus p)" "get_le16 B 14 = 1" "B ! 16 = 2"
    "get_le16 B 17 = word_of_int (rootEntCnt p)" "get_le16 B 22 = of_nat F" "B ! 510 = 0x55" "B ! 511 = 0xAA"
  unfolding B_def
  by (simp_all add: writeBPB_def Let_def wire_simps secSize_def nth_blit label11_def del: upt_Suc)

lemma dirent_fields:
  fixes nm :: bytes and attr :: u8 and c :: u16 and n :: u32
  assumes "length nm = 11"
  defines "d \<equiv> writeDirEnt nm attr c n (replicate 32 0)"
  shows "take 11 d = nm" "d ! 11 = attr" "get_le16 d 26 = c" "get_le32 d 28 = n"
proof -
  have t: "take 11 d = nm"
  proof (rule nth_equalityI)
    show "length (take 11 d) = length nm" by (simp add: d_def assms)
    fix i assume "i < length (take 11 d)"
    then show "take 11 d ! i = nm ! i"
      by (simp add: d_def writeDirEnt_def Let_def nth_blit assms nth_list_update)
  qed
  then show "take 11 d = nm" .
  show "d ! 11 = attr" "get_le16 d 26 = c" "get_le32 d 28 = n"
    by (simp_all add: d_def writeDirEnt_def Let_def nth_blit wire_simps assms)
qed

lemma fat_table_Inr:
  assumes "1 \<le> c"
  obtains fat where "fat_table p (int c) = Inr fat" "length fat = c + 2"
    "fat ! 2 = (if p_fat12 p then 0xFFF else 0xFFFF)"
    "\<And>k. 3 \<le> k \<Longrightarrow> k < c + 2 \<Longrightarrow> fat ! k = 0"
proof -
  have n: "nat (int c + 2) = c + 2" by simp
  let ?f = "\<lambda>a b. (replicate (c + 2) 0)[0 := a OR ucast (media p), 1 := b, 2 := b] :: u32 list"
  have "fat_table p (int c) = Inr (if p_fat12 p then ?f 0xF00 0xFFF else ?f 0xFF00 0xFFFF)"
    using assms by (simp add: fat_table_def make_slice_def put_at_def n)
  then show ?thesis
    using assms by (intro that) (auto simp: nth_list_update)
qed

lemma table_room: "k < n \<Longrightarrow> k + k div 2 + 2 \<le> (n * 3 + 1) div (2 :: nat)"
  using div_le_mono [of "3 * k + 4" "n * 3 + 1" 2] by simp

lemma image_readable:
  assumes p: "totalSectors p = int T" "rootDirSectors p = int R" "secPerClus p = int C" "rootEntCnt p = int E"
    and small: "1 \<le> C" "C < 256" "1 \<le> E" "E < 65536" "F < 65536" and R: "R = (E * 32 + 511) div 512"
    and T: "1 + 2 * F + R + C \<le> T" and readme: "length (p_readme p) \<le> C * 512"
    and fb: "length (packFAT fat (p_fat12 p)) \<le> F * 512" and fat: "length fat = (T - (1 + 2 * F + R)) div C + 2"
  defines "img \<equiv> image_of p T F R (packFAT fat (p_fat12 p))"
  shows "img ! 510 = 0x55" "img ! 511 = 0xAA"
    "j < 2 \<Longrightarrow> k < length fat \<Longrightarrow> fat_entry (p_fat12 p) img (rd_fat_off img j) k
       = (if p_fat12 p then ucast (fat ! k AND 0xFFF) else ucast (fat ! k))"
    "take 11 (rd_dirent img 0) = label11 (p_label p)" "rd_dirent img 0 ! 11 = 8"
    "take 11 (rd_dirent img 1) = go_string ''README  TXT''" "rd_dirent img 1 ! 11 = 0x20"
    "rd_file img (rd_dirent img 1) = p_readme p"
proof -
  let ?fb = "packFAT fat (p_fat12 p)"
  have R1: "1 \<le> R" using small(3) R by simp
  have fit: "(1 + 2 * F + R) * 512 + length (p_readme p) \<le> T * 512"
    using T readme by (simp add: mult_le_mono1)
  have T1: "1 + 2 * F + R \<le> T" using T by simp
  note reg = image_regions [OF R1 T1 fb fit, folded img_def]
  have len: "length img = T * 512" by (simp add: img_def)
  have T2: "512 \<le> length img" using T1 len by simp
  have at: "img ! i = writeBPB p 1 2 (int F) (replicate 512 0) ! i" if "i < 512" for i
    using reg(1) nth_slice [OF T2, of i 0] that by simp
  have u: "get_le16 img i = get_le16 (writeBPB p 1 2 (int F) (replicate 512 0)) i" if "i + 2 \<le> 512" for i
    using get_slice_at [of i 512 0 img] reg(1) that T2 by simp
  note bpb = boot_fields [where p = p and F = F]
  have c: "u16_at img 11 = 512" "unat (img ! 13) = C" "u16_at img 14 = 1" "unat (img ! 16) = 2" "u16_at img 17 = E"
    "u16_at img 22 = F"
    using small p by (simp_all add: u16_at_def u at bpb unat_of_nat take_bit_nat_eq_self)
  show "img ! 510 = 0x55" "img ! 511 = 0xAA" by (simp_all add: at bpb)
  have fo: "rd_fat_off img j = 512 + j * F * 512" for j by (simp add: rd_fat_off_def c)
  have ro: "rd_root_off img = (1 + 2 * F) * 512" by (simp add: rd_root_off_def rd_fat_off_def c)
  have do: "rd_data_off img = (1 + 2 * F + R) * 512" by (simp add: rd_data_off_def ro c R)
  show "fat_entry (p_fat12 p) img (rd_fat_off img j) k
      = (if p_fat12 p then ucast (fat ! k AND 0xFFF) else ucast (fat ! k))" if "j < 2" "k < length fat"
  proof -
    let ?o = "512 + j * F * 512"
    have s: "slice ?o (?o + length ?fb) img = ?fb" using reg(2,3) that(1) by (auto simp: less_2_cases_iff)
    have b: "?o + length ?fb \<le> length img" using that(1) fb T1 len by (auto simp: less_2_cases_iff)
    note rt = fat_table_entry [OF that(2), of "p_fat12 p"]
    have i: "(if p_fat12 p then k + k div 2 else 2 * k) + 2 \<le> length ?fb"
      using that(2) table_room [OF that(2)] unfolding length_packFAT by simp
    have "fat_entry (p_fat12 p) img ?o k = fat_entry (p_fat12 p) (slice ?o (?o + length ?fb) img) 0 k"
      using i get_slice_at [of "k + k div 2" "?o + length ?fb" ?o img]
        get_slice_at [of "2 * k" "?o + length ?fb" ?o img] b
      by (simp add: fat_entry_def add.assoc split: if_splits)
    with s rt show ?thesis by (simp add: fo)
  qed
  have d0: "rd_dirent img 0 = writeDirEnt (label11 (p_label p)) 0x08 0 0 (replicate 32 0)"
    and d1: "rd_dirent img 1 = writeDirEnt (fatName (go_string ''README'') (go_string ''TXT'')) 0x20 2
         (of_nat (length (p_readme p))) (replicate 32 0)"
    using reg(4,5) by (simp_all add: rd_dirent_def ro)
  have nm: "length (label11 (p_label p)) = 11" "length (fatName (go_string ''README'') (go_string ''TXT'')) = 11"
    "fatName (go_string ''README'') (go_string ''TXT'') = go_string ''README  TXT''"
    by (simp add: label11_def, simp add: fatName_def Let_def, code_simp)
  note f0 = dirent_fields [where nm = "label11 (p_label p)" and attr = 8 and c = 0 and n = 0, OF nm(1), folded d0]
  note f1 = dirent_fields [where attr = "0x20" and c = 2 and n = "of_nat (length (p_readme p))", OF nm(2), folded d1]
  show "take 11 (rd_dirent img 0) = label11 (p_label p)" "rd_dirent img 0 ! 11 = 8"
    "take 11 (rd_dirent img 1) = go_string ''README  TXT''" "rd_dirent img 1 ! 11 = 0x20"
    using f0 f1 nm(3) by simp_all
  have "C * 512 < 2 ^ 32" using small(2) by simp
  with readme have "unat (of_nat (length (p_readme p)) :: u32) = length (p_readme p)"
    by (simp add: unat_of_nat take_bit_nat_eq_self)
  with f1(3,4) reg(6) show "rd_file img (rd_dirent img 1) = p_readme p"
    by (simp add: rd_file_def u16_at_def do)
qed

definition fits :: "fatParams \<Rightarrow> int \<Rightarrow> bool" where
  "fits p n =
     (let clusters = (totalSectors p - (1 + 2 * n + rootDirSectors p)) div secPerClus p
      in 1 \<le> secPerClus p \<and> secPerClus p < 256 \<and> 1 \<le> rootEntCnt p \<and> rootEntCnt p < 65536 \<and> n < 65536
         \<and> 1 \<le> clusters \<and> int (length (p_readme p)) \<le> secPerClus p * 512
         \<and> (if p_fat12 p then (3 * (clusters + 2) + 1) div 2 else 2 * (clusters + 2)) \<le> n * 512)"

lemma table_room_nat:
  "(if b then (3 * (int c + 2) + 1) div 2 else 2 * (int c + 2)) \<le> int F * 512
     \<Longrightarrow> (if b then ((c + 2) * 3 + 1) div 2 else (c + 2) * 2) \<le> F * 512"
proof (cases b)
  case True
  assume "(if b then (3 * (int c + 2) + 1) div 2 else 2 * (int c + 2)) \<le> int F * 512"
  moreover have "(3 * (int c + 2) + 1) div 2 = int (((c + 2) * 3 + 1) div 2)" by (simp add: zdiv_int)
  ultimately show ?thesis using True by simp
qed simp

lemma div_ge_one: "0 < c \<Longrightarrow> 1 \<le> d div c \<Longrightarrow> c \<le> (d :: int)"
  using pos_imp_zdiv_pos_iff [of c d] by linarith

text \<open>The geometry in natural numbers.\<close>

lemma fits_geometry:
  fixes p n F R C T defines "F \<equiv> nat n" and "R \<equiv> (nat (rootEntCnt p) * 32 + 511) div 512" and "C \<equiv> nat (secPerClus p)"
    and "T \<equiv> nat (totalSectors p)"
  assumes "fits p n" "1 \<le> n"
  shows "rootDirSectors p = int R" "totalSectors p = int T" "1 + 2 * F + R + C \<le> T"
    "(totalSectors p - (1 + 2 * n + rootDirSectors p)) div secPerClus p = int ((T - (1 + 2 * F + R)) div C)"
proof -
  note f = assms(5) [unfolded fits_def Let_def]
  have p: "secPerClus p = int C" "rootEntCnt p = int (nat (rootEntCnt p))" "n = int F"
    using f assms(6) by (simp_all add: C_def F_def)
  have C1: "1 \<le> C" using f p by simp
  show r: "rootDirSectors p = int R"
    by (subst rootDirSectors_def, subst p(2)) (simp add: secSize_def R_def zdiv_int)
  have "int C \<le> totalSectors p - (1 + 2 * n + rootDirSectors p)"
  proof (rule div_ge_one)
    show "1 \<le> (totalSectors p - (1 + 2 * n + rootDirSectors p)) div int C" using f unfolding p(1) by blast
  qed (use C1 in simp)
  then show t: "totalSectors p = int T" and T: "1 + 2 * F + R + C \<le> T"
    unfolding T_def p(3) r by linarith+
  then have "totalSectors p - (1 + 2 * n + rootDirSectors p) = int (T - (1 + 2 * F + R))" using p(3) r by simp
  then show "(totalSectors p - (1 + 2 * n + rootDirSectors p)) div secPerClus p = int ((T - (1 + 2 * F + R)) div C)"
    by (simp only: p(1) zdiv_int)
qed

text \<open>C36. The images are volumes on which a driver finds the file. Let the parameters fit their fields, the
  file one cluster and the packed table the sectors the loop chose. Then the program does not
  panic; the image has all its sectors and the boot signature; and a driver that knows only the
  numbers in the boot sector reads, in both copies of the table, a file of one cluster at the
  second cluster and free entries behind it, finds the volume label and \<^verbatim>\<open>README.TXT\<close> in the root directory, and
  reads back the text byte for byte.\<close>

theorem fat_image_readable:
  assumes "fat_need p 1 = Inr n1" "n = max 1 n1" "fits p n"
  shows "\<exists>img. buildFAT p = Some (Inr img) \<and> int (length img) = totalSectors p * 512
    \<and> img ! 510 = 0x55 \<and> img ! 511 = 0xAA
    \<and> (\<forall>j < 2. fat_entry (p_fat12 p) img (rd_fat_off img j) 2 = (if p_fat12 p then 0xFFF else 0xFFFF)
         \<and> (\<forall>k. 3 \<le> k \<longrightarrow> int k < (totalSectors p - (1 + 2 * n + rootDirSectors p)) div secPerClus p + 2
              \<longrightarrow> fat_entry (p_fat12 p) img (rd_fat_off img j) k = 0))
    \<and> take 11 (rd_dirent img 0) = label11 (p_label p) \<and> rd_dirent img 0 ! 11 = 8
    \<and> take 11 (rd_dirent img 1) = go_string ''README  TXT''
    \<and> rd_file img (rd_dirent img 1) = p_readme p"
proof -
  define C E F R where "C = nat (secPerClus p)" and "E = nat (rootEntCnt p)" and "F = nat n" and "R = (E * 32 + 511) div 512"
  define T where "T = nat (totalSectors p)"
  let ?c = "(T - (1 + 2 * F + R)) div C"
  note f = assms(3) [unfolded fits_def Let_def]
  have p: "secPerClus p = int C" "rootEntCnt p = int E" "n = int F" using f assms(2) by (simp_all add: C_def E_def F_def)
  have C1: "1 \<le> C" using f p by simp
  have "1 \<le> n" using assms(2) by simp
  note g = fits_geometry [OF assms(3) this, folded C_def E_def F_def T_def, folded R_def]
  note r = g(1) and t = g(2) and T = g(3) and cl = g(4)
  have c1: "1 \<le> ?c" using f unfolding cl by linarith
  obtain fat where fat: "fat_table p (int ?c) = Inr fat" "length fat = ?c + 2"
    "fat ! 2 = (if p_fat12 p then 0xFFF else 0xFFFF)" "\<And>k. 3 \<le> k \<Longrightarrow> k < ?c + 2 \<Longrightarrow> fat ! k = 0"
    using fat_table_Inr [OF c1] by blast
  have fb: "length (packFAT fat (p_fat12 p)) \<le> F * 512"
  proof -
    have "(if p_fat12 p then (3 * (int ?c + 2) + 1) div 2 else 2 * (int ?c + 2)) \<le> int F * 512"
      using f unfolding cl unfolding p(3) by blast
    from table_room_nat [OF this] show ?thesis unfolding length_packFAT fat(2) .
  qed
  have E1: "1 \<le> E" "E < 65536" "C < 256" "F < 65536" "length (p_readme p) \<le> C * 512"
    using f unfolding p by linarith+
  have "fat_size p 1 = Some (Inr (int F))"
    using fat_size_two_rounds [OF _ assms(1)] assms(2) C1 p by simp
  moreover have "build_image p (int F) = Inr (image_of p T F R (packFAT fat (p_fat12 p)))"
    using T E1(1) by (intro build_image_eq [OF t r p(1) C1 _ _ fat(1)]) (auto simp: R_def)
  ultimately have b: "buildFAT p = Some (Inr (image_of p T F R (packFAT fat (p_fat12 p))))"
    by (simp add: buildFAT_def)
  note img = image_readable [OF t r p(1,2) C1 E1(3) E1(1,2,4) R_def T E1(5) fb fat(2)]
  have small: "fat_entry (p_fat12 p) (image_of p T F R (packFAT fat (p_fat12 p)))
        (rd_fat_off (image_of p T F R (packFAT fat (p_fat12 p))) j) k = 0"
    if "j < 2" "3 \<le> k" "k < ?c + 2" for j k
    using img(3) [OF that(1), of k] fat(2) fat(4) [OF that(2,3)] that by simp
  show ?thesis
    using b img fat(2,3) small c1 t unfolding cl
    by (intro exI [of _ "image_of p T F R (packFAT fat (p_fat12 p))"]) auto
qed

lemma fat_image_readable_witness:
  "(\<exists>img. buildFAT floppy_params = Some (Inr img) \<and> length img = 1474560 \<and> take 11 (rd_dirent img 1) = go_string ''README  TXT''
      \<and> rd_file img (rd_dirent img 1) = p_readme floppy_params)
   \<and> (\<exists>img. buildFAT disk_params = Some (Inr img) \<and> length img = 16777216 \<and> take 11 (rd_dirent img 1) = go_string ''README  TXT''
      \<and> rd_file img (rd_dirent img 1) = p_readme disk_params)"
proof -
  have f: "fat_need floppy_params 1 = Inr 9" "fits floppy_params 9"
    by (simp_all add: fat_need_def go_div_def rootDirSectors_def secSize_def floppy_params_def fits_def crlf_def Let_def)
  have d: "fat_need disk_params 1 = Inr 32" "fits disk_params 32"
    by (simp_all add: fat_need_def go_div_def rootDirSectors_def secSize_def disk_params_def fits_def crlf_def Let_def)
  have t: "totalSectors floppy_params = 2880" "totalSectors disk_params = 32768"
    by (simp_all add: floppy_params_def disk_params_def)
  from fat_image_readable [OF f(1) _ f(2)] fat_image_readable [OF d(1) _ d(2)] show ?thesis
    unfolding t by fastforce
qed

text \<open>
  The loop rounds a table of 12-bit entries down to whole bytes, the packing rounds up: with 681
  clusters of four sectors the packed table is one byte longer than the two sectors set aside, so that the second
  copy overwrites the end of the first and runs into the root directory.
\<close>

lemma fat12_table_can_overflow:
  fixes p defines "p \<equiv> floppy_params\<lparr>totalSectors := 2743, secPerClus := 4\<rparr>"
  shows "fat_size p 1 = Some (Inr 2)"
    and "go_div (totalSectors p - (1 + 2 * 2 + rootDirSectors p)) (secPerClus p) = Inr 681"
    and "2 * 512 < length (packFAT (replicate (681 + 2) e) (p_fat12 p))"
proof -
  have "fat_need p 1 = Inr 2"
    by (simp add: fat_need_def go_div_def rootDirSectors_def secSize_def p_def floppy_params_def Let_def)
  then show "fat_size p 1 = Some (Inr 2)"
    using fat_size_two_rounds [of p 2] by (simp add: p_def)
qed (simp_all add: p_def floppy_params_def length_packFAT go_div_def rootDirSectors_def secSize_def)

lemma fat_size_settles_witness:
  "(\<exists>n1 n. fat_need floppy_params 1 = Inr n1 \<and> fat_size floppy_params 1 = Some (Inr (max 1 n1))
      \<and> fat_need floppy_params (max 1 n1) = Inr n \<and> n \<le> max 1 n1)
    \<and> fat_size (floppy_params\<lparr>secPerClus := 0\<rparr>) 1 = Some (Inl DivideByZero)"
  by (rule fat_size_settles) (simp_all add: floppy_params_def)

end
