(* ===== verification/Mkiso.thy ===== *)
theory Mkiso
  imports Prelude
begin

text \<open>
  The builder of the bootable test disc (\<^verbatim>\<open>scripts/mkiso_go\<close>): volume descriptors, path tables, directory,
  El Torito catalog and the hand-assembled boot sector. What the disc is for is stated by readers that
  use nothing but its bytes: of ISO 9660 directories, of the boot catalog, and of the instructions the
  boot sector consists of.
\<close>

section \<open>Fields\<close>

definition sectorSize :: nat where "sectorSize = 2048"

definition lbaPVD :: nat where "lbaPVD = 16"
definition lbaBootRecord :: nat where "lbaBootRecord = 17"
definition lbaTerminator :: nat where "lbaTerminator = 18"
definition lbaPathL :: nat where "lbaPathL = 19"
definition lbaPathM :: nat where "lbaPathM = 20"
definition lbaRootDir :: nat where "lbaRootDir = 21"
definition lbaReadme :: nat where "lbaReadme = 22"
definition lbaBootCat :: nat where "lbaBootCat = 23"
definition lbaBootImg :: nat where "lbaBootImg = 24"
definition iso_totalSectors :: nat where "iso_totalSectors = 25"

lemmas iso_layout = sectorSize_def lbaPVD_def lbaBootRecord_def lbaTerminator_def lbaPathL_def lbaPathM_def
  lbaRootDir_def lbaReadme_def lbaBootCat_def lbaBootImg_def iso_totalSectors_def

text \<open>Each writes its field at an offset of the sector.\<close>

definition put733 :: "nat \<Rightarrow> u32 \<Rightarrow> bytes \<Rightarrow> bytes" where
  "put733 off v b = blit (off + 4) (be32 v) (blit off (le32 v) b)"

definition put723 :: "nat \<Rightarrow> u16 \<Rightarrow> bytes \<Rightarrow> bytes" where
  "put723 off v b = blit (off + 2) (be16 v) (blit off (le16 v) b)"

definition fill :: "nat \<Rightarrow> nat \<Rightarrow> u8 \<Rightarrow> bytes \<Rightarrow> bytes" where
  "fill lo hi c b = blit lo (replicate (hi - lo) c) b"

definition padStr :: "nat \<Rightarrow> nat \<Rightarrow> bytes \<Rightarrow> bytes \<Rightarrow> bytes" where
  "padStr lo hi s b = blit lo (take (hi - lo) s) (fill lo hi 0x20 b)"

definition noDate :: "nat \<Rightarrow> bytes \<Rightarrow> bytes" where
  "noDate off b = (fill off (off + 16) 0x30 b)[off + 16 := 0]"

definition writeRecDate :: "nat \<Rightarrow> bytes \<Rightarrow> bytes" where
  "writeRecDate off b = fill off (off + 7) 0 b"

section \<open>Directory records\<close>

definition record_id :: "bytes \<Rightarrow> bytes" where
  "record_id nm = (if nm = [] then [0] else if nm = [1] then [1] else nm)"

definition recLen :: "bytes \<Rightarrow> nat" where
  "recLen nm = (let n = 33 + length (record_id nm) in if n mod 2 \<noteq> 0 then n + 1 else n)"

definition writeDirRecord :: "nat \<Rightarrow> u32 \<Rightarrow> u32 \<Rightarrow> bool \<Rightarrow> bytes \<Rightarrow> bytes \<Rightarrow> bytes \<times> nat" where
  "writeDirRecord off extent dataLen isDir nm b =
     (let rid = record_id nm; n = recLen nm;
          b = b[off := of_nat n, off + 1 := 0];
          b = put733 (off + 2) extent b;
          b = put733 (off + 10) dataLen b;
          b = writeRecDate (off + 18) b;
          b = b[off + 25 := if isDir then 2 else 0, off + 26 := 0, off + 27 := 0];
          b = put723 (off + 28) 1 b;
          b = b[off + 32 := of_nat (length rid)];
          b = blit (off + 33) rid b
      in (b, n))"

definition readme_name :: bytes where
  "readme_name = go_string ''README.TXT;1''"

definition writeRootDir :: "nat \<Rightarrow> bytes \<Rightarrow> bytes" where
  "writeRootDir readmeLen s =
     (let off = 0;
          (s, n) = writeDirRecord off (of_nat lbaRootDir) (of_nat sectorSize) True [] s;
          off = off + n;
          (s, n) = writeDirRecord off (of_nat lbaRootDir) (of_nat sectorSize) True [1] s;
          off = off + n;
          (s, n) = writeDirRecord off (of_nat lbaReadme) (of_nat readmeLen) False readme_name s
      in s)"

section \<open>Volume descriptors and path table\<close>

definition pathTableSize :: nat where "pathTableSize = 10"

definition cd001 :: bytes where
  "cd001 = go_string ''CD001''"

definition writePVD :: "bytes \<Rightarrow> nat \<Rightarrow> bytes \<Rightarrow> bytes" where
  "writePVD lbl readmeLen s =
     (let s = s[0 := 1];
          s = blit 1 cd001 s;
          s = s[6 := 1];
          s = padStr 8 40 [] s;
          s = padStr 40 72 lbl s;
          s = put733 80 (of_nat iso_totalSectors) s;
          s = put723 120 1 s;
          s = put723 124 1 s;
          s = put723 128 (of_nat sectorSize) s;
          s = put733 132 (of_nat pathTableSize) s;
          s = blit 140 (le32 (of_nat lbaPathL)) s;
          s = blit 148 (be32 (of_nat lbaPathM)) s;
          s = fst (writeDirRecord 156 (of_nat lbaRootDir) (of_nat sectorSize) True [] s);
          s = padStr 190 318 [] s;
          s = padStr 318 446 [] s;
          s = padStr 446 574 [] s;
          s = padStr 574 702 [] s;
          s = padStr 702 739 [] s;
          s = padStr 739 776 [] s;
          s = padStr 776 813 [] s;
          s = noDate 813 s;
          s = noDate 830 s;
          s = noDate 847 s;
          s = noDate 864 s
      in s[881 := 1])"

definition el_torito :: bytes where
  "el_torito = go_string ''EL TORITO SPECIFICATION''"

definition writeBootRecord :: "bytes \<Rightarrow> bytes" where
  "writeBootRecord s =
     (let s = s[0 := 0];
          s = blit 1 cd001 s;
          s = s[6 := 1];
          s = padStr 7 39 el_torito s;
          s = fill 7 71 0 s;
          s = blit 7 (take 32 el_torito) s
      in blit 71 (le32 (of_nat lbaBootCat)) s)"

definition writeTerminator :: "bytes \<Rightarrow> bytes" where
  "writeTerminator s = (blit 1 cd001 (s[0 := 255]))[6 := 1]"

definition writePathTable :: "bool \<Rightarrow> bytes \<Rightarrow> bytes" where
  "writePathTable bigEndian s =
     (let s = s[0 := 1, 1 := 0];
          s = (if bigEndian then blit 6 (be16 1) (blit 2 (be32 (of_nat lbaRootDir)) s)
               else blit 6 (le16 1) (blit 2 (le32 (of_nat lbaRootDir)) s))
      in s[8 := 0])"

section \<open>El Torito\<close>

definition word_sum :: "bytes \<Rightarrow> u16" where
  "word_sum v = foldl (\<lambda>sum i. sum + get_le16 v (2 * i)) 0 [0 ..< 16]"

definition writeBootCatalog :: "bytes \<Rightarrow> bytes" where
  "writeBootCatalog s =
     (let s = s[0 := 1, 1 := 0, 30 := 0x55, 31 := 0xAA];
          s = blit 28 (le16 (- word_sum (take 32 s))) s;
          s = s[32 := 0x88, 33 := 0];
          s = blit 34 (le16 0) s;
          s = s[36 := 0];
          s = blit 38 (le16 4) s
      in blit 40 (le32 (of_nat lbaBootImg)) s)"

definition msgOff :: nat where "msgOff = 0x19"

definition boot_code :: bytes where
  "boot_code =
     [0xFA] @ [0x31, 0xC0] @ [0x8E, 0xD8] @ [0xBB, 0x07, 0x00]
       @ [0xBE, of_nat ((0x7C00 + msgOff) mod 256), of_nat ((0x7C00 + msgOff) div 256)]
       @ [0xAC] @ [0x84, 0xC0] @ [0x74, 0x06] @ [0xB4, 0x0E] @ [0xCD, 0x10] @ [0xEB, 0xF5] @ [0xF4] @ [0xEB, 0xFD]"

definition boot_banner :: bytes where
  "boot_banner = go_string ''RD450X vmedia test ISO booted OK'' @ [13, 10]"

text \<open>The code has the length the message's address assumes; otherwise the program panics.\<close>

definition bootSector :: "bytes option" where
  "bootSector =
     (if length boot_code \<noteq> msgOff then None
      else let sec = replicate 512 0;
               sec = blit 0 boot_code sec;
               sec = blit msgOff (boot_banner @ [0]) sec
           in Some (sec[510 := 0x55, 511 := 0xAA]))"

section \<open>The image\<close>

definition with_sector :: "nat \<Rightarrow> (bytes \<Rightarrow> bytes) \<Rightarrow> bytes \<Rightarrow> bytes" where
  "with_sector lba f img = blit (lba * sectorSize) (f (slice (lba * sectorSize) ((lba + 1) * sectorSize) img)) img"

definition iso_readme :: bytes where
  "iso_readme =
     go_string ''RD450X remote console - virtual media test disc.'' @ [13, 10]
       @ go_string ''If you can read this file and the machine boots showing the banner,'' @ [13, 10]
       @ go_string ''CD/DVD redirection works end-to-end.'' @ [13, 10]"

definition iso_build :: "bytes \<Rightarrow> bytes option" where
  "iso_build lbl =
     (let img = replicate (iso_totalSectors * sectorSize) 0;
          img = with_sector lbaPVD (writePVD lbl (length iso_readme)) img;
          img = with_sector lbaBootRecord writeBootRecord img;
          img = with_sector lbaTerminator writeTerminator img;
          img = with_sector lbaPathL (writePathTable False) img;
          img = with_sector lbaPathM (writePathTable True) img;
          img = with_sector lbaRootDir (writeRootDir (length iso_readme)) img;
          img = with_sector lbaReadme (blit 0 iso_readme) img;
          img = with_sector lbaBootCat writeBootCatalog img
      in case bootSector of
           None \<Rightarrow> None
         | Some boot \<Rightarrow> Some (with_sector lbaBootImg (blit 0 boot) img))"

section \<open>Sectors of the image\<close>

definition iso_sector :: "bytes \<Rightarrow> nat \<Rightarrow> bytes" where
  "iso_sector img k = slice (k * sectorSize) ((k + 1) * sectorSize) img"

lemma length_fields [simp]:
  "length (put733 off v b) = length b" "length (put723 off w b) = length b" "length (fill lo hi c b) = length b"
  "length (padStr lo hi s b) = length b" "length (noDate off b) = length b" "length (writeRecDate off b) = length b"
  "length (fst (writeDirRecord off e n d nm b)) = length b"
  by (simp_all add: put733_def put723_def fill_def padStr_def noDate_def writeRecDate_def writeDirRecord_def Let_def)

lemma length_sectors [simp]:
  "length (writePVD lbl n s) = length s" "length (writeBootRecord s) = length s" "length (writeTerminator s) = length s"
  "length (writePathTable be s) = length s" "length (writeRootDir n s) = length s" "length (writeBootCatalog s) = length s"
  by (simp_all add: writePVD_def writeBootRecord_def writeTerminator_def writePathTable_def writeRootDir_def
      writeBootCatalog_def Let_def split_beta)

lemma length_with_sector [simp]: "length (with_sector k f img) = length img"
  by (simp add: with_sector_def)

lemma sector_other:
  assumes "length img = iso_totalSectors * sectorSize" "j < iso_totalSectors" "k < iso_totalSectors" "j \<noteq> k"
    and "\<And>s. length (f s) = length s"
  shows "iso_sector (with_sector k f img) j = iso_sector img j"
proof -
  have "(k + 1) * sectorSize \<le> length img" "(j + 1) * sectorSize \<le> length img"
    using assms by (simp_all only: mult_le_mono1 Suc_eq_plus1 [symmetric] Suc_le_eq)
  moreover from assms(4) have "(j + 1) * sectorSize \<le> k * sectorSize \<or> (k + 1) * sectorSize \<le> j * sectorSize"
    by (metis Suc_eq_plus1 Suc_leI linorder_neqE_nat mult_le_mono1)
  ultimately show ?thesis
    unfolding iso_sector_def with_sector_def by (intro slice_blit_other) (auto simp: assms(5))
qed

lemma sector_same:
  assumes "length img = iso_totalSectors * sectorSize" "k < iso_totalSectors" "\<And>s. length (f s) = length s"
  shows "iso_sector (with_sector k f img) k = f (iso_sector img k)"
proof -
  let ?s = "f (slice (k * sectorSize) ((k + 1) * sectorSize) img)"
  have k: "(k + 1) * sectorSize \<le> length img"
    using assms by (simp only: mult_le_mono1 Suc_eq_plus1 [symmetric] Suc_le_eq)
  have "length ?s = sectorSize" using k by (simp add: assms(3))
  then have "slice (k * sectorSize) (k * sectorSize + length ?s) (blit (k * sectorSize) ?s img) = ?s"
    using k by (intro slice_blit_same) simp
  with \<open>length ?s = sectorSize\<close> show ?thesis by (simp add: iso_sector_def with_sector_def add.commute)
qed

lemma sector_blank: "k < iso_totalSectors \<Longrightarrow> iso_sector (replicate (iso_totalSectors * sectorSize) 0) k = replicate sectorSize 0"
proof -
  assume "k < iso_totalSectors"
  then have "(k + 1) * sectorSize \<le> iso_totalSectors * sectorSize" by (intro mult_le_mono1) simp
  then show ?thesis unfolding iso_sector_def by (intro nth_equalityI) simp_all
qed

lemma boot_sector: "\<exists>boot. bootSector = Some boot \<and> length boot = 512 \<and> boot ! 510 = 0x55 \<and> boot ! 511 = 0xAA"
  by (simp add: bootSector_def boot_code_def msgOff_def)

lemma iso_build_sectors:
  obtains img boot where "iso_build lbl = Some img" "bootSector = Some boot" "length img = iso_totalSectors * sectorSize"
    "iso_sector img lbaPVD = writePVD lbl (length iso_readme) (replicate sectorSize 0)"
    "iso_sector img lbaBootRecord = writeBootRecord (replicate sectorSize 0)"
    "iso_sector img lbaTerminator = writeTerminator (replicate sectorSize 0)"
    "iso_sector img lbaPathL = writePathTable False (replicate sectorSize 0)"
    "iso_sector img lbaPathM = writePathTable True (replicate sectorSize 0)"
    "iso_sector img lbaRootDir = writeRootDir (length iso_readme) (replicate sectorSize 0)"
    "iso_sector img lbaReadme = blit 0 iso_readme (replicate sectorSize 0)"
    "iso_sector img lbaBootCat = writeBootCatalog (replicate sectorSize 0)"
    "iso_sector img lbaBootImg = blit 0 boot (replicate sectorSize 0)"
proof -
  obtain boot where boot: "bootSector = Some boot" "length boot = 512" using boot_sector by blast
  have lt: "lbaPVD < iso_totalSectors" "lbaBootRecord < iso_totalSectors" "lbaTerminator < iso_totalSectors"
    "lbaPathL < iso_totalSectors" "lbaPathM < iso_totalSectors" "lbaRootDir < iso_totalSectors"
    "lbaReadme < iso_totalSectors" "lbaBootCat < iso_totalSectors" "lbaBootImg < iso_totalSectors"
    by (simp_all add: iso_layout)
  have "distinct [lbaPVD, lbaBootRecord, lbaTerminator, lbaPathL, lbaPathM, lbaRootDir, lbaReadme, lbaBootCat, lbaBootImg]"
    by (simp add: iso_layout)
  then have ne: "lbaPVD \<noteq> lbaBootRecord" "lbaPVD \<noteq> lbaTerminator" "lbaPVD \<noteq> lbaPathL" "lbaPVD \<noteq> lbaPathM"
    "lbaPVD \<noteq> lbaRootDir" "lbaPVD \<noteq> lbaReadme" "lbaPVD \<noteq> lbaBootCat" "lbaPVD \<noteq> lbaBootImg"
    "lbaBootRecord \<noteq> lbaTerminator" "lbaBootRecord \<noteq> lbaPathL" "lbaBootRecord \<noteq> lbaPathM"
    "lbaBootRecord \<noteq> lbaRootDir" "lbaBootRecord \<noteq> lbaReadme" "lbaBootRecord \<noteq> lbaBootCat" "lbaBootRecord \<noteq> lbaBootImg"
    "lbaTerminator \<noteq> lbaPathL" "lbaTerminator \<noteq> lbaPathM" "lbaTerminator \<noteq> lbaRootDir" "lbaTerminator \<noteq> lbaReadme"
    "lbaTerminator \<noteq> lbaBootCat" "lbaTerminator \<noteq> lbaBootImg" "lbaPathL \<noteq> lbaPathM" "lbaPathL \<noteq> lbaRootDir"
    "lbaPathL \<noteq> lbaReadme" "lbaPathL \<noteq> lbaBootCat" "lbaPathL \<noteq> lbaBootImg" "lbaPathM \<noteq> lbaRootDir"
    "lbaPathM \<noteq> lbaReadme" "lbaPathM \<noteq> lbaBootCat" "lbaPathM \<noteq> lbaBootImg" "lbaRootDir \<noteq> lbaReadme"
    "lbaRootDir \<noteq> lbaBootCat" "lbaRootDir \<noteq> lbaBootImg" "lbaReadme \<noteq> lbaBootCat" "lbaReadme \<noteq> lbaBootImg"
    "lbaBootCat \<noteq> lbaBootImg" by simp_all
  obtain img where b: "iso_build lbl = Some img" by (simp add: iso_build_def Let_def boot(1))
  note [simp] = sector_same sector_other sector_blank lt ne ne [symmetric]
  from b show ?thesis
    by (intro that [OF b boot(1)]) (auto simp: iso_build_def Let_def boot(1))
qed

section \<open>Reading the volume\<close>

text \<open>A driver reads the records of a directory up to the first of length zero.\<close>

function iso_records :: "bytes \<Rightarrow> (bytes \<times> nat \<times> nat) list" where
  "iso_records b =
     (case b of
        [] \<Rightarrow> []
      | n # r \<Rightarrow>
          if n = 0 then []
          else (slice 33 (33 + unat (b ! 32)) b, unat (get_le32 b 2), unat (get_le32 b 10))
                 # iso_records (drop (unat n) b))"
  by pat_completeness auto
termination
proof (relation "measure length")
  fix b :: bytes and n r assume "b = n # r" "n \<noteq> 0"
  moreover then have "0 < unat n" by (simp add: unat_gt_0)
  ultimately show "(drop (unat n) b, b) \<in> measure length" by simp
qed simp

declare iso_records.simps [simp del]
declare iso_records.simps [code]

definition dir_record :: "u32 \<Rightarrow> u32 \<Rightarrow> bool \<Rightarrow> bytes \<Rightarrow> bytes" where
  "dir_record e n d nm = fst (writeDirRecord 0 e n d nm (replicate (recLen nm) 0))"

lemma recLen_bounds: "33 + length (record_id nm) \<le> recLen nm" "recLen nm \<le> 34 + length (record_id nm)"
  by (simp_all add: recLen_def Let_def)

lemma length_dir_record [simp]: "length (dir_record e n d nm) = recLen nm"
  by (simp add: dir_record_def)

lemma dir_record_fields:
  fixes e n :: u32 and d :: bool and nm :: bytes
  defines "r \<equiv> dir_record e n d nm"
  shows "r ! 0 = of_nat (recLen nm)" "get_le32 r 2 = e" "get_le32 r 10 = n" "r ! 32 = of_nat (length (record_id nm))"
    "slice 33 (33 + length (record_id nm)) r = record_id nm"
proof -
  have l: "33 + length (record_id nm) \<le> recLen nm" by (rule recLen_bounds)
  note defs = r_def dir_record_def writeDirRecord_def Let_def put733_def put723_def writeRecDate_def fill_def
  show "r ! 0 = of_nat (recLen nm)" "get_le32 r 2 = e" "get_le32 r 10 = n" "r ! 32 = of_nat (length (record_id nm))"
    using l by (simp_all add: defs nth_blit wire_simps)
  show "slice 33 (33 + length (record_id nm)) r = record_id nm"
    using l by (simp add: defs slice_blit_same)
qed

lemma record_at:
  assumes "length a = off" "length b = recLen nm"
  shows "writeDirRecord off e n d nm (a @ b @ z) = (a @ fst (writeDirRecord 0 e n d nm b) @ z, recLen nm)"
proof -
  note l = recLen_bounds(1) [of nm]
  have "blit (off + k) src (a @ c) = a @ blit k src c" "blit (k + off) src (a @ c) = a @ blit k src c"
    "blit (Suc (Suc off)) src (a @ c) = a @ blit (Suc (Suc 0)) src c" "blit off src (a @ c) = a @ blit 0 src c"
    for k and src c :: bytes
    using assms(1) by (simp_all add: blit_append_right numeral_2_eq_2)
  then show ?thesis
    using l assms(2)
    by (simp add: writeDirRecord_def Let_def put733_def put723_def writeRecDate_def fill_def add.assoc
        blit_append_left list_update_append assms(1))
qed

lemma writeRootDir_blank:
  assumes "114 \<le> m"
  shows "writeRootDir n (replicate m 0) = dir_record 21 2048 True [] @ dir_record 21 2048 True [1]
     @ dir_record 22 (of_nat n) False readme_name @ replicate (m - 114) 0"
proof -
  have l: "recLen [] = 34" "recLen [1] = 34" "recLen readme_name = 46"
    by (simp_all add: recLen_def record_id_def readme_name_def Let_def go_string_def)
  have z: "replicate m 0 = replicate 34 0 @ replicate 34 0 @ replicate 46 0 @ replicate (m - 114) (0 :: u8)"
    using assms by (simp flip: replicate_add)
  have r1: "writeDirRecord 0 21 2048 True [] (replicate 34 0 @ b) = (dir_record 21 2048 True [] @ b, 34)" for b
    using record_at [of "[]" 0 "replicate 34 0" "[]"] by (simp add: l dir_record_def)
  have r2: "writeDirRecord 34 21 2048 True [1] (dir_record 21 2048 True [] @ replicate 34 0 @ b)
      = (dir_record 21 2048 True [] @ dir_record 21 2048 True [1] @ b, 34)" for b
    using record_at [of "dir_record 21 2048 True []" 34 "replicate 34 0" "[1]"] by (simp add: l dir_record_def [of _ _ _ "[1]"])
  have r3: "writeDirRecord 68 22 (of_nat n) False readme_name
        (dir_record 21 2048 True [] @ dir_record 21 2048 True [1] @ replicate 46 0 @ b)
      = (dir_record 21 2048 True [] @ dir_record 21 2048 True [1] @ dir_record 22 (of_nat n) False readme_name @ b, 46)" for b
    using record_at [of "dir_record 21 2048 True [] @ dir_record 21 2048 True [1]" 68 "replicate 46 0" readme_name]
    by (simp add: l dir_record_def [of _ _ _ readme_name])
  show ?thesis
    unfolding writeRootDir_def z Let_def
    by (simp add: r1 r2 r3 lbaRootDir_def lbaReadme_def sectorSize_def)
qed

lemma iso_records_Cons:
  assumes "length (record_id nm) < 200"
  shows "iso_records (dir_record e n d nm @ rest) = (record_id nm, unat e, unat n) # iso_records rest"
proof -
  let ?r = "dir_record e n d nm"
  have l: "34 \<le> recLen nm" "recLen nm < 256" "33 + length (record_id nm) \<le> recLen nm"
    using recLen_bounds [of nm] assms by (cases nm; auto simp: record_id_def split: if_splits)+
  note f = dir_record_fields [where e = e and n = n and d = d and nm = nm]
  obtain h t where r: "?r = h # t" using l(1) by (cases ?r) (auto dest: arg_cong [where f = length])
  have u: "unat (of_nat (recLen nm) :: u8) = recLen nm" "unat (of_nat (length (record_id nm)) :: u8) = length (record_id nm)"
    using l(2) assms by (simp_all add: unat_of_nat take_bit_nat_eq_self)
  have h: "h = of_nat (recLen nm)" using f(1) r by simp
  then have nz: "h \<noteq> 0" using u(1) l(1) by auto
  have "get_le32 (?r @ rest) 2 = e" "get_le32 (?r @ rest) 10 = n" "(?r @ rest) ! 32 = of_nat (length (record_id nm))"
    "slice 33 (33 + length (record_id nm)) (?r @ rest) = record_id nm"
    using f l by (simp_all add: get_le32_def slice_def nth_append)
  moreover have "drop (unat h) (?r @ rest) = rest" using h u(1) by simp
  ultimately show ?thesis
    using nz r u(2) by (subst iso_records.simps) simp
qed

lemma iso_readme_length: "length iso_readme = 157"
  by (simp add: iso_readme_def)

lemma root_records:
  "iso_records (writeRootDir (length iso_readme) (replicate sectorSize 0))
     = [([0], 21, 2048), ([1], 21, 2048), (readme_name, 22, length iso_readme)]"
proof -
  have "iso_records (replicate m 0) = []" for m
    by (cases m) (simp_all add: iso_records.simps)
  moreover have "record_id [] = [0]" "record_id [1] = [1]" "record_id readme_name = readme_name" "length readme_name = 12"
    by (simp_all add: record_id_def readme_name_def go_string_def)
  ultimately show ?thesis
    by (simp add: writeRootDir_blank sectorSize_def iso_records_Cons iso_readme_length)
qed

lemmas pvd_writers = writePVD_def Let_def writeDirRecord_def put733_def put723_def padStr_def fill_def noDate_def
  writeRecDate_def record_id_def recLen_def cd001_def iso_layout pathTableSize_def

text \<open>The fields of the volume descriptor a reader looks at.\<close>

lemma pvd_numbers:
  fixes lbl pvd defines "pvd \<equiv> writePVD lbl 157 (replicate 2048 0)"
  shows "pvd ! 0 = 1" "get_le32 pvd 80 = 25" "get_be32 pvd 84 = 25" "get_le32 pvd 158 = 21" "get_be32 pvd 162 = 21"
    "get_le16 pvd 128 = 2048" "get_be16 pvd 130 = 2048" "get_le32 pvd 140 = 19" "get_be32 pvd 148 = 20"
  by (simp_all add: pvd_def pvd_writers nth_blit wire_simps)

lemma pvd_texts:
  fixes lbl pvd defines "pvd \<equiv> writePVD lbl 157 (replicate 2048 0)"
  shows "slice 1 6 pvd = go_string ''CD001''" "slice 40 72 pvd = take 32 lbl @ replicate (32 - length lbl) 0x20"
proof -
  have l: "length pvd = 2048" by (simp add: pvd_def)
  show "slice 1 6 pvd = go_string ''CD001''"
  proof (rule nth_equalityI)
    fix i assume "i < length (slice 1 6 pvd)"
    then have "i < 5" using l by simp
    then show "slice 1 6 pvd ! i = go_string ''CD001'' ! i"
      using l by (simp add: pvd_def pvd_writers nth_blit)
  qed (simp add: l)
  show "slice 40 72 pvd = take 32 lbl @ replicate (32 - length lbl) 0x20"
  proof (rule nth_equalityI)
    fix i assume "i < length (slice 40 72 pvd)"
    then have "i < 32" using l by simp
    then show "slice 40 72 pvd ! i = (take 32 lbl @ replicate (32 - length lbl) 0x20) ! i"
      using l by (auto simp: pvd_def pvd_writers nth_blit nth_append)
  qed (simp add: l)
qed

lemma root_lists_readme:
  "map_of (iso_records (writeRootDir (length iso_readme) (replicate sectorSize 0))) (go_string ''README.TXT;1'') = Some (22, 157)"
  using root_records by (simp only: iso_readme_length readme_name_def) (simp add: go_string_def)

text \<open>C37. The test disc is a volume a driver can read, whatever its label: the image has all its sectors;
  the primary descriptor carries the standard's mark, the size of the volume and the label cut or
  padded to its field; numbers stored in both byte orders agree; the descriptor's own root record
  leads to a directory that lists itself, its parent and \<^verbatim>\<open>README.TXT\<close>, and the sectors it gives for the file
  hold the text byte for byte.\<close>

theorem iso_volume_readable:
  "\<exists>img. iso_build lbl = Some img \<and> length img = 25 * 2048
    \<and> (let pvd = iso_sector img 16; root = unat (get_le32 pvd 158)
       in pvd ! 0 = 1 \<and> slice 1 6 pvd = go_string ''CD001'' \<and> unat (get_le32 pvd 80) * 2048 = length img
          \<and> slice 40 72 pvd = take 32 lbl @ replicate (32 - length lbl) 0x20
          \<and> get_le32 pvd 158 = get_be32 pvd 162 \<and> get_le32 pvd 80 = get_be32 pvd 84
          \<and> get_le16 pvd 128 = get_be16 pvd 130 \<and> unat (get_le16 pvd 128) = 2048
          \<and> unat (get_le32 (iso_sector img (unat (get_le32 pvd 140))) 2) = root
          \<and> unat (get_be32 (iso_sector img (unat (get_be32 pvd 148))) 2) = root
          \<and> (case map_of (iso_records (iso_sector img root)) (go_string ''README.TXT;1'') of
               None \<Rightarrow> False
             | Some (extent, n) \<Rightarrow> slice (extent * 2048) (extent * 2048 + n) img = iso_readme))"
proof -
  obtain img boot where b: "iso_build lbl = Some img" "length img = iso_totalSectors * sectorSize"
    "iso_sector img lbaPVD = writePVD lbl (length iso_readme) (replicate sectorSize 0)"
    "iso_sector img lbaPathL = writePathTable False (replicate sectorSize 0)"
    "iso_sector img lbaPathM = writePathTable True (replicate sectorSize 0)"
    "iso_sector img lbaRootDir = writeRootDir (length iso_readme) (replicate sectorSize 0)"
    "iso_sector img lbaReadme = blit 0 iso_readme (replicate sectorSize 0)"
    by (rule iso_build_sectors [of lbl])
  have "slice (22 * 2048) (22 * 2048 + 157) img = slice 0 157 (iso_sector img 22)"
    by (simp add: iso_sector_def slice_def sectorSize_def)
  also have "\<dots> = iso_readme"
    using slice_blit_same [of 0 iso_readme "replicate sectorSize 0"] b(7)
    by (simp add: lbaReadme_def sectorSize_def iso_readme_length)
  finally have body: "slice (22 * 2048) (22 * 2048 + 157) img = iso_readme" .
  have p: "iso_sector img 16 = writePVD lbl 157 (replicate 2048 0)"
    using b(3) by (simp add: lbaPVD_def sectorSize_def iso_readme_length)
  have "get_le32 (iso_sector img 19) 2 = 21" "get_be32 (iso_sector img 20) 2 = 21"
    using b(4,5) by (simp_all add: iso_layout writePathTable_def Let_def wire_simps)
  moreover have "map_of (iso_records (iso_sector img 21)) (go_string ''README.TXT;1'') = Some (22, 157)"
    using b(6) root_lists_readme by (simp only: lbaRootDir_def)
  ultimately show ?thesis
    using b(1,2) body
    by (intro exI [of _ img]) (simp add: iso_totalSectors_def sectorSize_def p pvd_numbers pvd_texts [unfolded One_nat_def])
qed

lemma get_le16_take: "i + 2 \<le> n \<Longrightarrow> get_le16 (take n b) i = get_le16 b i"
  by (simp add: get_le16_def)

lemma word_sum_eq:
  "word_sum (take 32 b) = get_le16 b 0 + get_le16 b 2 + get_le16 b 4 + get_le16 b 6 + get_le16 b 8 + get_le16 b 10
     + get_le16 b 12 + get_le16 b 14 + get_le16 b 16 + get_le16 b 18 + get_le16 b 20 + get_le16 b 22 + get_le16 b 24
     + get_le16 b 26 + get_le16 b 28 + get_le16 b 30"
proof -
  have u: "[0 ..< 16] = [0, 1, 2, 3, 4, 5, 6, 7, 8, 9, 10, 11, 12, 13, 14, 15 :: nat]" by (simp add: upt_rec)
  show ?thesis unfolding word_sum_def u by (simp add: get_le16_take)
qed

lemma catalog_sum: "word_sum (take 32 (writeBootCatalog (replicate 2048 0))) = 0"
proof -
  define v where "v = (replicate 2048 0)[0 := 1, 1 := 0, 30 := 0x55, 31 := (0xAA :: u8)]"
  define s where "s = word_sum (take 32 v)"
  have v: "get_le16 v 0 = 1" "get_le16 v 30 = 0xAA55" and
    v0: "get_le16 v 28 = 0" by (simp_all add: v_def get_le16_def)
  have "writeBootCatalog (replicate 2048 0)
      = blit 40 (le32 (of_nat lbaBootImg)) (blit 38 (le16 4) ((blit 34 (le16 0) ((blit 28 (le16 (- s)) v)[32 := 0x88, 33 := 0]))[36 := 0]))"
    by (simp add: writeBootCatalog_def Let_def s_def v_def)
  moreover have "length v = 2048" by (simp add: v_def)
  ultimately have "word_sum (take 32 (writeBootCatalog (replicate 2048 0))) = word_sum (take 32 (blit 28 (le16 (- s)) v))"
    unfolding word_sum_eq by (simp add: wire_simps)
  also have "\<dots> = s - get_le16 v 28 + - s"
    using \<open>length v = 2048\<close> unfolding s_def word_sum_eq by (simp add: wire_simps)
  finally show ?thesis using v0 by simp
qed

text \<open>The test disc boots as El Torito defines: the boot record names the standard and leads to a catalog
  whose validation entry sums to zero, with the key bytes in place; its default entry is bootable,
  without emulation, and loads four sectors of 512 bytes, all of the disc sector it points to; that sector
  starts with the boot sector and its signature.\<close>

theorem iso_boots:
  "\<exists>img boot. iso_build lbl = Some img \<and> bootSector = Some boot
    \<and> (let rec = iso_sector img 17; cat = iso_sector img (unat (get_le32 rec 71)); sec = iso_sector img (unat (get_le32 cat 40))
       in rec ! 0 = 0 \<and> slice 1 6 rec = go_string ''CD001'' \<and> slice 7 30 rec = go_string ''EL TORITO SPECIFICATION''
          \<and> slice 30 71 rec = replicate 41 0
          \<and> word_sum (take 32 cat) = 0 \<and> cat ! 0 = 1 \<and> cat ! 30 = 0x55 \<and> cat ! 31 = 0xAA
          \<and> cat ! 32 = 0x88 \<and> cat ! 33 = 0 \<and> unat (get_le16 cat 38) * 512 = sectorSize
          \<and> take 512 sec = boot \<and> boot ! 510 = 0x55 \<and> boot ! 511 = 0xAA)"
proof -
  obtain img boot where b: "iso_build lbl = Some img" "bootSector = Some boot"
    "iso_sector img lbaBootRecord = writeBootRecord (replicate sectorSize 0)"
    "iso_sector img lbaBootCat = writeBootCatalog (replicate sectorSize 0)"
    "iso_sector img lbaBootImg = blit 0 boot (replicate sectorSize 0)"
    by (rule iso_build_sectors [of lbl])
  define rec cat where "rec = iso_sector img 17" and "cat = iso_sector img 23"
  have r: "rec = writeBootRecord (replicate 2048 0)" and c: "cat = writeBootCatalog (replicate 2048 0)"
    using b(3,4) by (simp_all add: rec_def cat_def iso_layout)
  have l: "length rec = 2048" by (simp add: r)
  note defs = writeBootRecord_def Let_def padStr_def fill_def cd001_def el_torito_def iso_layout
  have rf: "rec ! 0 = 0" "get_le32 rec 71 = 23" by (simp_all add: r defs nth_blit wire_simps)
  have "slice 1 6 rec = go_string ''CD001''"
  proof (rule nth_equalityI)
    fix i assume "i < length (slice 1 6 rec)"
    then have "i < 5" using l by simp
    then show "slice 1 6 rec ! i = go_string ''CD001'' ! i"
      using l by (simp add: r defs nth_blit)
  qed (simp add: l)
  moreover have "slice 7 30 rec = go_string ''EL TORITO SPECIFICATION''"
  proof (rule nth_equalityI)
    fix i assume "i < length (slice 7 30 rec)"
    then have "i < 23" using l by simp
    then show "slice 7 30 rec ! i = go_string ''EL TORITO SPECIFICATION'' ! i"
      using l by (simp add: r defs nth_blit)
  qed (simp add: l)
  moreover have "slice 30 71 rec = replicate 41 0"
  proof (rule nth_equalityI)
    fix i assume "i < length (slice 30 71 rec)"
    then have "i < 41" using l by simp
    then show "slice 30 71 rec ! i = replicate 41 0 ! i"
      using l by (simp add: r defs nth_blit)
  qed (simp add: l)
  moreover have "cat ! 0 = 1" "cat ! 30 = 0x55" "cat ! 31 = 0xAA" "cat ! 32 = 0x88" "cat ! 33 = 0"
    "get_le16 cat 38 = 4" "get_le32 cat 40 = 24"
    by (simp_all add: c writeBootCatalog_def Let_def nth_blit wire_simps lbaBootImg_def)
  moreover have "word_sum (take 32 cat) = 0" unfolding c by (rule catalog_sum)
  moreover have "take 512 (iso_sector img 24) = boot" "boot ! 510 = 0x55" "boot ! 511 = 0xAA"
  proof -
    have l: "length boot = 512" "boot ! 510 = 0x55" "boot ! 511 = 0xAA" using boot_sector unfolding b(2) by simp_all
    have "take 512 (blit 0 boot z) = boot" if "512 \<le> length z" for z
      using l(1) that by (simp add: blit_def)
    then show "take 512 (iso_sector img 24) = boot" using b(5) by (simp add: lbaBootImg_def sectorSize_def)
    show "boot ! 510 = 0x55" "boot ! 511 = 0xAA" by (rule l)+
  qed
  ultimately show ?thesis
    using b(1,2) rf unfolding rec_def cat_def
    by (intro exI [of _ img] exI [of _ boot]) (simp add: sectorSize_def)
qed

section \<open>What the boot sector does\<close>

text \<open>
  The instructions the boot sector is assembled from, as the listing in the source names them, in real
  mode with the sector loaded at 0x7C00: the registers it uses, the characters the BIOS call prints, and
  whether the processor has halted. Anything else is no step.
\<close>

record cpu =
  ip :: nat
  ah :: u8
  al :: u8
  bx :: u16
  si :: u16
  ds :: u16
  zf :: bool
  printed :: bytes
  halted :: bool

definition load_addr :: nat where "load_addr = 0x7C00"

definition mem_at :: "bytes \<Rightarrow> nat \<Rightarrow> u8 option" where
  "mem_at sec a = (if load_addr \<le> a \<and> a < load_addr + length sec then Some (sec ! (a - load_addr)) else None)"

definition jump :: "u8 \<Rightarrow> cpu \<Rightarrow> cpu" where
  "jump d s = s\<lparr>ip := nat (int (ip s) + 2 + sint d)\<rparr>"

definition cpu_exec :: "bytes \<Rightarrow> u8 \<Rightarrow> u8 \<Rightarrow> u8 \<Rightarrow> cpu \<Rightarrow> cpu option" where
  "cpu_exec sec op a b s =
     (if op = 0xFA then Some (s\<lparr>ip := ip s + 1\<rparr>)
      else if op = 0x31 \<and> a = 0xC0 then Some (s\<lparr>ip := ip s + 2, ah := 0, al := 0, zf := True\<rparr>)
      else if op = 0x8E \<and> a = 0xD8 then Some (s\<lparr>ip := ip s + 2, ds := ucast (al s) OR push_bit 8 (ucast (ah s))\<rparr>)
      else if op = 0xBB then Some (s\<lparr>ip := ip s + 3, bx := ucast a OR push_bit 8 (ucast b)\<rparr>)
      else if op = 0xBE then Some (s\<lparr>ip := ip s + 3, si := ucast a OR push_bit 8 (ucast b)\<rparr>)
      else if op = 0xAC then
        (case mem_at sec (16 * unat (ds s) + unat (si s)) of
           None \<Rightarrow> None
         | Some c \<Rightarrow> Some (s\<lparr>ip := ip s + 1, al := c, si := si s + 1\<rparr>))
      else if op = 0x84 \<and> a = 0xC0 then Some (s\<lparr>ip := ip s + 2, zf := (al s = 0)\<rparr>)
      else if op = 0x74 then Some (if zf s then jump a s else s\<lparr>ip := ip s + 2\<rparr>)
      else if op = 0xB4 then Some (s\<lparr>ip := ip s + 2, ah := a\<rparr>)
      else if op = 0xCD \<and> a = 0x10 \<and> ah s = 0x0E then Some (s\<lparr>ip := ip s + 2, printed := printed s @ [al s]\<rparr>)
      else if op = 0xEB then Some (jump a s)
      else if op = 0xF4 then Some (s\<lparr>halted := True\<rparr>)
      else None)"

definition cpu_step :: "bytes \<Rightarrow> cpu \<Rightarrow> cpu option" where
  "cpu_step sec s =
     (case (mem_at sec (ip s), mem_at sec (ip s + 1), mem_at sec (ip s + 2)) of
        (Some op, Some a, Some b) \<Rightarrow> cpu_exec sec op a b s
      | _ \<Rightarrow> None)"

fun cpu_run :: "bytes \<Rightarrow> nat \<Rightarrow> cpu \<Rightarrow> cpu option" where
  "cpu_run sec 0 s = Some s"
| "cpu_run sec (Suc n) s = (if halted s then Some s else case cpu_step sec s of None \<Rightarrow> None | Some s' \<Rightarrow> cpu_run sec n s')"

lemma cpu_run_add: "cpu_run sec m s = Some s' \<Longrightarrow> cpu_run sec (m + n) s = cpu_run sec n s'"
proof (induction m arbitrary: s)
  case (Suc m)
  show ?case
  proof (cases "halted s")
    case True
    with Suc.prems show ?thesis by (cases n) simp_all
  next
    case False
    with Suc show ?thesis by (auto split: option.splits)
  qed
qed simp

definition the_boot :: bytes where
  "the_boot = boot_code @ boot_banner @ [0]"

lemma bootSector_layout: "\<exists>z. bootSector = Some (the_boot @ z)"
proof -
  have "length boot_code = 25" "length (boot_banner @ [0]) = 35"
    by (simp_all add: boot_code_def msgOff_def boot_banner_def)
  then show ?thesis
    by (intro exI [of _ "(replicate 452 0)[450 := 0x55, 451 := 0xAA]"])
      (simp add: bootSector_def msgOff_def the_boot_def blit_def list_update_append)
qed

lemma boot_code_list:
  "boot_code = [0xFA, 0x31, 0xC0, 0x8E, 0xD8, 0xBB, 0x07, 0x00, 0xBE, 0x19, 0x7C, 0xAC, 0x84, 0xC0, 0x74, 0x06,
     0xB4, 0x0E, 0xCD, 0x10, 0xEB, 0xF5, 0xF4, 0xEB, 0xFD]"
  by (simp add: boot_code_def msgOff_def)

lemma mem_boot:
  "j < 25 + length m \<Longrightarrow> mem_at (boot_code @ m) (0x7C00 + j) = Some ((boot_code @ m) ! j)"
  by (simp add: mem_at_def load_addr_def boot_code_list)

lemma boot_step:
  assumes "ip s = 0x7C00 + j" "j < 25" "2 \<le> length m"
  shows "cpu_step (boot_code @ m) s
     = cpu_exec (boot_code @ m) ((boot_code @ m) ! j) ((boot_code @ m) ! (j + 1)) ((boot_code @ m) ! (j + 2)) s"
proof -
  have "mem_at (boot_code @ m) (ip s) = Some ((boot_code @ m) ! j)"
    "mem_at (boot_code @ m) (ip s + 1) = Some ((boot_code @ m) ! (j + 1))"
    "mem_at (boot_code @ m) (ip s + 2) = Some ((boot_code @ m) ! (j + 2))"
    using mem_boot [of j m] mem_boot [of "j + 1" m] mem_boot [of "j + 2" m] assms by (simp_all add: add.assoc)
  then show ?thesis by (simp add: cpu_step_def)
qed

definition at_code :: "nat \<Rightarrow> cpu \<Rightarrow> bool" where
  "at_code j s = (ip s = 0x7C00 + j)"

lemma boot_instructions:
  assumes "c = boot_code @ m"
  shows "cpu_exec c (c ! 0) (c ! 1) (c ! 2) s = Some (s\<lparr>ip := ip s + 1\<rparr>)"
    "cpu_exec c (c ! 1) (c ! 2) (c ! 3) s = Some (s\<lparr>ip := ip s + 2, ah := 0, al := 0, zf := True\<rparr>)"
    "cpu_exec c (c ! 3) (c ! 4) (c ! 5) s = Some (s\<lparr>ip := ip s + 2, ds := ucast (al s) OR push_bit 8 (ucast (ah s))\<rparr>)"
    "cpu_exec c (c ! 5) (c ! 6) (c ! 7) s = Some (s\<lparr>ip := ip s + 3, bx := 7\<rparr>)"
    "cpu_exec c (c ! 8) (c ! 9) (c ! 10) s = Some (s\<lparr>ip := ip s + 3, si := 0x7C19\<rparr>)"
    "cpu_exec c (c ! 11) (c ! 12) (c ! 13) s = map_option (\<lambda>x. s\<lparr>ip := ip s + 1, al := x, si := si s + 1\<rparr>)
        (mem_at c (16 * unat (ds s) + unat (si s)))"
    "cpu_exec c (c ! 12) (c ! 13) (c ! 14) s = Some (s\<lparr>ip := ip s + 2, zf := (al s = 0)\<rparr>)"
    "ip s = 0x7C0E \<Longrightarrow> cpu_exec c (c ! 14) (c ! 15) (c ! 16) s = Some (s\<lparr>ip := if zf s then 0x7C16 else 0x7C10\<rparr>)"
    "cpu_exec c (c ! 16) (c ! 17) (c ! 18) s = Some (s\<lparr>ip := ip s + 2, ah := 0x0E\<rparr>)"
    "ah s = 0x0E \<Longrightarrow> cpu_exec c (c ! 18) (c ! 19) (c ! 20) s = Some (s\<lparr>ip := ip s + 2, printed := printed s @ [al s]\<rparr>)"
    "ip s = 0x7C14 \<Longrightarrow> cpu_exec c (c ! 20) (c ! 21) (c ! 22) s = Some (s\<lparr>ip := 0x7C0B\<rparr>)"
    "cpu_exec c (c ! 22) (c ! 23) (c ! 24) s = Some (s\<lparr>halted := True\<rparr>)"
proof -
  have nth: "c ! 0 = 0xFA" "c ! Suc 0 = 0x31" "c ! 1 = 0x31" "c ! 2 = 0xC0" "c ! 3 = 0x8E" "c ! 4 = 0xD8" "c ! 5 = 0xBB"
    "c ! 6 = 0x07" "c ! 7 = 0x00" "c ! 8 = 0xBE" "c ! 9 = 0x19" "c ! 10 = 0x7C" "c ! 11 = 0xAC" "c ! 12 = 0x84"
    "c ! 13 = 0xC0" "c ! 14 = 0x74" "c ! 15 = 0x06" "c ! 16 = 0xB4" "c ! 17 = 0x0E" "c ! 18 = 0xCD"
    "c ! 19 = 0x10" "c ! 20 = 0xEB" "c ! 21 = 0xF5" "c ! 22 = 0xF4" "c ! 23 = 0xEB" "c ! 24 = 0xFD"
    by (simp_all add: assms boot_code_list)
  show "cpu_exec c (c ! 0) (c ! 1) (c ! 2) s = Some (s\<lparr>ip := ip s + 1\<rparr>)"
    "cpu_exec c (c ! 1) (c ! 2) (c ! 3) s = Some (s\<lparr>ip := ip s + 2, ah := 0, al := 0, zf := True\<rparr>)"
    "cpu_exec c (c ! 3) (c ! 4) (c ! 5) s = Some (s\<lparr>ip := ip s + 2, ds := ucast (al s) OR push_bit 8 (ucast (ah s))\<rparr>)"
    "cpu_exec c (c ! 5) (c ! 6) (c ! 7) s = Some (s\<lparr>ip := ip s + 3, bx := 7\<rparr>)"
    "cpu_exec c (c ! 8) (c ! 9) (c ! 10) s = Some (s\<lparr>ip := ip s + 3, si := 0x7C19\<rparr>)"
    "cpu_exec c (c ! 11) (c ! 12) (c ! 13) s = map_option (\<lambda>x. s\<lparr>ip := ip s + 1, al := x, si := si s + 1\<rparr>)
        (mem_at c (16 * unat (ds s) + unat (si s)))"
    "cpu_exec c (c ! 12) (c ! 13) (c ! 14) s = Some (s\<lparr>ip := ip s + 2, zf := (al s = 0)\<rparr>)"
    "ip s = 0x7C0E \<Longrightarrow> cpu_exec c (c ! 14) (c ! 15) (c ! 16) s = Some (s\<lparr>ip := if zf s then 0x7C16 else 0x7C10\<rparr>)"
    "cpu_exec c (c ! 16) (c ! 17) (c ! 18) s = Some (s\<lparr>ip := ip s + 2, ah := 0x0E\<rparr>)"
    "ah s = 0x0E \<Longrightarrow> cpu_exec c (c ! 18) (c ! 19) (c ! 20) s = Some (s\<lparr>ip := ip s + 2, printed := printed s @ [al s]\<rparr>)"
    "ip s = 0x7C14 \<Longrightarrow> cpu_exec c (c ! 20) (c ! 21) (c ! 22) s = Some (s\<lparr>ip := 0x7C0B\<rparr>)"
    "cpu_exec c (c ! 22) (c ! 23) (c ! 24) s = Some (s\<lparr>halted := True\<rparr>)"
    by (simp_all add: nth cpu_exec_def jump_def map_option_case split: option.split)
qed

lemma boot_at:
  assumes "ip s = 0x7C00 + j" "j < 25" "2 \<le> length m" "c = boot_code @ m" "\<not> halted s"
    and "cpu_exec c (c ! j) (c ! (j + 1)) (c ! (j + 2)) s = Some s'"
  shows "cpu_run c (Suc n) s = cpu_run c n s'"
  using boot_step [OF assms(1-3)] assms(4-6) by simp

lemma boot_starts:
  assumes "ip s = 0x7C00" "\<not> halted s" "printed s = []" "2 \<le> length m" "c = boot_code @ m"
  shows "\<exists>s'. cpu_run c 5 s = Some s' \<and> ip s' = 0x7C0B \<and> si s' = 0x7C19 \<and> ds s' = 0 \<and> printed s' = [] \<and> \<not> halted s'"
proof -
  note i = boot_instructions [OF assms(5)] and run = boot_at [OF _ _ assms(4,5)]
  let ?s1 = "s\<lparr>ip := 0x7C01\<rparr>" and ?s2 = "s\<lparr>ip := 0x7C03, ah := 0, al := 0, zf := True\<rparr>"
  let ?s3 = "?s2\<lparr>ip := 0x7C05, ds := 0\<rparr>"
  let ?s4 = "?s3\<lparr>ip := 0x7C08, bx := 7\<rparr>" and ?s5 = "?s3\<lparr>ip := 0x7C0B, bx := 7, si := 0x7C19\<rparr>"
  have "cpu_run c (Suc 4) s = cpu_run c 4 ?s1" using i(1) [of s] assms by (intro run [of _ 0]) (simp_all add: numeral_2_eq_2)
  also have "cpu_run c 4 ?s1 = cpu_run c (Suc 3) ?s1" by simp
  also have "\<dots> = cpu_run c 3 ?s2" using i(2) [of ?s1] assms by (intro run [of _ 1]) (simp_all add: numeral_2_eq_2 numeral_3_eq_3)
  also have "cpu_run c 3 ?s2 = cpu_run c (Suc 2) ?s2" by (simp only: numeral_3_eq_3 numeral_2_eq_2)
  also have "\<dots> = cpu_run c 2 ?s3" using i(3) [of ?s2] assms by (intro run [of _ 3]) simp_all
  also have "cpu_run c 2 ?s3 = cpu_run c (Suc 1) ?s3" by (simp only: numeral_2_eq_2 One_nat_def)
  also have "\<dots> = cpu_run c 1 ?s4" using i(4) [of ?s3] assms by (intro run [of _ 5]) simp_all
  also have "cpu_run c 1 ?s4 = cpu_run c (Suc 0) ?s4" by (simp only: One_nat_def)
  also have "\<dots> = cpu_run c 0 ?s5" using i(5) [of ?s4] assms by (intro run [of _ 8]) simp_all
  finally have "cpu_run c (Suc 4) s = Some ?s5" by simp
  moreover have "(5 :: nat) = Suc 4" by simp
  ultimately have "cpu_run c 5 s = Some ?s5" by (simp only:)
  then show ?thesis using assms(2,3) by simp
qed

lemma boot_prints_one:
  assumes "ip s = 0x7C0B" "\<not> halted s" "ds s = 0" "2 \<le> length m" "c = boot_code @ m"
    and "mem_at c (unat (si s)) = Some x"
  shows "x \<noteq> 0 \<Longrightarrow> \<exists>s'. cpu_run c 6 s = Some s' \<and> ip s' = 0x7C0B \<and> si s' = si s + 1 \<and> ds s' = 0
      \<and> printed s' = printed s @ [x] \<and> \<not> halted s'"
    and "x = 0 \<Longrightarrow> \<exists>s'. cpu_run c 4 s = Some s' \<and> printed s' = printed s \<and> halted s'"
proof -
  note i = boot_instructions [OF assms(5)] and run = boot_at [OF _ _ assms(4,5)]
  let ?s1 = "s\<lparr>ip := 0x7C0C, al := x, si := si s + 1\<rparr>"
  let ?s2 = "?s1\<lparr>ip := 0x7C0E, zf := (x = 0)\<rparr>"
  have r1: "cpu_run c (Suc n) s = cpu_run c n ?s1" for n using i(6) [of s] assms by (intro run [of _ 11]) simp_all
  have r2: "cpu_run c (Suc n) ?s1 = cpu_run c n ?s2" for n using i(7) [of ?s1] assms by (intro run [of _ 12]) simp_all
  { assume "x \<noteq> 0"
    let ?s3 = "?s2\<lparr>ip := 0x7C10\<rparr>" and ?s4 = "?s2\<lparr>ip := 0x7C12, ah := 0x0E\<rparr>"
    let ?s5 = "?s4\<lparr>ip := 0x7C14, printed := printed s @ [x]\<rparr>"
    let ?s6 = "?s5\<lparr>ip := 0x7C0B\<rparr>"
    have r3: "cpu_run c (Suc n) ?s2 = cpu_run c n ?s3" for n
      using i(8) [of ?s2] assms \<open>x \<noteq> 0\<close> by (intro run [of _ 14]) simp_all
    moreover have "cpu_run c (Suc n) ?s3 = cpu_run c n ?s4" for n using i(9) [of ?s3] assms by (intro run [of _ 16]) simp_all
    moreover have "cpu_run c (Suc n) ?s4 = cpu_run c n ?s5" for n using i(10) [of ?s4] assms by (intro run [of _ 18]) simp_all
    moreover have "cpu_run c (Suc n) ?s5 = cpu_run c n ?s6" for n using i(11) [of ?s5] assms by (intro run [of _ 20]) simp_all
    moreover have "(6 :: nat) = Suc (Suc (Suc (Suc (Suc (Suc 0)))))" by simp
    ultimately have "cpu_run c 6 s = cpu_run c 0 ?s6"
      by (simp only: r1 r2)
    then show "\<exists>s'. cpu_run c 6 s = Some s' \<and> ip s' = 0x7C0B \<and> si s' = si s + 1 \<and> ds s' = 0
        \<and> printed s' = printed s @ [x] \<and> \<not> halted s'"
      using assms(2,3) by simp }
  { assume "x = 0"
    let ?s3 = "?s2\<lparr>ip := 0x7C16\<rparr>"
    have r3: "cpu_run c (Suc n) ?s2 = cpu_run c n ?s3" for n
      using i(8) [of ?s2] assms \<open>x = 0\<close> by (intro run [of _ 14]) simp_all
    have "cpu_run c (Suc n) ?s3 = cpu_run c n (?s3\<lparr>halted := True\<rparr>)" for n
      using i(12) [of ?s3] assms by (intro run [of _ 22]) simp_all
    moreover have "(4 :: nat) = Suc (Suc (Suc (Suc 0)))" by simp
    ultimately have "cpu_run c 4 s = cpu_run c 0 (?s3\<lparr>halted := True\<rparr>)"
      by (simp only: r1 r2 r3)
    then show "\<exists>s'. cpu_run c 4 s = Some s' \<and> printed s' = printed s \<and> halted s'"
      by simp }
qed

lemma boot_prints_rest:
  assumes "m = before @ str @ 0 # z" "0 \<notin> set str" "length m < 0x1000" "2 \<le> length m" "c = boot_code @ m"
    and "ip s = 0x7C0B" "\<not> halted s" "ds s = 0" "unat (si s) = 0x7C19 + length before"
  shows "\<exists>n s'. cpu_run c n s = Some s' \<and> printed s' = printed s @ str \<and> halted s'"
  using assms
proof (induction str arbitrary: before s)
  case Nil
  have "mem_at c (unat (si s)) = Some (m ! length before)"
    using mem_boot [of "25 + length before" m] Nil.prems by (simp add: nth_append boot_code_list)
  then have "mem_at c (unat (si s)) = Some 0" using Nil.prems(1) by simp
  from boot_prints_one(2) [OF Nil.prems(6-8) Nil.prems(4,5) this] show ?case by auto
next
  case (Cons x str)
  have "mem_at c (unat (si s)) = Some (m ! length before)"
    using mem_boot [of "25 + length before" m] Cons.prems by (simp add: nth_append boot_code_list)
  then have x: "mem_at c (unat (si s)) = Some x" using Cons.prems(1) by simp
  have "x \<noteq> 0" using Cons.prems(2) by auto
  from boot_prints_one(1) [OF Cons.prems(6-8) Cons.prems(4,5) x this]
  obtain s1 where s1: "cpu_run c 6 s = Some s1" "ip s1 = 0x7C0B" "si s1 = si s + 1" "ds s1 = 0"
    "printed s1 = printed s @ [x]" "\<not> halted s1" by blast
  have "unat (si s1) = 0x7C19 + length (before @ [x])"
    using Cons.prems(1,3,9) by (simp add: s1(3) unat_word_ariths)
  with Cons.IH [of "before @ [x]" s1] Cons.prems s1 obtain n s' where
    "cpu_run c n s1 = Some s'" "printed s' = printed s1 @ str" "halted s'" by auto
  with cpu_run_add [OF s1(1), of n] s1(5) show ?case by auto
qed

text \<open>C38. The boot sector shows that the disc has booted: from the sector at its load address, with any contents
  of the registers and nothing printed yet, the processor prints exactly the banner and a line break through
  the BIOS and then halts, without executing anything that is not an instruction of the listing.\<close>

theorem boot_prints_banner:
  assumes "bootSector = Some sec" "ip s = load_addr" "\<not> halted s" "printed s = []"
  shows "\<exists>n s'. cpu_run sec n s = Some s' \<and> halted s' \<and> printed s' = go_string ''RD450X vmedia test ISO booted OK'' @ [13, 10]"
proof -
  obtain z where z: "sec = the_boot @ z" "length sec = 512" 
    using bootSector_layout boot_sector unfolding assms(1) by auto
  define m where "m = boot_banner @ 0 # z"
  have c: "sec = boot_code @ m" by (simp add: z m_def the_boot_def)
  have l: "2 \<le> length m" "length m < 0x1000" using c z(2) by (simp_all add: m_def boot_banner_def)
  have nz: "0 \<notin> set boot_banner" by (simp add: boot_banner_def go_string_def)
  from boot_starts [OF assms(2) [unfolded load_addr_def] assms(3,4) l(1) c]
  obtain s1 where s1: "cpu_run sec 5 s = Some s1" "ip s1 = 0x7C0B" "si s1 = 0x7C19" "ds s1 = 0" "printed s1 = []"
    "\<not> halted s1" by blast
  have "m = [] @ boot_banner @ 0 # z" "unat (si s1) = 0x7C19 + length ([] :: bytes)" by (simp_all add: m_def s1)
  from boot_prints_rest [OF this(1) nz l(2,1) c s1(2,6,4) this(2)] obtain n s' where
    "cpu_run sec n s1 = Some s'" "printed s' = boot_banner" "halted s'" using s1(5) by auto
  with cpu_run_add [OF s1(1), of n] show ?thesis by (auto simp: boot_banner_def)
qed

lemma boot_prints_banner_witness:
  "\<exists>sec n s'. bootSector = Some sec
     \<and> cpu_run sec n \<lparr>ip = 0x7C00, ah = 3, al = 9, bx = 1, si = 2, ds = 5, zf = False, printed = [], halted = False\<rparr> = Some s'
     \<and> halted s' \<and> length (printed s') = 34"
proof -
  obtain z where "bootSector = Some (the_boot @ z)" using bootSector_layout by blast
  from this boot_prints_banner [OF this, of "\<lparr>ip = 0x7C00, ah = 3, al = 9, bx = 1, si = 2, ds = 5, zf = False,
      printed = [], halted = False\<rparr>"]
  show ?thesis by (force simp: load_addr_def)
qed

end
