(* ===== verification/Mkbench.thy ===== *)
theory Mkbench
  imports GoStrings
begin

text \<open>
  The builder of benchmark images (\<^verbatim>\<open>scripts/mkbench_go\<close>): parsing of the size, filling with zeros or random
  bytes, and the loop that writes the image in chunks. The generator is a parameter.
\<close>

section \<open>Sizes\<close>

definition size_units :: "(bytes \<times> int) list" where
  "size_units =
     [(go_string ''GIB'', 2 ^ 30), (go_string ''MIB'', 2 ^ 20), (go_string ''KIB'', 2 ^ 10),
      (go_string ''GB'', 1000 * 1000 * 1000), (go_string ''MB'', 1000 * 1000), (go_string ''KB'', 1000),
      (go_string ''B'', 1)]"

definition HasSuffix :: "bytes \<Rightarrow> bytes \<Rightarrow> bool" where
  "HasSuffix s suffix = (length suffix \<le> length s \<and> drop (length s - length suffix) s = suffix)"

text \<open>
  \<^verbatim>\<open>Sscanf\<close> with \<^verbatim>\<open>%d\<close> on a trimmed string: a sign and the digits that follow, which must be an
  integer of 64 bits; what comes after them is not looked at.
\<close>

definition scan_token :: "bytes \<Rightarrow> bytes" where
  "scan_token s =
     (case s of
        [] \<Rightarrow> []
      | c # cs \<Rightarrow> if c = 0x2B \<or> c = 0x2D then c # takeWhile is_digit cs else takeWhile is_digit s)"

definition Sscanf_d :: "bytes \<Rightarrow> int option" where
  "Sscanf_d s = Atoi (scan_token s)"

text \<open>The product wraps at 64 bits. Units are ASCII, and so is the size.\<close>

definition parseSize :: "bytes \<Rightarrow> int option" where
  "parseSize s =
     (let s = TrimSpace s
      in if s = [] then None
         else let (suffix, mult) = (case find (\<lambda>u. HasSuffix (ToUpper s) (fst u)) size_units of
                                      None \<Rightarrow> ([], 1) | Some u \<Rightarrow> u);
                  numStr = take (length s - length suffix) s
              in map_option (\<lambda>n. sint (word_of_int (n * mult) :: u64)) (Sscanf_d (TrimSpace numStr)))"

section \<open>Contents\<close>

text \<open>
  \<open>rng\<close> is the generator of the library: \<open>fst rng\<close> draws 64 bits, \<open>snd rng\<close> draws 32. A filler takes the length
  of the buffer and the generator's state.
\<close>

definition le64 :: "u64 \<Rightarrow> bytes" where
  "le64 v = map (\<lambda>k. ucast (drop_bit (8 * k) v)) [0..<8]"

fun fill_tail :: "('g \<Rightarrow> u32 \<times> 'g) \<Rightarrow> nat \<Rightarrow> 'g \<Rightarrow> bytes \<times> 'g" where
  "fill_tail next32 0 g = ([], g)"
| "fill_tail next32 (Suc n) g =
     (let (v, g) = next32 g; (b, g) = fill_tail next32 n g in (ucast v # b, g))"

fun fill_random :: "('g \<Rightarrow> u64 \<times> 'g) \<times> ('g \<Rightarrow> u32 \<times> 'g) \<Rightarrow> nat \<Rightarrow> 'g \<Rightarrow> bytes \<times> 'g" where
  "fill_random rng n g =
     (if 8 \<le> n then let (v, g) = fst rng g; (b, g) = fill_random rng (n - 8) g in (le64 v @ b, g)
      else fill_tail (snd rng) n g)"

declare fill_random.simps [simp del]

definition fill_zero :: "nat \<Rightarrow> 'g \<Rightarrow> bytes \<times> 'g" where
  "fill_zero n g = (replicate n 0, g)"

definition chunkSize :: nat where "chunkSize = 2 ^ 20"

text \<open>The file after the loop, and whether every write went through; \<open>wr k\<close> says whether the \<open>k\<close>-th does.\<close>

function write_chunks :: "(nat \<Rightarrow> 'g \<Rightarrow> bytes \<times> 'g) \<Rightarrow> (nat \<Rightarrow> bool) \<Rightarrow> nat \<Rightarrow> nat \<Rightarrow> 'g \<Rightarrow> bytes \<times> bool" where
  "write_chunks fl wr k remaining g =
     (if remaining = 0 then ([], True)
      else let n = min chunkSize remaining; (b, g) = fl n g
           in if \<not> wr k then ([], False)
              else let (r, ok) = write_chunks fl wr (Suc k) (remaining - n) g in (b @ r, ok))"
  by pat_completeness auto
termination
  by (relation "measure (\<lambda>(fl, wr, k, n, g). n)") (auto simp: chunkSize_def)

declare write_chunks.simps [simp del]

datatype bench_outcome =
    BadSize
  | SizeNotPositive
  | UnknownMode
  | CreateFailed
  | WriteFailed bytes
  | CloseFailed
  | Wrote bytes

definition mkbench ::
  "('g \<Rightarrow> u64 \<times> 'g) \<times> ('g \<Rightarrow> u32 \<times> 'g) \<Rightarrow> 'g \<Rightarrow> (nat \<Rightarrow> bool) \<Rightarrow> bool \<Rightarrow> bool
     \<Rightarrow> bytes \<Rightarrow> string \<Rightarrow> bench_outcome" where
  "mkbench rng seed wr create_ok close_ok sizeStr mode =
     (case parseSize sizeStr of
        None \<Rightarrow> BadSize
      | Some n \<Rightarrow>
          if n \<le> 0 then SizeNotPositive
          else if mode \<noteq> ''zero'' \<and> mode \<noteq> ''random'' then UnknownMode
          else if \<not> create_ok then CreateFailed
          else let (b, ok) = write_chunks (if mode = ''zero'' then fill_zero else fill_random rng) wr 0 (nat n) seed
               in if \<not> ok then WriteFailed b else if \<not> close_ok then CloseFailed else Wrote b)"

section \<open>The chunks do not show\<close>

lemma fill_random_split:
  "fill_random rng (8 * m + n) g =
     (let (a, g) = fill_random rng (8 * m) g; (b, g) = fill_random rng n g in (a @ b, g))"
proof (induction m arbitrary: g)
  case 0
  then show ?case by (simp add: fill_random.simps [of rng 0] case_prod_unfold)
next
  case (Suc m)
  then show ?case
    by (subst (1 2) fill_random.simps) (simp add: Let_def case_prod_unfold)
qed

lemma write_chunks_whole:
  assumes "\<And>m n g. fl (chunkSize + n) g = (let (a, g) = fl chunkSize g; (b, g) = fl n g in (a @ b, g))"
    and "\<And>g. fst (fl 0 g) = []"
  shows "write_chunks fl (\<lambda>_. True) k n g = (fst (fl n g), True)"
proof (induction n arbitrary: k g rule: less_induct)
  case (less n)
  show ?case
  proof (cases "n \<le> chunkSize")
    case True
    then show ?thesis
      using assms(2) less [of 0] by (subst write_chunks.simps) (auto simp: Let_def case_prod_unfold write_chunks.simps [of _ _ _ 0])
  next
    case False
    have c: "0 < chunkSize" by (simp add: chunkSize_def)
    from False assms(1) [of "n - chunkSize" g] have "fst (fl n g) = fst (fl chunkSize g) @ fst (fl (n - chunkSize) (snd (fl chunkSize g)))"
      by (simp add: Let_def case_prod_unfold)
    with False c show ?thesis
      using less [of "n - chunkSize"] by (subst write_chunks.simps) (simp add: Let_def case_prod_unfold)
  qed
qed

lemma fill_zero_chunk: "fill_zero (chunkSize + n) g = (let (a, g) = fill_zero chunkSize g; (b, g) = fill_zero n g in (a @ b, g))"
  by (simp add: fill_zero_def replicate_add)

lemma fill_random_chunk:
  "fill_random rng (chunkSize + n) g = (let (a, g) = fill_random rng chunkSize g; (b, g) = fill_random rng n g in (a @ b, g))"
  using fill_random_split [of rng "2 ^ 17" n g] by (simp add: chunkSize_def)

lemma length_le64 [simp]: "length (le64 v) = 8"
  by (simp add: le64_def)

lemma length_fill_tail: "length (fst (fill_tail r n g)) = n"
  by (induction n arbitrary: g) (simp_all add: Let_def case_prod_unfold)

lemma length_fill_random: "length (fst (fill_random rng n g)) = n"
proof (induction n arbitrary: g rule: less_induct)
  case (less n)
  then show ?case
    by (subst fill_random.simps) (auto simp: Let_def case_prod_unfold length_fill_tail)
qed

section \<open>Parsing\<close>

lemma HasSuffix_rev: "HasSuffix s suffix = starts_with (rev suffix) (rev s)"
  by (auto simp: HasSuffix_def starts_with_def take_rev rev_swap) (metis diff_le_self length_drop)

lemma digit_printable: "is_digit c \<Longrightarrow> printable c"
  by (simp add: is_digit_def printable_def word_le_nat_alt word_less_nat_alt)

lemma digit_upper: "list_all is_digit d \<Longrightarrow> ToUpper d = d"
  by (induction d) (auto simp: ToUpper_def is_digit_def word_le_nat_alt)

lemma scan_digits:
  assumes "list_all is_digit d" "d \<noteq> []"
  shows "scan_token d = d"
proof -
  obtain c cs where d: "d = c # cs" "is_digit c" using assms by (cases d) auto
  then have "c \<noteq> 0x2B" "c \<noteq> 0x2D" by (auto simp: is_digit_def)
  moreover have "takeWhile is_digit d = d" using assms(1) by (simp add: takeWhile_eq_all_conv list_all_iff)
  ultimately show ?thesis by (simp add: scan_token_def d(1))
qed

lemma unit_found:
  assumes "list_all is_digit d" "d \<noteq> []" "(u, m) \<in> set (([], 1) # size_units)"
  shows "(case find (\<lambda>x. HasSuffix (d @ u) (fst x)) size_units of None \<Rightarrow> ([], 1) | Some x \<Rightarrow> x) = (u, m)"
proof -
  obtain c r where c: "rev d = c # r" "is_digit c"
    using assms(1,2) by (cases d rule: rev_cases) auto
  then have n: "c \<noteq> 0x42" "c \<noteq> 0x47" "c \<noteq> 0x49" "c \<noteq> 0x4B" "c \<noteq> 0x4D" by (auto simp: is_digit_def)
  have u: "size_units = [([0x47, 0x49, 0x42], 2 ^ 30), ([0x4D, 0x49, 0x42], 2 ^ 20), ([0x4B, 0x49, 0x42], 2 ^ 10),
      ([0x47, 0x42], 1000 * 1000 * 1000), ([0x4D, 0x42], 1000 * 1000), ([0x4B, 0x42], 1000), ([0x42], 1)]"
    by (simp add: size_units_def go_string_def)
  from assms(3) have "(u, m) = ([], 1) \<or> (u, m) \<in> set size_units" by simp
  then consider "u = []" "m = 1" | "(u, m) = ([0x47, 0x49, 0x42], 2 ^ 30)" | "(u, m) = ([0x4D, 0x49, 0x42], 2 ^ 20)"
    | "(u, m) = ([0x4B, 0x49, 0x42], 2 ^ 10)" | "(u, m) = ([0x47, 0x42], 1000 * 1000 * 1000)"
    | "(u, m) = ([0x4D, 0x42], 1000 * 1000)" | "(u, m) = ([0x4B, 0x42], 1000)" | "(u, m) = ([0x42], 1)"
    unfolding u by (simp only: list.set insert_iff empty_iff) blast
  then show ?thesis
    by cases (simp_all add: u HasSuffix_rev c(1) n)
qed

lemma unit_printable: "(u, m) \<in> set size_units \<Longrightarrow> u \<noteq> [] \<and> last u = 0x42 \<and> 0 < m"
  by (auto simp: size_units_def go_string_def)


lemma upper_last: "ToUpper s = u \<Longrightarrow> u \<noteq> [] \<Longrightarrow> last u = 0x42 \<Longrightarrow> s \<noteq> [] \<and> printable (last s)"
  by (cases s rule: rev_cases) (auto simp: ToUpper_def printable_def word_le_nat_alt split: if_splits)

lemma parseSize_decimal:
  assumes "n * m < 2 ^ 63" "0 < n" "(u, int m) \<in> set (([], 1) # size_units)" "ToUpper s = u"
  shows "parseSize (decimal_nat n @ s) = Some (int (n * m))"
proof -
  note d = decimal_nat_digits [of n]
  have dd: "list_all is_digit (decimal_nat n)" "decimal_nat n \<noteq> []" using d by auto
  have m: "0 < m" using assms(3) unit_printable by fastforce
  have h: "printable (hd (decimal_nat n))" "printable (last (decimal_nat n))"
    using dd digit_printable by (auto simp: list_all_iff)
  have "printable (last (decimal_nat n @ s))"
    using h(2) upper_last [OF assms(4)] unit_printable [of u "int m"] assms(3,4) by (cases "s = []") (auto simp: ToUpper_def)
  then have t: "TrimSpace (decimal_nat n @ s) = decimal_nat n @ s"
    using dd(2) h(1) by (intro TrimSpace_id) auto
  have up: "ToUpper (decimal_nat n @ s) = decimal_nat n @ u"
    using digit_upper [OF dd(1)] assms(4) by (simp add: ToUpper_def)
  have l: "length u = length s" using assms(4) by auto
  have "n \<le> n * m" using m by simp
  then have n: "n < 2 ^ 63" using assms(1) by (rule le_less_trans)
  have "signed_take_bit 63 (int n * int m) = int n * int m"
    using assms(1) by (intro signed_take_bit_int_eq_self) (simp_all flip: of_nat_mult)
  then have w: "sint (word_of_int (int n * int m) :: u64) = int n * int m"
    unfolding sint_sbintrunc' by simp
  show ?thesis
    using dd(2) unfolding parseSize_def Let_def t up unit_found [OF dd assms(3)]
    by (simp add: l TrimSpace_id [OF dd(2) h] Sscanf_d_def scan_digits [OF dd] Atoi_decimal [OF n] w [simplified])
qed

text \<open>The image for a size given in any unit and in any case has exactly that many bytes: zeros, or what one fill of
  the whole image would have drawn from the generator, so that neither the chunks nor the size of the
  image show in its bytes.\<close>

theorem bench_image_exact:
  assumes "n * m < 2 ^ 63" "0 < n" "(u, int m) \<in> set (([], 1) # size_units)" "ToUpper s = u"
  shows "mkbench rng seed (\<lambda>_. True) True True (decimal_nat n @ s) ''zero'' = Wrote (replicate (n * m) 0)
    \<and> mkbench rng seed (\<lambda>_. True) True True (decimal_nat n @ s) ''random'' = Wrote (fst (fill_random rng (n * m) seed))
    \<and> length (fst (fill_random rng (n * m) seed)) = n * m"
proof -
  have "0 < m" using assms(3) unit_printable by fastforce
  then have p: "\<not> int n * int m \<le> 0" "nat (int n * int m) = n * m" using assms(2) by (simp_all add: mult_le_0_iff nat_mult_distrib)
  have z: "write_chunks fill_zero (\<lambda>_. True) k r g = (replicate r 0, True)" for k r and g :: 'a
    using write_chunks_whole [of fill_zero, OF fill_zero_chunk] by (simp add: fill_zero_def)
  have r: "write_chunks (fill_random rng) (\<lambda>_. True) k n g = (fst (fill_random rng n g), True)" for k n g
    by (rule write_chunks_whole [OF fill_random_chunk]) (simp add: fill_random.simps [of _ 0])
  show ?thesis
    using p by (simp add: mkbench_def parseSize_decimal [OF assms] z r length_fill_random)
qed

text \<open>
  What follows the digits is dropped, and the product is not checked: an unknown unit and a fraction are
  taken for whole bytes or units, and a size beyond 64 bits for another one.
\<close>

lemma parse_size_surprises:
  "parseSize (go_string ''100M'') = Some 100"
  "parseSize (go_string ''10.5KiB'') = Some 10240"
  "parseSize (go_string ''17179869185GiB'') = Some 1073741824"
  by (simp_all add: parseSize_def Let_def go_string_def TrimSpace_id printable_def size_units_def HasSuffix_def
      ToUpper_def Sscanf_d_def scan_token_def Atoi_def is_digit_def)


end
