(* ===== verification/BmcReset.thy ===== *)
theory BmcReset
  imports Main
begin

text \<open>
  The BMC reset helper (\<^verbatim>\<open>scripts/bmc_reset_go\<close>): the reset and the wait for the BMC to come back.
\<close>

section \<open>Waiting for the BMC\<close>

text \<open>
  Times are in milliseconds. \<open>probe k\<close> says how long the \<open>k\<close>-th probe takes, connection and query together, and
  whether the BMC answered both.
\<close>

definition firstWait :: nat where "firstWait = 30000"
definition interval :: nat where "interval = 15000"
definition maxWait :: nat where "maxWait = 240000"

lemmas reset_times = firstWait_def interval_def maxWait_def

datatype reset_outcome = BackAfter nat nat | NotRecovered nat

function await_bmc :: "(nat \<Rightarrow> nat \<times> bool) \<Rightarrow> nat \<Rightarrow> nat \<Rightarrow> nat \<Rightarrow> reset_outcome" where
  "await_bmc probe deadline k clock =
     (if clock < deadline then
        (let (t, up) = probe k
         in if up then BackAfter k (clock + t) else await_bmc probe deadline (Suc k) (clock + t + interval))
      else NotRecovered k)"
  by pat_completeness auto
termination
  by (relation "measure (\<lambda>(probe, deadline, k, clock). deadline - clock)") (auto simp: interval_def)

declare await_bmc.simps [simp del]

datatype reset_exit = NoCredentials | NoConnection | ResetDone reset_outcome

text \<open>The reset is sent once; whether the BMC still answers it makes no difference.\<close>

definition bmc_reset :: "bool \<Rightarrow> bool \<Rightarrow> bool \<Rightarrow> (nat \<Rightarrow> nat \<times> bool) \<Rightarrow> reset_exit \<times> nat" where
  "bmc_reset creds_ok connected accepted probe =
     (if \<not> creds_ok then (NoCredentials, 0)
      else if \<not> connected then (NoConnection, 0)
      else (ResetDone (await_bmc probe maxWait 0 firstWait), 1))"

section \<open>It ends\<close>

lemma await_bmc_bounds:
  assumes "firstWait + k * interval \<le> clock"
  shows "case await_bmc probe maxWait k clock of
      BackAfter j t \<Rightarrow> k \<le> j \<and> snd (probe j) \<and> (\<forall>i. k \<le> i \<and> i < j \<longrightarrow> \<not> snd (probe i)) \<and> j < 14
        \<and> t < maxWait + fst (probe j) \<and> clock + fst (probe j) \<le> t
    | NotRecovered j \<Rightarrow> k \<le> j \<and> (\<forall>i. k \<le> i \<and> i < j \<longrightarrow> \<not> snd (probe i)) \<and> j \<le> max k 14"
  using assms
proof (induction probe maxWait k clock rule: await_bmc.induct)
  case (1 probe k clock)
  obtain t up where p: "probe k = (t, up)" by (metis surj_pair)
  show ?case
  proof (cases "clock < maxWait \<and> \<not> up")
    case True
    have IH: "case await_bmc probe maxWait (Suc k) (clock + t + interval) of
        BackAfter j u \<Rightarrow> Suc k \<le> j \<and> snd (probe j) \<and> (\<forall>i. Suc k \<le> i \<and> i < j \<longrightarrow> \<not> snd (probe i)) \<and> j < 14
          \<and> u < maxWait + fst (probe j) \<and> clock + t + interval + fst (probe j) \<le> u
      | NotRecovered j \<Rightarrow> Suc k \<le> j \<and> (\<forall>i. Suc k \<le> i \<and> i < j \<longrightarrow> \<not> snd (probe i)) \<and> j \<le> max (Suc k) 14"
      by (rule 1(1) [of "probe k" t up]) (use True p 1(2) in auto)
    have k: "k < 14" using True 1(2) by (simp add: reset_times)
    have s: "k \<le> i \<Longrightarrow> snd (probe i) \<Longrightarrow> Suc k \<le> i" for i using True p by (cases "i = k") auto
    from True p have "await_bmc probe maxWait k clock = await_bmc probe maxWait (Suc k) (clock + t + interval)"
      by (subst await_bmc.simps) simp
    then show ?thesis
      using IH k p True by (auto split: reset_outcome.splits dest: s)
  next
    case False
    then show ?thesis
      using 1(2) p by (subst await_bmc.simps) (auto simp: reset_times)
  qed
qed

text \<open>A reset is followed by a bounded wait: the first probe comes after 30 seconds and the last one starts before
  four minutes have passed, so there are at most 14. The run reports success exactly if one of the
  probes made was answered, at the first that was, and sends the reset once.\<close>

theorem reset_wait_bounded:
  "case bmc_reset True True accepted probe of
     (ResetDone (BackAfter j t), n) \<Rightarrow> n = 1 \<and> j < 14 \<and> snd (probe j) \<and> \<not> (\<exists>i < j. snd (probe i))
       \<and> 30000 + fst (probe j) \<le> t \<and> t < 240000 + fst (probe j)
   | (ResetDone (NotRecovered j), n) \<Rightarrow> n = 1 \<and> j \<le> 14 \<and> \<not> (\<exists>i < j. snd (probe i))
   | _ \<Rightarrow> False"
  using await_bmc_bounds [of 0 firstWait probe]
  by (auto simp: bmc_reset_def firstWait_def maxWait_def split: reset_outcome.splits)

end
